(* ===== verification/Payflow_Prelude.thy ===== *)
theory Payflow_Prelude
  imports Main "HOL-Library.Word" "HOL-Library.AList" "HOL-Library.Char_ord" "HOL-Library.List_Lexorder"
begin

text \<open>
  Shared ground of the PayFlow development: the Go integer types as words, the collections of
  simplification rules the component theories fill, and generic facts on association lists
  (Go maps), on row updates (SQL \<open>UPDATE ... WHERE\<close>) and on signed 64-bit arithmetic.
\<close>

section \<open>Types and rule collections\<close>

text \<open>
  Go's \<open>int64\<close> (and \<open>int\<close> on the 64-bit targets the Dockerfile builds for) is a 64-bit word;
  addition and negation wrap, comparisons read the word with \<^const>\<open>sint\<close>.
\<close>

type_synonym int64 = "64 word"

named_theorems runtime_simps \<open>contexts, clocks and the select statement\<close>
named_theorems status_simps \<open>the transaction status machine\<close>
named_theorems error_simps \<open>error chains\<close>
named_theorems mock_defs \<open>definitions of the in-memory repositories\<close>
named_theorems calm_intros \<open>tasks that send nothing and leave the breaker alone\<close>
named_theorems pg_defs \<open>definitions of the PostgreSQL repositories\<close>

section \<open>Generic definitions\<close>

text \<open>A SQL \<open>UPDATE t SET ... WHERE P\<close>: the rows that satisfy the condition are rewritten.\<close>

definition update_where :: "('a \<Rightarrow> bool) \<Rightarrow> ('a \<Rightarrow> 'a) \<Rightarrow> 'a list \<Rightarrow> 'a list" where
  "update_where P f rows = map (\<lambda>r. if P r then f r else r) rows"

text \<open>The number of rows a condition selects, as reported by \<open>RowsAffected\<close> and \<open>COUNT(*)\<close>.\<close>

definition count_where :: "('a \<Rightarrow> bool) \<Rightarrow> 'a list \<Rightarrow> nat" where
  "count_where P rows = length (filter P rows)"

text \<open>Decimal text, as \<open>%d\<close> and \<open>strconv.FormatInt\<close> print it.\<close>

definition digit :: "nat \<Rightarrow> char" where
  "digit n = ''0123456789'' ! n"

fun show_nat :: "nat \<Rightarrow> string" where
  "show_nat n = (if n < 10 then [digit n] else show_nat (n div 10) @ [digit (n mod 10)])"

declare show_nat.simps [simp del]

definition show_int :: "int \<Rightarrow> string" where
  "show_int n = (if n < 0 then CHR ''-'' # show_nat (nat (- n)) else show_nat (nat n))"

section \<open>Rows and association lists\<close>

lemma update_where_Nil [simp]: "update_where P f [] = []"
  by (simp add: update_where_def)

lemma update_where_Cons [simp]:
  "update_where P f (r # rs) = (if P r then f r else r) # update_where P f rs"
  by (simp add: update_where_def)

lemma length_update_where [simp]: "length (update_where P f rows) = length rows"
  by (simp add: update_where_def)

lemma update_where_none: "\<forall>r \<in> set rows. \<not> P r \<Longrightarrow> update_where P f rows = rows"
  by (induction rows) auto

lemma map_update_where_key:
  "(\<And>r. P r \<Longrightarrow> k (f r) = k r) \<Longrightarrow> map k (update_where P f rows) = map k rows"
  by (induction rows) auto

lemma map_of_map_snd: "map_of (map (\<lambda>(k, v). (k, g v)) al) k = map_option g (map_of al k)"
  by (induction al) auto

lemma count_where_eq_0 [simp]: "count_where P rows = 0 \<longleftrightarrow> (\<forall>r \<in> set rows. \<not> P r)"
  by (auto simp: count_where_def filter_empty_conv)

lemma find_SomeD: "find P xs = Some x \<Longrightarrow> x \<in> set xs \<and> P x"
  by (induction xs) (auto split: if_splits)

lemma find_NoneD: "find P xs = None \<Longrightarrow> \<forall>x \<in> set xs. \<not> P x"
  by (auto simp: find_None_iff)

lemma find_None_iff_count: "find P rows = None \<longleftrightarrow> count_where P rows = 0"
  by (auto simp: find_None_iff)

text \<open>Looking a row up by a unique key.\<close>

lemma find_unique_key:
  assumes "distinct (map k rows)" and "r \<in> set rows"
  shows "find (\<lambda>x. k x = k r) rows = Some r"
  using assms by (induction rows) (auto simp: image_iff)

lemma find_key_map_of: "map_option snd (find (\<lambda>p. fst p = x) al) = map_of al x"
  by (induction al) auto

text \<open>A sum over rows after one row with a unique key was rewritten.\<close>

lemma sum_list_update_where:
  fixes g :: "'a \<Rightarrow> int"
  assumes "distinct (map k rows)" and "r \<in> set rows" and "\<And>x. k (f x) = k x"
  shows "sum_list (map g (update_where (\<lambda>x. k x = k r) f rows)) = sum_list (map g rows) - g r + g (f r)"
  using assms
proof (induction rows)
  case Nil
  then show ?case by simp
next
  case (Cons x rows)
  show ?case
  proof (cases "k x = k r")
    case True
    with Cons.prems have "x = r" by (auto simp: image_iff)
    moreover have "update_where (\<lambda>x. k x = k r) f rows = rows"
      using Cons.prems True by (intro update_where_none) (auto simp: image_iff)
    ultimately show ?thesis by simp
  next
    case False
    with Cons.prems have "r \<in> set rows" by auto
    with Cons False show ?thesis by simp
  qed
qed

section \<open>Signed 64-bit arithmetic\<close>

definition in_int64 :: "int \<Rightarrow> bool" where
  "in_int64 n \<longleftrightarrow> - (2 ^ 63) \<le> n \<and> n < 2 ^ 63"

text \<open>The value a sum of two durations has as an \<open>int64\<close>.\<close>

definition wrap64 :: "int \<Rightarrow> int" where
  "wrap64 n = (n + 2 ^ 63) mod 2 ^ 64 - 2 ^ 63"

lemma wrap64_id: "in_int64 n \<Longrightarrow> wrap64 n = n"
  by (simp add: wrap64_def in_int64_def)

lemma in_int64_wrap64 [simp]: "in_int64 (wrap64 n)"
  by (simp add: wrap64_def in_int64_def)

lemma in_int64_sint [simp, intro]: "in_int64 (sint (x :: int64))"
  using sint_greater_eq [of x] sint_lt [of x] by (simp add: in_int64_def)

lemma sint_bounds: "- (2 ^ 63) \<le> sint (x :: int64)" "sint (x :: int64) < 2 ^ 63"
  using in_int64_sint [of x] by (simp_all add: in_int64_def)

lemma sint_of_nat_exact: "int n < 2 ^ 63 \<Longrightarrow> sint (of_nat n :: int64) = int n"
  by (simp add: signed_of_nat signed_take_bit_int_eq_self)

lemma sint_of_int_exact: "in_int64 n \<Longrightarrow> sint (word_of_int n :: int64) = n"
  by (simp add: in_int64_def signed_of_int signed_take_bit_int_eq_self)

lemma sint_add_eq:
  fixes a b :: int64
  shows "sint (a + b) = (sint a + sint b + 2 ^ 63) mod 2 ^ 64 - 2 ^ 63"
  by (simp add: sint_word_ariths signed_take_bit_eq_take_bit_shift take_bit_int_def)

lemma sint_add_exact:
  fixes a b :: int64
  assumes "in_int64 (sint a + sint b)"
  shows "sint (a + b) = sint a + sint b"
  using assms by (simp add: in_int64_def sint_add_eq)

text \<open>
  The guard \<open>balance + delta < 0\<close> of the in-memory repository also catches overflow: a credit
  that leaves the signed range wraps to a negative value, and no other credit does.
\<close>

lemma sint_add_nonneg_exact:
  fixes a b :: int64
  assumes "0 \<le> sint a" and "0 \<le> sint b" and "0 \<le> sint (a + b)"
  shows "sint (a + b) = sint a + sint b"
proof (rule sint_add_exact, rule ccontr)
  assume "\<not> in_int64 (sint a + sint b)"
  with assms(1,2) have ge: "2 ^ 63 \<le> sint a + sint b" by (simp add: in_int64_def)
  moreover have "sint a + sint b < 2 ^ 64" using sint_bounds(2) [of a] sint_bounds(2) [of b] by simp
  ultimately have "(sint a + sint b + 2 ^ 63) mod 2 ^ 64 < 2 ^ 63"
    by (subst minus_mod_self2 [symmetric]) simp
  with assms(3) show False by (simp add: sint_add_eq)
qed

lemma sint_sub_exact:
  fixes a b :: int64
  assumes "0 \<le> sint a" and "0 \<le> sint b"
  shows "sint (a + (- b)) = sint a - sint b"
  using assms sint_bounds [of a] sint_bounds [of b]
  by (simp add: sint_word_ariths signed_take_bit_int_eq_self)

end
