(* ===== verification/Payflow_Strconv.thy ===== *)
theory Payflow_Strconv
  imports Payflow_Prelude
begin

text \<open>
  The text functions of Go's standard library that the HTTP layer and the configuration use:
  \<open>strconv.ParseInt\<close> and \<open>Atoi\<close>, \<open>strings.TrimSpace\<close>, \<open>SplitN\<close> and \<open>Split\<close>, \<open>net.SplitHostPort\<close>.
  Strings are sequences of bytes. The lemmas: printing a number and reading it back is the identity.
\<close>

section \<open>Numbers\<close>

definition digit_value :: "char \<Rightarrow> int option" where
  "digit_value c = (let n = (of_char c :: int) in if 48 \<le> n \<and> n \<le> 57 then Some (n - 48) else None)"

datatype num_error = ErrSyntax | ErrRange

text \<open>
  The digits of \<open>ParseUint(s, 10, 64)\<close>: the first digit that leaves the range of \<open>uint64\<close> ends the loop,
  before the rest of the text is looked at.
\<close>

fun parse_digits :: "int \<Rightarrow> string \<Rightarrow> num_error + int" where
  "parse_digits n [] = Inr n"
| "parse_digits n (c # cs) =
     (case digit_value c of
        None \<Rightarrow> Inl ErrSyntax
      | Some d \<Rightarrow> if 2 ^ 64 \<le> n * 10 + d then Inl ErrRange else parse_digits (n * 10 + d) cs)"

definition ParseUint :: "string \<Rightarrow> num_error + int" where
  "ParseUint s = (if s = [] then Inl ErrSyntax else parse_digits 0 s)"

text \<open>\<open>ParseInt(s, 10, 64)\<close>: the value comes with the error; it is clamped when out of range.\<close>

definition ParseInt :: "string \<Rightarrow> int64 \<times> num_error option" where
  "ParseInt s =
     (let neg = (s \<noteq> [] \<and> hd s = CHR ''-'');
          digits = (if s \<noteq> [] \<and> (hd s = CHR ''-'' \<or> hd s = CHR ''+'') then tl s else s)
      in case ParseUint digits of
           Inl ErrSyntax \<Rightarrow> (0, Some ErrSyntax)
         | Inl ErrRange \<Rightarrow> (if neg then word_of_int (- (2 ^ 63)) else word_of_int (2 ^ 63 - 1), Some ErrRange)
         | Inr un \<Rightarrow>
             if \<not> neg \<and> 2 ^ 63 \<le> un then (word_of_int (2 ^ 63 - 1), Some ErrRange)
             else if neg \<and> 2 ^ 63 < un then (word_of_int (- (2 ^ 63)), Some ErrRange)
             else (word_of_int (if neg then - un else un), None))"

text \<open>\<open>Atoi\<close> reads an \<open>int\<close>, of 64 bits here, like \<open>ParseInt\<close> in base 10.\<close>

definition Atoi :: "string \<Rightarrow> int64 \<times> num_error option" where
  "Atoi s = ParseInt s"

section \<open>Strings\<close>

text \<open>The bytes of the code points for which \<open>unicode.IsSpace\<close> holds.\<close>

definition unicode_spaces :: "string list" where
  "unicode_spaces = map (map char_of)
     ([[9 :: nat], [10], [11], [12], [13], [32], [194, 133], [194, 160], [225, 154, 128], [226, 128, 168], [226, 128, 169],
       [226, 128, 175], [226, 129, 159], [227, 128, 128]] @ map (\<lambda>n. [226, 128, n]) [128..<139])"

text \<open>The spaces as literals, which evaluate faster.\<close>

lemma unicode_spaces_code [code]: "unicode_spaces =
    [[CHR 0x09], [CHR 0x0A], [CHR 0x0B], [CHR 0x0C], [CHR 0x0D], [CHR 0x20], [CHR 0xC2, CHR 0x85],
     [CHR 0xC2, CHR 0xA0], [CHR 0xE1, CHR 0x9A, CHR 0x80], [CHR 0xE2, CHR 0x80, CHR 0xA8],
     [CHR 0xE2, CHR 0x80, CHR 0xA9], [CHR 0xE2, CHR 0x80, CHR 0xAF], [CHR 0xE2, CHR 0x81, CHR 0x9F],
     [CHR 0xE3, CHR 0x80, CHR 0x80], [CHR 0xE2, CHR 0x80, CHR 0x80], [CHR 0xE2, CHR 0x80, CHR 0x81],
     [CHR 0xE2, CHR 0x80, CHR 0x82], [CHR 0xE2, CHR 0x80, CHR 0x83], [CHR 0xE2, CHR 0x80, CHR 0x84],
     [CHR 0xE2, CHR 0x80, CHR 0x85], [CHR 0xE2, CHR 0x80, CHR 0x86], [CHR 0xE2, CHR 0x80, CHR 0x87],
     [CHR 0xE2, CHR 0x80, CHR 0x88], [CHR 0xE2, CHR 0x80, CHR 0x89], [CHR 0xE2, CHR 0x80, CHR 0x8A]]"
  by code_simp

fun starts_with :: "string \<Rightarrow> string \<Rightarrow> bool" where
  "starts_with [] s = True"
| "starts_with (c # cs) [] = False"
| "starts_with (c # cs) (d # s) = (c = d \<and> starts_with cs s)"

fun trim_left :: "string list \<Rightarrow> nat \<Rightarrow> string \<Rightarrow> string" where
  "trim_left sp 0 s = s"
| "trim_left sp (Suc n) s = (case find (\<lambda>p. starts_with p s) sp of None \<Rightarrow> s | Some p \<Rightarrow> trim_left sp n (drop (length p) s))"

definition TrimSpace :: "string \<Rightarrow> string" where
  "TrimSpace s =
     (let t = trim_left unicode_spaces (length s) s
      in rev (trim_left (map rev unicode_spaces) (length t) (rev t)))"

text \<open>\<open>strings.SplitN(s, sep, 2)\<close> and \<open>strings.Split(s, sep)\<close> for a separator of one byte.\<close>

definition SplitN2 :: "char \<Rightarrow> string \<Rightarrow> string list" where
  "SplitN2 c s = (if c \<in> set s then [takeWhile (\<lambda>x. x \<noteq> c) s, tl (dropWhile (\<lambda>x. x \<noteq> c) s)] else [s])"

fun Split :: "char \<Rightarrow> string \<Rightarrow> string list" where
  "Split c [] = [[]]"
| "Split c (x # s) =
     (if x = c then [] # Split c s
      else case Split c s of [] \<Rightarrow> [[x]] | p # ps \<Rightarrow> (x # p) # ps)"

text \<open>\<open>net.SplitHostPort\<close>, as far as the host: \<open>None\<close> is an error.\<close>

definition last_index :: "char \<Rightarrow> string \<Rightarrow> nat option" where
  "last_index c s = (if c \<in> set s then Some (length s - Suc (length (takeWhile (\<lambda>x. x \<noteq> c) (rev s)))) else None)"

definition SplitHostPort :: "string \<Rightarrow> string option" where
  "SplitHostPort hostport =
     (case last_index (CHR '':'') hostport of
        None \<Rightarrow> None
      | Some i \<Rightarrow>
          if hd hostport = CHR ''['' then
            (if CHR '']'' \<notin> set hostport then None
             else let end' = length (takeWhile (\<lambda>x. x \<noteq> CHR '']'') hostport) in
               if end' + 1 \<noteq> i then None
               else if CHR ''['' \<in> set (drop 1 hostport) \<or> CHR '']'' \<in> set (drop (end' + 1) hostport) then None
               else Some (drop 1 (take end' hostport)))
          else
            (let host = take i hostport in
               if CHR '':'' \<in> set host \<or> CHR ''['' \<in> set hostport \<or> CHR '']'' \<in> set hostport then None
               else Some host))"

section \<open>Reading back what was printed\<close>

lemma digit_value_digit: "n < 10 \<Longrightarrow> digit_value (digit n) = Some (int n)"
proof -
  assume "n < 10"
  then have "n \<in> {0, 1, 2, 3, 4, 5, 6, 7, 8, 9}" by auto
  then show ?thesis by (auto simp: digit_def digit_value_def)
qed

lemma parse_digits_append:
  "parse_digits n (xs @ ys) = (case parse_digits n xs of Inl e \<Rightarrow> Inl e | Inr m \<Rightarrow> parse_digits m ys)"
  by (induction n xs rule: parse_digits.induct) (auto split: option.splits)

lemma parse_digits_show_nat: "n < 2 ^ 64 \<Longrightarrow> parse_digits 0 (show_nat n) = Inr (int n)"
proof (induction n rule: show_nat.induct)
  case (1 n)
  show ?case
  proof (cases "n < 10")
    case True
    then show ?thesis by (simp add: show_nat.simps [of n] digit_value_digit)
  next
    case False
    then have "parse_digits 0 (show_nat (n div 10)) = Inr (int (n div 10))" using 1 by simp
    moreover have "int (n div 10) * 10 + int (n mod 10) = int n" by (metis div_mult_mod_eq of_nat_add of_nat_mult of_nat_numeral)
    moreover have "int n < 2 ^ 64" using 1(2) by (metis of_nat_less_numeral_power_cancel_iff)
    ultimately show ?thesis
      using False by (simp add: show_nat.simps [of n] parse_digits_append digit_value_digit)
  qed
qed

lemma digit_neq_sign: "n < 10 \<Longrightarrow> digit n \<noteq> CHR ''-'' \<and> digit n \<noteq> CHR ''+''"
proof -
  assume "n < 10"
  then have "n \<in> {0, 1, 2, 3, 4, 5, 6, 7, 8, 9}" by auto
  then show ?thesis by (auto simp: digit_def)
qed

lemma show_nat_unsigned: "show_nat n \<noteq> [] \<and> hd (show_nat n) \<noteq> CHR ''-'' \<and> hd (show_nat n) \<noteq> CHR ''+''"
proof (induction n rule: show_nat.induct)
  case (1 n)
  then show ?case using digit_neq_sign by (simp add: show_nat.simps [of n])
qed

theorem ParseInt_show_int: "ParseInt (show_int (sint n)) = (n, None)"
proof -
  have b: "- (2 ^ 63) \<le> sint n" "sint n < 2 ^ 63" using in_int64_sint [of n] by (simp_all add: in_int64_def)
  show ?thesis
  proof (cases "sint n < 0")
    case True
    then have "nat (- sint n) < 2 ^ 64" using b by simp
    then show ?thesis using True b show_nat_unsigned [of "nat (- sint n)"] parse_digits_show_nat [of "nat (- sint n)"]
      by (simp add: show_int_def ParseInt_def ParseUint_def)
  next
    case False
    then have "nat (sint n) < 2 ^ 64" using b by simp
    then show ?thesis using False b show_nat_unsigned [of "nat (sint n)"] parse_digits_show_nat [of "nat (sint n)"]
      by (simp add: show_int_def ParseInt_def ParseUint_def)
  qed
qed

end
