(* ===== verification/Payflow_Domain.thy ===== *)
theory Payflow_Domain
  imports Payflow_Prelude
begin

text \<open>
  The domain layer (\<open>internal/domain/models.go\<close>, \<open>internal/domain/errors.go\<close>): transaction
  statuses and their transition table, the entities, the sentinel errors and Go's error chains
  (\<open>fmt.Errorf("%w")\<close>, \<open>errors.Join\<close>, \<open>errors.Is\<close>, \<open>Error()\<close>), pagination parameters.
  Lemmas: the transition table is acyclic and has exactly the terminal states
  \<open>IsTerminal\<close> names or reaches; \<open>errors.Is\<close> looks through every wrapper.
\<close>

section \<open>Transaction status\<close>

text \<open>
  \<open>type TransactionStatus string\<close>: any string is a value of the type, the five constants are the
  ones the code uses.
\<close>

type_synonym TransactionStatus = string

definition TxStatusPending :: TransactionStatus where "TxStatusPending = ''PENDING''"
definition TxStatusProcessing :: TransactionStatus where "TxStatusProcessing = ''PROCESSING''"
definition TxStatusCompleted :: TransactionStatus where "TxStatusCompleted = ''COMPLETED''"
definition TxStatusFailed :: TransactionStatus where "TxStatusFailed = ''FAILED''"
definition TxStatusRefunded :: TransactionStatus where "TxStatusRefunded = ''REFUNDED''"

definition ValidTransitions :: "(TransactionStatus \<times> TransactionStatus list) list" where
  "ValidTransitions =
     [(TxStatusPending, [TxStatusProcessing]),
      (TxStatusProcessing, [TxStatusCompleted, TxStatusFailed]),
      (TxStatusCompleted, [TxStatusRefunded]),
      (TxStatusFailed, []),
      (TxStatusRefunded, [])]"

definition CanTransition :: "TransactionStatus \<Rightarrow> TransactionStatus \<Rightarrow> bool" where
  "CanTransition from to =
     (case map_of ValidTransitions from of
        None \<Rightarrow> False
      | Some allowed \<Rightarrow> list_ex (\<lambda>s. s = to) allowed)"

definition IsTerminal :: "TransactionStatus \<Rightarrow> bool" where
  "IsTerminal s \<longleftrightarrow> s = TxStatusFailed \<or> s = TxStatusRefunded"

section \<open>Entities\<close>

text \<open>
  A \<open>json.RawMessage\<close> is the document it holds, \<open>None\<close> for the empty (nil) message. The documents
  of this program are objects over strings and integers.
\<close>

datatype json = JString string | JNumber int | JObject "(string \<times> json) list"

type_synonym RawMessage = "json option"

text \<open>
  The normal form of a document, which is how the type \<open>JSONB\<close> of PostgreSQL keeps it: of equal keys of
  an object the last one counts, keys are ordered by length and then by their bytes.
\<close>

definition key_less :: "string \<Rightarrow> string \<Rightarrow> bool" where
  "key_less a b \<longleftrightarrow> length a < length b \<or> length a = length b \<and> a < b"

fun set_key :: "string \<Rightarrow> 'v \<Rightarrow> (string \<times> 'v) list \<Rightarrow> (string \<times> 'v) list" where
  "set_key k v [] = [(k, v)]"
| "set_key k v ((a, b) # fs) =
     (if key_less k a then (k, v) # (a, b) # fs else if k = a then (k, v) # fs else (a, b) # set_key k v fs)"

definition set_keys :: "(string \<times> 'v) list \<Rightarrow> (string \<times> 'v) list \<Rightarrow> (string \<times> 'v) list" where
  "set_keys fs acc = fold (\<lambda>(k, v). set_key k v) fs acc"

primrec normal_json :: "json \<Rightarrow> json" where
  "normal_json (JString s) = JString s"
| "normal_json (JNumber n) = JNumber n"
| "normal_json (JObject fs) = JObject (set_keys (map (map_prod id normal_json) fs) [])"

text \<open>\<open>time.Time\<close> and \<open>time.Duration\<close> are integers, in nanoseconds.\<close>

record Transaction =
  tx_ID :: string
  tx_MerchantID :: string
  tx_AmountCents :: int64
  tx_Currency :: string
  tx_Status :: TransactionStatus
  tx_IdempotencyKey :: string
  tx_Description :: string
  tx_Metadata :: RawMessage
  tx_CreatedAt :: int
  tx_UpdatedAt :: int

type_synonym MerchantStatus = string

definition MerchantActive :: MerchantStatus where "MerchantActive = ''ACTIVE''"
definition MerchantInactive :: MerchantStatus where "MerchantInactive = ''INACTIVE''"
definition MerchantSuspend :: MerchantStatus where "MerchantSuspend = ''SUSPENDED''"

record Merchant =
  m_ID :: string
  m_Name :: string
  m_APIKey :: string
  m_BalanceCents :: int64
  m_Currency :: string
  m_Status :: MerchantStatus
  m_CreatedAt :: int
  m_UpdatedAt :: int

definition IsActive :: "Merchant \<Rightarrow> bool" where
  "IsActive m \<longleftrightarrow> m_Status m = MerchantActive"

record TransactionEvent =
  ev_ID :: int64
  ev_TransactionID :: string
  ev_EventType :: string
  ev_FromStatus :: string
  ev_ToStatus :: string
  ev_Payload :: RawMessage
  ev_CreatedAt :: int

record OutboxEvent =
  ob_ID :: int64
  ob_EventType :: string
  ob_Payload :: RawMessage
  ob_Published :: bool
  ob_CreatedAt :: int

record ListParams =
  Limit :: int64
  Offset :: int64

definition NewListParams :: "int64 \<Rightarrow> int64 \<Rightarrow> ListParams" where
  "NewListParams limit offset =
     (let limit = (if sint limit \<le> 0 \<or> sint limit > 100 then 20 else limit);
          offset = (if sint offset < 0 then 0 else offset)
      in \<lparr>Limit = limit, Offset = offset\<rparr>)"

section \<open>Errors\<close>

text \<open>
  The sentinel errors of \<open>domain/errors.go\<close>, with the ones the code compares against from other
  packages: \<open>service.ErrCircuitOpen\<close>, \<open>context.Canceled\<close>, \<open>context.DeadlineExceeded\<close> and
  \<open>sql.ErrTxDone\<close>.
\<close>

datatype sentinel =
    ErrMerchantNotFound | ErrMerchantInactive
  | ErrTransactionNotFound | ErrInvalidAmount | ErrInvalidCurrency | ErrCannotRefund
  | ErrDuplicateTransaction | ErrTransactionExpired | ErrInvalidTransition
  | ErrBankTimeout | ErrBankUnavailable | ErrBankRejected | ErrAmountExceedsLimit
  | ErrInsufficientFunds | ErrRateLimited | ErrUnauthorized | ErrForbidden
  | ErrCircuitOpen | Canceled | DeadlineExceeded | ErrTxDone

fun sentinel_text :: "sentinel \<Rightarrow> string" where
  "sentinel_text ErrMerchantNotFound = ''merchant not found''"
| "sentinel_text ErrMerchantInactive = ''merchant account is not active''"
| "sentinel_text ErrTransactionNotFound = ''transaction not found''"
| "sentinel_text ErrInvalidAmount = ''amount must be positive''"
| "sentinel_text ErrInvalidCurrency = ''unsupported currency''"
| "sentinel_text ErrCannotRefund = ''can only refund completed transactions''"
| "sentinel_text ErrDuplicateTransaction = ''duplicate transaction (idempotency key already used)''"
| "sentinel_text ErrTransactionExpired = ''transaction has expired''"
| "sentinel_text ErrInvalidTransition = ''invalid status transition''"
| "sentinel_text ErrBankTimeout = ''bank API timed out''"
| "sentinel_text ErrBankUnavailable = ''bank API unavailable''"
| "sentinel_text ErrBankRejected = ''bank rejected the transaction''"
| "sentinel_text ErrAmountExceedsLimit = ''amount exceeds transfer limit''"
| "sentinel_text ErrInsufficientFunds = ''insufficient funds''"
| "sentinel_text ErrRateLimited = ''too many requests''"
| "sentinel_text ErrUnauthorized = ''unauthorized''"
| "sentinel_text ErrForbidden = ''forbidden''"
| "sentinel_text ErrCircuitOpen = ''circuit breaker is open''"
| "sentinel_text Canceled = ''context canceled''"
| "sentinel_text DeadlineExceeded = ''context deadline exceeded''"
| "sentinel_text ErrTxDone = ''sql: transaction has already been committed or rolled back''"

text \<open>
  An \<open>error\<close> value: a sentinel, a fresh \<open>errors.New\<close> (or an error of a driver, known by its text
  only), \<open>fmt.Errorf\<close> with one \<open>%w\<close> verb (the text before it, the wrapped error, the text after
  it), \<open>errors.Join\<close> of two errors. \<open>Panic\<close> stands for a run-time panic that reaches the caller.
\<close>

datatype go_error =
    Sentinel sentinel
  | New string
  | Errorf string go_error string
  | Join go_error go_error
  | Panic string

fun errors_Is :: "go_error \<Rightarrow> sentinel \<Rightarrow> bool" where
  "errors_Is (Sentinel s) target = (s = target)"
| "errors_Is (New _) target = False"
| "errors_Is (Errorf _ e _) target = errors_Is e target"
| "errors_Is (Join a b) target = (errors_Is a target \<or> errors_Is b target)"
| "errors_Is (Panic _) target = False"

fun Error :: "go_error \<Rightarrow> string" where
  "Error (Sentinel s) = sentinel_text s"
| "Error (New m) = m"
| "Error (Errorf pre e post) = pre @ Error e @ post"
| "Error (Join a b) = Error a @ [CHR 10] @ Error b"
| "Error (Panic m) = m"

fun is_panic :: "go_error \<Rightarrow> bool" where
  "is_panic (Panic _) = True"
| "is_panic _ = False"

abbreviation (input) wrapf :: "string \<Rightarrow> go_error \<Rightarrow> go_error" where
  "wrapf pre e \<equiv> Errorf pre e []"

text \<open>The optional error of a function that returns \<open>error\<close> only: \<open>errors.Is(err, target)\<close> on it.\<close>

definition err_is :: "go_error option \<Rightarrow> sentinel \<Rightarrow> bool" where
  "err_is err target = (case err of None \<Rightarrow> False | Some e \<Rightarrow> errors_Is e target)"

section \<open>Facts on the status machine\<close>

lemmas status_defs = TxStatusPending_def TxStatusProcessing_def TxStatusCompleted_def
  TxStatusFailed_def TxStatusRefunded_def

lemma status_distinct [simp, status_simps]:
  "TxStatusPending \<noteq> TxStatusProcessing" "TxStatusProcessing \<noteq> TxStatusPending"
  "TxStatusPending \<noteq> TxStatusCompleted" "TxStatusCompleted \<noteq> TxStatusPending"
  "TxStatusPending \<noteq> TxStatusFailed" "TxStatusFailed \<noteq> TxStatusPending"
  "TxStatusPending \<noteq> TxStatusRefunded" "TxStatusRefunded \<noteq> TxStatusPending"
  "TxStatusProcessing \<noteq> TxStatusCompleted" "TxStatusCompleted \<noteq> TxStatusProcessing"
  "TxStatusProcessing \<noteq> TxStatusFailed" "TxStatusFailed \<noteq> TxStatusProcessing"
  "TxStatusProcessing \<noteq> TxStatusRefunded" "TxStatusRefunded \<noteq> TxStatusProcessing"
  "TxStatusCompleted \<noteq> TxStatusFailed" "TxStatusFailed \<noteq> TxStatusCompleted"
  "TxStatusCompleted \<noteq> TxStatusRefunded" "TxStatusRefunded \<noteq> TxStatusCompleted"
  "TxStatusFailed \<noteq> TxStatusRefunded" "TxStatusRefunded \<noteq> TxStatusFailed"
  by (simp_all add: status_defs)

lemma CanTransition_iff [status_simps]:
  "CanTransition from to \<longleftrightarrow>
     from = TxStatusPending \<and> to = TxStatusProcessing
   \<or> from = TxStatusProcessing \<and> (to = TxStatusCompleted \<or> to = TxStatusFailed)
   \<or> from = TxStatusCompleted \<and> to = TxStatusRefunded"
  by (auto simp: CanTransition_def ValidTransitions_def)

text \<open>The position of a status in the lifecycle: every valid transition moves it up.\<close>

definition status_rank :: "TransactionStatus \<Rightarrow> nat" where
  "status_rank s =
     (if s = TxStatusPending then 0 else if s = TxStatusProcessing then 1
      else if s = TxStatusCompleted then 2 else 3)"

lemma CanTransition_rank: "CanTransition from to \<Longrightarrow> status_rank from < status_rank to"
  by (auto simp: CanTransition_iff status_rank_def)

lemma status_rank_le: "status_rank s \<le> 3"
  by (simp add: status_rank_def)

lemma err_is_simps [simp, error_simps]:
  "err_is None t = False" "err_is (Some e) t = errors_Is e t"
  by (simp_all add: err_is_def)

lemma NewListParams_bounds:
  "1 \<le> sint (Limit (NewListParams l f))" "sint (Limit (NewListParams l f)) \<le> 100"
  "0 \<le> sint (Offset (NewListParams l f))"
  by (simp_all add: NewListParams_def Let_def)

section \<open>Normal forms of documents\<close>

lemma key_less_order:
  "\<not> key_less a a" "key_less a b \<Longrightarrow> key_less b c \<Longrightarrow> key_less a c" "key_less a b \<or> a = b \<or> key_less b a"
  by (auto simp: key_less_def)

abbreviation keys_sorted :: "(string \<times> 'v) list \<Rightarrow> bool" where
  "keys_sorted \<equiv> sorted_wrt (\<lambda>p q. key_less (fst p) (fst q))"

lemma set_set_key: "set (set_key k v fs) \<subseteq> insert (k, v) (set fs)"
  by (induction fs) (auto split: if_splits)

lemma sorted_set_key: "keys_sorted fs \<Longrightarrow> keys_sorted (set_key k v fs)"
proof (induction fs)
  case (Cons f fs)
  obtain a b where f: "f = (a, b)" by (cases f)
  from Cons.prems have above: "\<forall>q \<in> set fs. key_less a (fst q)" and fs: "keys_sorted fs" by (simp_all add: f)
  consider "key_less k a" | "k = a" | "key_less a k" "\<not> key_less k a" "k \<noteq> a"
    using key_less_order(3) [of k a] by auto
  then show ?case
  proof cases
    case 1
    then show ?thesis using above fs key_less_order(2) [of k a] by (auto simp: f)
  next
    case 3
    then have "\<forall>q \<in> set (set_key k v fs). key_less a (fst q)"
      using above set_set_key [of k v fs] by fastforce
    then show ?thesis using 3 Cons.IH [OF fs] by (simp add: f)
  qed (use above fs key_less_order(1) in \<open>simp add: f\<close>)
qed simp

lemma sorted_set_keys: "keys_sorted acc \<Longrightarrow> keys_sorted (set_keys fs acc)"
  by (induction fs arbitrary: acc) (auto simp: set_keys_def sorted_set_key)

lemma set_set_keys: "set (set_keys fs acc) \<subseteq> set fs \<union> set acc"
proof (induction fs arbitrary: acc)
  case (Cons f fs)
  show ?case using Cons.IH [of "set_key (fst f) (snd f) acc"] set_set_key [of "fst f" "snd f" acc]
    by (auto simp: set_keys_def case_prod_beta)
qed (simp add: set_keys_def)

lemma set_key_last: "\<forall>q \<in> set acc. key_less (fst q) k \<Longrightarrow> set_key k v acc = acc @ [(k, v)]"
proof (induction acc)
  case (Cons f acc)
  obtain a b where f: "f = (a, b)" by (cases f)
  with Cons.prems have "key_less a k" by simp
  then have "\<not> key_less k a" "k \<noteq> a" using key_less_order by blast+
  then show ?case using Cons by (simp add: f)
qed simp

lemma set_keys_sorted: "keys_sorted (acc @ fs) \<Longrightarrow> set_keys fs acc = acc @ fs"
proof (induction fs arbitrary: acc)
  case (Cons f fs)
  then have "set_key (fst f) (snd f) acc = acc @ [f]" using set_key_last [of acc "fst f" "snd f"] by (simp add: sorted_wrt_append)
  then show ?case using Cons.IH [of "acc @ [f]"] Cons.prems by (simp add: set_keys_def case_prod_beta)
qed (simp add: set_keys_def)

lemma normal_json_idem [simp]: "normal_json (normal_json j) = normal_json j"
proof (induction j)
  case (JObject fs)
  let ?gs = "set_keys (map (map_prod id normal_json) fs) []"
  have "map_prod id normal_json q = q" if "q \<in> set ?gs" for q
  proof -
    from that set_set_keys [of "map (map_prod id normal_json) fs" "[]"] obtain p where p: "p \<in> set fs" "q = map_prod id normal_json p"
      by auto
    obtain a b where ab: "p = (a, b)" by (cases p)
    have "normal_json (normal_json b) = normal_json b" using JObject [of p b] p(1) by (simp add: ab)
    then show ?thesis by (simp add: p(2) ab)
  qed
  then have "map (map_prod id normal_json) ?gs = ?gs" by (simp add: map_idI)
  moreover have "keys_sorted ?gs" using sorted_set_keys [of "[]" "map (map_prod id normal_json) fs"] by simp
  ultimately show ?case using set_keys_sorted [of "[]" ?gs] by simp
qed simp_all

section \<open>Properties\<close>

text \<open>C18: the lifecycle has no cycles: a path of valid transitions moves a status strictly up its rank,
  which has four levels, so no transaction changes status more than three times along the table; and
  among the statuses of the table exactly the ones \<open>IsTerminal\<close> names have no way out.\<close>

theorem lifecycle_acyclic:
  "(\<forall>a b. CanTransition\<^sup>+\<^sup>+ a b \<longrightarrow> status_rank a < status_rank b \<and> status_rank b \<le> 3)
   \<and> (\<forall>a \<in> set (map fst ValidTransitions). IsTerminal a \<longleftrightarrow> (\<forall>b. \<not> CanTransition a b))"
proof (intro conjI allI impI ballI)
  fix a b assume "CanTransition\<^sup>+\<^sup>+ a b"
  then show "status_rank a < status_rank b" "status_rank b \<le> 3"
    by (induction rule: tranclp_induct) (auto dest: CanTransition_rank simp: status_rank_le)
next
  fix a assume "a \<in> set (map fst ValidTransitions)"
  then show "IsTerminal a \<longleftrightarrow> (\<forall>b. \<not> CanTransition a b)"
    by (auto simp: ValidTransitions_def IsTerminal_def CanTransition_iff)
qed

lemma lifecycle_acyclic_witness:
  "status_rank TxStatusPending < status_rank TxStatusRefunded \<and> IsTerminal TxStatusRefunded"
proof -
  have "CanTransition TxStatusPending TxStatusProcessing" "CanTransition TxStatusProcessing TxStatusCompleted"
    "CanTransition TxStatusCompleted TxStatusRefunded" by (simp_all add: CanTransition_iff)
  then have "CanTransition\<^sup>+\<^sup>+ TxStatusPending TxStatusRefunded" by (meson tranclp.intros)
  moreover have "TxStatusRefunded \<in> set (map fst ValidTransitions)" by (simp add: ValidTransitions_def)
  ultimately show ?thesis
    using conjunct1 [OF lifecycle_acyclic] conjunct2 [OF lifecycle_acyclic] by (auto simp: CanTransition_iff)
qed

end
