(* ===== verification/Payflow_Runtime.thy ===== *)
theory Payflow_Runtime
  imports Payflow_Domain
begin

text \<open>
  What the service code uses of the Go runtime and standard library: contexts with cancellation
  and deadlines (\<open>context\<close>), the clock, timers and \<open>select\<close>, random numbers. Everything the program
  does not control is a stream of the environment: how long the n-th external call takes, what
  the random sources return, which branch a \<open>select\<close> with two ready cases takes. The theorems
  quantify over all environments.
\<close>

section \<open>Environment\<close>

text \<open>
  \<open>now\<close> is the clock in nanoseconds, \<open>steps\<close> the number of environment interactions so far (the
  index into the streams), \<open>trace\<close> the requests sent to the outside so far. \<open>fconv\<close> is what the
  platform returns for the conversion of a \<open>float64\<close> beyond the range of \<open>int64\<close> (the language leaves
  it open: amd64 gives the least value, arm64 the greatest).
\<close>

record 'tr env =
  now :: int
  steps :: nat
  lat :: "nat \<Rightarrow> nat"
  picks :: "nat \<Rightarrow> bool"
  rands :: "nat \<Rightarrow> nat"
  csprng :: "nat \<Rightarrow> 64 word option"
  fconv :: int
  trace :: "'tr list"

text \<open>Durations in nanoseconds.\<close>

definition second :: int where "second = 1000000000"
definition millisecond :: int where "millisecond = 1000000"

text \<open>An external call: the clock advances by the time the call takes.\<close>

definition tick :: "'tr env \<Rightarrow> 'tr env" where
  "tick e = e\<lparr>now := now e + int (lat e (steps e)), steps := Suc (steps e)\<rparr>"

text \<open>\<open>math/rand\<close>'s \<open>Int63n(n)\<close>: a value of the half-open interval from 0 to \<open>n\<close>.\<close>

definition Int63n :: "int \<Rightarrow> 'tr env \<Rightarrow> int \<times> 'tr env" where
  "Int63n n e = (int (rands e (steps e)) mod n, e\<lparr>steps := Suc (steps e)\<rparr>)"

section \<open>Floating point\<close>

text \<open>
  \<open>float64(n)\<close> of a non-negative integer: 53 significant bits, ties to even. Multiplying by a power
  of two is exact, and so is \<open>math.Pow(2, k)\<close>; what does not fit \<open>int64\<close> afterwards (an infinite
  product included) converts to \<open>fconv\<close>.
\<close>

fun bit_length :: "nat \<Rightarrow> nat" where
  "bit_length n = (if n = 0 then 0 else Suc (bit_length (n div 2)))"

declare bit_length.simps [simp del]

definition float64_nat :: "nat \<Rightarrow> nat" where
  "float64_nat n =
     (if n < 2 ^ 53 then n
      else let k = bit_length n - 53; q = n div 2 ^ k; r = n mod 2 ^ k
           in (if 2 ^ (k - 1) < r \<or> r = 2 ^ (k - 1) \<and> odd q then q + 1 else q) * 2 ^ k)"

definition int64_of_float :: "int \<Rightarrow> 'tr env \<Rightarrow> int" where
  "int64_of_float v e = (if v < 2 ^ 63 then v else fconv e)"

section \<open>Contexts\<close>

text \<open>
  A context is known by the moment it is done and the error it then reports: cancellation by the
  client (\<open>Canceled\<close>) or a deadline (\<open>DeadlineExceeded\<close>). \<open>Context None\<close> is never done
  (\<open>context.Background()\<close>). \<open>NilContext\<close> is the nil interface value, which the helpers of
  \<open>payment.go\<close> test for.
\<close>

datatype go_context = NilContext | Context "(int \<times> go_error) option"

definition Background :: go_context where "Background = Context None"

fun ctx_Err :: "go_context \<Rightarrow> int \<Rightarrow> go_error option" where
  "ctx_Err NilContext t = None"
| "ctx_Err (Context None) t = None"
| "ctx_Err (Context (Some (d, err))) t = (if d \<le> t then Some err else None)"

fun WithTimeout :: "go_context \<Rightarrow> int \<Rightarrow> int \<Rightarrow> go_context" where
  "WithTimeout NilContext d t = NilContext"
| "WithTimeout (Context None) d t = Context (Some (t + d, Sentinel DeadlineExceeded))"
| "WithTimeout (Context (Some (p, err))) d t =
     Context (Some (if p \<le> t + d then (p, err) else (t + d, Sentinel DeadlineExceeded)))"

text \<open>
  \<open>context.WithCancel\<close> adds a cancel function; the program only calls it when the derived context
  is out of use (\<open>defer cancel()\<close>). \<open>context.WithoutCancel\<close> is never done.
\<close>

definition WithCancel :: "go_context \<Rightarrow> go_context" where "WithCancel c = c"

definition WithoutCancel :: "go_context \<Rightarrow> go_context" where "WithoutCancel c = Background"

fun ctx_deadline :: "go_context \<Rightarrow> int option" where
  "ctx_deadline NilContext = None"
| "ctx_deadline (Context None) = None"
| "ctx_deadline (Context (Some (d, err))) = Some d"

section \<open>Waiting\<close>

text \<open>
  \<open>select\<close> over \<open>ctx.Done()\<close> and a timer of duration \<open>d\<close>: the case that is ready first is taken, a
  tie is decided by \<open>picks\<close>; the goroutine resumes some time (\<open>lat\<close>) after that event. The result
  says whether the \<open>ctx.Done()\<close> case was taken.
\<close>

definition select_timer :: "go_context \<Rightarrow> int \<Rightarrow> 'tr env \<Rightarrow> bool \<times> 'tr env" where
  "select_timer ctx d e =
     (let fire = now e + max 0 d;
          resume = (\<lambda>t. e\<lparr>now := t + int (lat e (steps e)), steps := Suc (steps e)\<rparr>)
      in case ctx_deadline ctx of
           None \<Rightarrow> (False, resume fire)
         | Some p \<Rightarrow>
             (let p = max p (now e)
              in if p < fire then (True, resume p)
                 else if fire < p then (False, resume fire)
                 else (picks e (steps e), resume fire)))"

section \<open>Facts\<close>

lemma tick_simps [simp, runtime_simps]:
  "now (tick e) = now e + int (lat e (steps e))" "steps (tick e) = Suc (steps e)"
  "lat (tick e) = lat e" "picks (tick e) = picks e" "rands (tick e) = rands e"
  "csprng (tick e) = csprng e" "fconv (tick e) = fconv e" "trace (tick e) = trace e"
  by (simp_all add: tick_def)

lemma Int63n_bounds: "0 < n \<Longrightarrow> Int63n n e = (r, e') \<Longrightarrow> 0 \<le> r \<and> r < n"
  by (auto simp: Int63n_def)

lemma ctx_Err_Background [simp, runtime_simps]: "ctx_Err Background t = None"
  by (simp add: Background_def)

lemma ctx_Err_WithoutCancel [simp, runtime_simps]: "ctx_Err (WithoutCancel c) t = None"
  by (simp add: WithoutCancel_def)

text \<open>A done context stays done, with the same error.\<close>

lemma ctx_Err_mono: "ctx_Err c t = Some err \<Longrightarrow> t \<le> t' \<Longrightarrow> ctx_Err c t' = Some err"
  by (cases c rule: ctx_deadline.cases) (auto split: if_splits)

lemma ctx_Err_deadline: "ctx_Err c t \<noteq> None \<longleftrightarrow> (\<exists>d. ctx_deadline c = Some d \<and> d \<le> t)"
  by (cases c rule: ctx_deadline.cases) auto

lemma select_timer_frame [simp]:
  "trace (snd (select_timer ctx d e)) = trace e"
  "steps (snd (select_timer ctx d e)) = Suc (steps e)"
  "csprng (snd (select_timer ctx d e)) = csprng e"
  "fconv (snd (select_timer ctx d e)) = fconv e"
  by (auto simp: select_timer_def Let_def split: option.splits)

lemma select_timer_now: "now e \<le> now (snd (select_timer ctx d e))"
  by (auto simp: select_timer_def Let_def split: option.splits)

text \<open>When the \<open>ctx.Done()\<close> case is taken the context reports its error from then on.\<close>

lemma select_timer_done:
  assumes "select_timer ctx d e = (True, e')"
  shows "ctx_Err ctx (now e') \<noteq> None"
  unfolding ctx_Err_deadline
  using assms by (auto simp: select_timer_def Let_def split: option.splits if_splits)

lemma select_timer_Background [simp]: "fst (select_timer (Context None) d e) = False"
  by (simp add: select_timer_def Let_def)

text \<open>What a run may do to the environment: time passes, streams are consumed, \<open>n\<close> requests are sent.\<close>

definition sends :: "'tr \<Rightarrow> nat \<Rightarrow> 'tr env \<Rightarrow> 'tr env \<Rightarrow> bool" where
  "sends req n e e' \<longleftrightarrow> now e \<le> now e' \<and> steps e \<le> steps e' \<and> lat e' = lat e \<and> picks e' = picks e
     \<and> rands e' = rands e \<and> csprng e' = csprng e \<and> fconv e' = fconv e
     \<and> trace e' = trace e @ replicate n req"

abbreviation quiet :: "'tr env \<Rightarrow> 'tr env \<Rightarrow> bool" where
  "quiet e e' \<equiv> (\<forall>req. sends req 0 e e')"

lemma sends_refl [simp]: "sends req 0 e e"
  by (simp add: sends_def)

lemma sends_trans: "sends req m e e1 \<Longrightarrow> sends req n e1 e2 \<Longrightarrow> sends req (m + n) e e2"
  by (simp add: sends_def replicate_add)

lemma sends_now: "sends req n e e' \<Longrightarrow> now e \<le> now e'"
  by (simp add: sends_def)

lemma quiet_tick [simp]: "quiet e (tick e)"
  by (simp add: sends_def)

lemma quiet_Int63n: "Int63n n e = (r, e') \<Longrightarrow> quiet e e'"
  by (auto simp: Int63n_def sends_def)

lemma quiet_select_timer: "select_timer ctx d e = (b, e') \<Longrightarrow> quiet e e'"
  by (auto simp: select_timer_def Let_def sends_def split: option.splits if_splits)

end
