(* ===== verification/Payflow_Repository.thy ===== *)
theory Payflow_Repository
  imports Payflow_Runtime
begin

text \<open>
  The persistence interfaces (\<open>internal/repository/interfaces.go\<close>) and what the service relies on
  about them. A repository is a record of operations on an abstract store state \<open>'db\<close>; the locale
  \<open>repositories\<close> states the contract over a view of that state (a \<open>book\<close>: transactions, balances,
  audit events, outbox), \<open>reliable_repositories\<close> adds that enabled operations succeed and
  \<open>transactional_repositories\<close> adds \<open>BeginTx\<close>/\<open>Commit\<close>/\<open>Rollback\<close>. The in-memory repositories
  interpret the first two, the PostgreSQL repositories the first and the third.
\<close>

section \<open>Operations\<close>

text \<open>
  \<open>DBTX\<close> is satisfied by \<open>*sql.DB\<close> and \<open>*sql.Tx\<close>: a repository works on the database or, after
  \<open>WithTx\<close>, inside the open transaction. The first argument of every operation says which. Every
  operation is given the context and the time of the call.
\<close>

datatype DBTX = OnDB | OnTx

type_synonym ('db, 'r) dbop = "int \<Rightarrow> 'db \<Rightarrow> 'r \<times> 'db"

record 'db MerchantRepository =
  MR_GetByID :: "DBTX \<Rightarrow> go_context \<Rightarrow> string \<Rightarrow> ('db, go_error + Merchant) dbop"
  MR_GetByAPIKey :: "DBTX \<Rightarrow> go_context \<Rightarrow> string \<Rightarrow> ('db, go_error + Merchant) dbop"
  MR_UpdateBalance :: "DBTX \<Rightarrow> go_context \<Rightarrow> string \<Rightarrow> int64 \<Rightarrow> ('db, go_error option) dbop"

record 'db TransactionRepository =
  TR_Create :: "DBTX \<Rightarrow> go_context \<Rightarrow> Transaction \<Rightarrow> ('db, go_error option) dbop"
  TR_GetByID :: "DBTX \<Rightarrow> go_context \<Rightarrow> string \<Rightarrow> ('db, go_error + Transaction) dbop"
  TR_GetByIdempotencyKey :: "DBTX \<Rightarrow> go_context \<Rightarrow> string \<Rightarrow> ('db, go_error + Transaction option) dbop"
  TR_UpdateStatus :: "DBTX \<Rightarrow> go_context \<Rightarrow> string \<Rightarrow> TransactionStatus \<Rightarrow> ('db, go_error option) dbop"
  TR_ListByMerchant :: "DBTX \<Rightarrow> go_context \<Rightarrow> string \<Rightarrow> ListParams \<Rightarrow> ('db, go_error + (Transaction list \<times> nat)) dbop"

record 'db EventRepository =
  ER_Create :: "DBTX \<Rightarrow> go_context \<Rightarrow> TransactionEvent \<Rightarrow> ('db, go_error option) dbop"
  ER_ListByTransaction :: "DBTX \<Rightarrow> go_context \<Rightarrow> string \<Rightarrow> ('db, go_error + TransactionEvent list) dbop"

record 'db OutboxRepository =
  OR_Create :: "DBTX \<Rightarrow> go_context \<Rightarrow> OutboxEvent \<Rightarrow> ('db, go_error option) dbop"
  OR_FetchUnpublished :: "DBTX \<Rightarrow> go_context \<Rightarrow> int64 \<Rightarrow> ('db, go_error + OutboxEvent list) dbop"
  OR_MarkPublished :: "DBTX \<Rightarrow> go_context \<Rightarrow> int64 \<Rightarrow> ('db, go_error option) dbop"

text \<open>
  \<open>*sql.DB\<close> as the service uses it. The context of \<open>BeginTx\<close> also governs the commit: a transaction
  whose context is done is rolled back and \<open>Commit\<close> reports it.
\<close>

record 'db sqlDB =
  BeginTx :: "go_context \<Rightarrow> ('db, go_error option) dbop"
  Commit :: "go_context \<Rightarrow> ('db, go_error option) dbop"
  Rollback :: "('db, go_error option) dbop"

section \<open>The book: what a store state means\<close>

text \<open>
  The view of a store leaves out row identifiers and timestamps, and of a JSON document the order
  of its keys. Transactions are kept in insertion order under their identifiers, balances as integers.
\<close>

record book =
  bk_txns :: "(string \<times> Transaction) list"
  bk_bal :: "string \<Rightarrow> int option"
  bk_events :: "TransactionEvent list"
  bk_outbox :: "OutboxEvent list"

definition empty_book :: book where
  "empty_book = \<lparr>bk_txns = [], bk_bal = Map.empty, bk_events = [], bk_outbox = []\<rparr>"

definition core :: "Transaction \<Rightarrow> Transaction" where
  "core t = t\<lparr>tx_Metadata := None, tx_CreatedAt := 0, tx_UpdatedAt := 0\<rparr>"

definition core_event :: "TransactionEvent \<Rightarrow> TransactionEvent" where
  "core_event e = e\<lparr>ev_ID := 0, ev_Payload := map_option normal_json (ev_Payload e), ev_CreatedAt := 0\<rparr>"

definition core_outbox :: "OutboxEvent \<Rightarrow> OutboxEvent" where
  "core_outbox o' =
     o'\<lparr>ob_ID := 0, ob_Payload := map_option normal_json (ob_Payload o'), ob_Published := False, ob_CreatedAt := 0\<rparr>"

definition bk_get :: "book \<Rightarrow> string \<Rightarrow> Transaction option" where
  "bk_get b i = map_of (bk_txns b) i"

definition bk_put :: "Transaction \<Rightarrow> book \<Rightarrow> book" where
  "bk_put t b = b\<lparr>bk_txns := bk_txns b @ [(tx_ID t, core t)]\<rparr>"

definition bk_set :: "string \<Rightarrow> TransactionStatus \<Rightarrow> book \<Rightarrow> book" where
  "bk_set i st b = b\<lparr>bk_txns := map (\<lambda>(k, t). (k, if k = i then t\<lparr>tx_Status := st\<rparr> else t)) (bk_txns b)\<rparr>"

definition bk_can_add :: "string \<Rightarrow> int \<Rightarrow> book \<Rightarrow> bool" where
  "bk_can_add i n b =
     (case bk_bal b i of None \<Rightarrow> False | Some x \<Rightarrow> 0 \<le> x + n \<and> x + n < 2 ^ 63)"

definition bk_add :: "string \<Rightarrow> int \<Rightarrow> book \<Rightarrow> book" where
  "bk_add i n b =
     (case bk_bal b i of None \<Rightarrow> b | Some x \<Rightarrow> b\<lparr>bk_bal := (bk_bal b)(i \<mapsto> x + n)\<rparr>)"

definition bk_log :: "TransactionEvent \<Rightarrow> book \<Rightarrow> book" where
  "bk_log e b = b\<lparr>bk_events := bk_events b @ [core_event e]\<rparr>"

definition bk_emit :: "OutboxEvent \<Rightarrow> book \<Rightarrow> book" where
  "bk_emit o' b = b\<lparr>bk_outbox := bk_outbox b @ [core_outbox o']\<rparr>"

text \<open>A well-formed book: identifiers are the keys and are unique, balances are never negative.\<close>

definition book_ok :: "book \<Rightarrow> bool" where
  "book_ok b \<longleftrightarrow> distinct (map fst (bk_txns b))
     \<and> (\<forall>(k, t) \<in> set (bk_txns b). tx_ID t = k \<and> 0 < sint (tx_AmountCents t))
     \<and> (\<forall>i x. bk_bal b i = Some x \<longrightarrow> 0 \<le> x \<and> x < 2 ^ 63)"

section \<open>The contract\<close>

text \<open>
  The outcome of a state-changing operation on connection \<open>c\<close>: other connections see nothing; on
  \<open>c\<close> the effect \<open>F\<close> happened or nothing did; it happened, and was enabled (\<open>G\<close>), if no error is
  reported. An error does not say which (the acknowledgement of a statement can be lost).
\<close>

definition outcome ::
  "(DBTX \<Rightarrow> 'db \<Rightarrow> book) \<Rightarrow> (DBTX \<Rightarrow> 'db \<Rightarrow> bool) \<Rightarrow> DBTX \<Rightarrow> (book \<Rightarrow> bool) \<Rightarrow> (book \<Rightarrow> book)
    \<Rightarrow> 'db \<Rightarrow> go_error option \<times> 'db \<Rightarrow> bool" where
  "outcome view live c G F d = (\<lambda>(r, d').
     (\<forall>c'. live c' d' = live c' d) \<and> (\<forall>c'. c' \<noteq> c \<longrightarrow> view c' d' = view c' d)
   \<and> (view c d' = view c d \<or> G (view c d) \<and> view c d' = F (view c d))
   \<and> (r = None \<longrightarrow> G (view c d) \<and> view c d' = F (view c d)))"

definition reads :: "(DBTX \<Rightarrow> 'db \<Rightarrow> book) \<Rightarrow> (DBTX \<Rightarrow> 'db \<Rightarrow> bool) \<Rightarrow> 'db \<Rightarrow> 'db \<Rightarrow> bool" where
  "reads view live d d' \<longleftrightarrow> (\<forall>c. live c d' = live c d \<and> view c d' = view c d)"

text \<open>
  \<open>pk\<close> says whether the store enforces the primary key of transactions: PostgreSQL does, the
  in-memory map overwrites, so there the contract of \<open>Create\<close> asks for a fresh identifier.
\<close>

locale repositories =
  fixes MR :: "'db MerchantRepository"
    and TR :: "'db TransactionRepository"
    and ER :: "'db EventRepository"
    and OR :: "'db OutboxRepository"
    and view :: "DBTX \<Rightarrow> 'db \<Rightarrow> book"
    and live :: "DBTX \<Rightarrow> 'db \<Rightarrow> bool"
    and ok :: "'db \<Rightarrow> bool"
    and pk :: bool
  assumes live_OnDB: "live OnDB d"
    and ok_book: "ok d \<Longrightarrow> live c d \<Longrightarrow> book_ok (view c d)"
    and merchant_get: "ok d \<Longrightarrow> live c d \<Longrightarrow> MR_GetByID MR c ctx i t d = (mres, d') \<Longrightarrow>
          ok d' \<and> reads view live d d'
          \<and> (\<forall>m. mres = Inr m \<longrightarrow> m_ID m = i \<and> bk_bal (view c d) i = Some (sint (m_BalanceCents m)))"
    and balance_update: "ok d \<Longrightarrow> live c d \<Longrightarrow>
          ok (snd (MR_UpdateBalance MR c ctx i delta t d))
          \<and> outcome view live c (bk_can_add i (sint delta)) (bk_add i (sint delta)) d
              (MR_UpdateBalance MR c ctx i delta t d)"
    and txn_create: "ok d \<Longrightarrow> live c d \<Longrightarrow> pk \<or> bk_get (view c d) (tx_ID x) = None \<Longrightarrow>
          0 < sint (tx_AmountCents x) \<Longrightarrow>
          ok (snd (TR_Create TR c ctx x t d))
          \<and> outcome view live c (\<lambda>b. bk_get b (tx_ID x) = None) (bk_put x) d (TR_Create TR c ctx x t d)"
    and txn_get: "ok d \<Longrightarrow> live c d \<Longrightarrow> TR_GetByID TR c ctx i t d = (tres, d') \<Longrightarrow>
          ok d' \<and> reads view live d d'
          \<and> (\<forall>x. tres = Inr x \<longrightarrow> tx_ID x = i \<and> bk_get (view c d) i = Some (core x))"
    and txn_by_key: "ok d \<Longrightarrow> live c d \<Longrightarrow> TR_GetByIdempotencyKey TR c ctx k t d = (kres, d') \<Longrightarrow>
          ok d' \<and> reads view live d d'
          \<and> (\<forall>x. kres = Inr (Some x) \<longrightarrow>
               tx_IdempotencyKey x = k \<and> bk_get (view c d) (tx_ID x) = Some (core x))"
    and txn_status: "ok d \<Longrightarrow> live c d \<Longrightarrow>
          ok (snd (TR_UpdateStatus TR c ctx i st t d))
          \<and> outcome view live c (\<lambda>b. bk_get b i \<noteq> None) (bk_set i st) d (TR_UpdateStatus TR c ctx i st t d)"
    and event_create: "ok d \<Longrightarrow> live c d \<Longrightarrow>
          ok (snd (ER_Create ER c ctx e t d))
          \<and> outcome view live c (\<lambda>_. True) (bk_log e) d (ER_Create ER c ctx e t d)"
    and outbox_create: "ok d \<Longrightarrow> live c d \<Longrightarrow>
          ok (snd (OR_Create OR c ctx o' t d))
          \<and> outcome view live c (\<lambda>_. True) (bk_emit o') d (OR_Create OR c ctx o' t d)"

text \<open>Repositories whose operations fail only when they are not enabled, and then do nothing.\<close>

locale reliable_repositories = repositories +
  assumes balance_reliable: "ok d \<Longrightarrow> live c d \<Longrightarrow> MR_UpdateBalance MR c ctx i delta t d = (r, d') \<Longrightarrow>
          r = None \<longleftrightarrow> bk_can_add i (sint delta) (view c d)"
    and balance_err_frame: "ok d \<Longrightarrow> live c d \<Longrightarrow> MR_UpdateBalance MR c ctx i delta t d = (Some err, d') \<Longrightarrow>
          view c d' = view c d"
    and create_reliable: "fst (TR_Create TR c ctx x t d) = None"
    and status_reliable: "ok d \<Longrightarrow> live c d \<Longrightarrow> TR_UpdateStatus TR c ctx i st t d = (r, d') \<Longrightarrow>
          r = None \<longleftrightarrow> bk_get (view c d) i \<noteq> None"
    and event_reliable: "fst (ER_Create ER c ctx e t d) = None"
    and outbox_reliable: "fst (OR_Create OR c ctx o' t d) = None"

locale transactional_repositories = repositories +
  fixes D :: "'db sqlDB"
  assumes begin_ok: "ok d \<Longrightarrow> BeginTx D ctx t d = (r, d') \<Longrightarrow>
          ok d' \<and> view OnDB d' = view OnDB d
          \<and> (r = None \<longrightarrow> live OnTx d' \<and> view OnTx d' = view OnDB d)"
    and commit_ok: "ok d \<Longrightarrow> live OnTx d \<Longrightarrow> Commit D ctx t d = (r, d') \<Longrightarrow>
          ok d' \<and> (view OnDB d' = view OnDB d \<or> view OnDB d' = view OnTx d)
          \<and> (r = None \<longrightarrow> view OnDB d' = view OnTx d)"
    and rollback_ok: "ok d \<Longrightarrow> Rollback D t d = (r, d') \<Longrightarrow> ok d' \<and> view OnDB d' = view OnDB d"

section \<open>Facts on books\<close>

lemma DBTX_all: "(\<forall>c. P c) \<longleftrightarrow> P OnDB \<and> P OnTx"
  by (metis DBTX.exhaust)

lemma core_simps [simp]:
  "tx_ID (core t) = tx_ID t" "tx_MerchantID (core t) = tx_MerchantID t"
  "tx_AmountCents (core t) = tx_AmountCents t" "tx_Currency (core t) = tx_Currency t"
  "tx_Status (core t) = tx_Status t" "tx_IdempotencyKey (core t) = tx_IdempotencyKey t"
  "tx_Description (core t) = tx_Description t" "core (core t) = core t"
  "core (t\<lparr>tx_Status := s\<rparr>) = (core t)\<lparr>tx_Status := s\<rparr>"
  by (simp_all add: core_def)

lemma bk_frame [simp]:
  "bk_bal (bk_put t b) = bk_bal b" "bk_bal (bk_set i st b) = bk_bal b"
  "bk_bal (bk_log e b) = bk_bal b" "bk_bal (bk_emit x b) = bk_bal b"
  "bk_txns (bk_add i n b) = bk_txns b" "bk_txns (bk_log e b) = bk_txns b"
  "bk_txns (bk_emit x b) = bk_txns b"
  "bk_events (bk_put t b) = bk_events b" "bk_events (bk_set i st b) = bk_events b"
  "bk_events (bk_add i n b) = bk_events b" "bk_events (bk_emit x b) = bk_events b"
  "bk_outbox (bk_put t b) = bk_outbox b" "bk_outbox (bk_set i st b) = bk_outbox b"
  "bk_outbox (bk_add i n b) = bk_outbox b" "bk_outbox (bk_log e b) = bk_outbox b"
  by (auto simp: bk_put_def bk_set_def bk_add_def bk_log_def bk_emit_def split: option.splits)

lemma bk_get_frame [simp]:
  "bk_get (bk_add i n b) j = bk_get b j" "bk_get (bk_log e b) j = bk_get b j"
  "bk_get (bk_emit x b) j = bk_get b j"
  by (simp_all add: bk_get_def)

lemma map_of_map_if_key:
  "map_of (map (\<lambda>(k, v). (k, if k = i then f v else v)) al) j
     = (if j = i then map_option f (map_of al j) else map_of al j)"
  by (induction al) auto

lemma bk_get_set:
  "bk_get (bk_set i st b) j =
     (if j = i then map_option (\<lambda>t. t\<lparr>tx_Status := st\<rparr>) (bk_get b j) else bk_get b j)"
  by (simp add: bk_get_def bk_set_def map_of_map_if_key)

lemma bk_get_put:
  "bk_get b (tx_ID t) = None \<Longrightarrow>
   bk_get (bk_put t b) j = (if j = tx_ID t then Some (core t) else bk_get b j)"
  by (auto simp: bk_get_def bk_put_def map_add_def split: option.splits)

lemma bk_set_set [simp]: "bk_set i st (bk_set i st' b) = bk_set i st b"
  by (simp add: bk_set_def case_prod_beta comp_def)

lemma bk_set_same: "book_ok b \<Longrightarrow> bk_get b i = Some t \<Longrightarrow> bk_set i (tx_Status t) b = b"
proof -
  assume ok: "book_ok b" and t: "bk_get b i = Some t"
  have "map (\<lambda>(k, x). (k, if k = i then x\<lparr>tx_Status := tx_Status t\<rparr> else x)) (bk_txns b) = bk_txns b"
  proof (rule map_idI)
    fix p assume p: "p \<in> set (bk_txns b)"
    obtain k x where kx: "p = (k, x)" by (cases p)
    have "x = t" if "k = i"
      using ok t p kx that by (auto simp: book_ok_def bk_get_def dest!: map_of_SomeD intro: eq_key_imp_eq_value)
    then show "(\<lambda>(k, x). (k, if k = i then x\<lparr>tx_Status := tx_Status t\<rparr> else x)) p = p"
      by (simp add: kx)
  qed
  then show ?thesis by (simp add: bk_set_def)
qed

lemma bk_bal_add:
  "bk_can_add i n b \<Longrightarrow> bk_bal (bk_add i n b) j = (if j = i then map_option (\<lambda>x. x + n) (bk_bal b j) else bk_bal b j)"
  by (auto simp: bk_can_add_def bk_add_def split: option.splits)

lemma bk_map_fst_set [simp]: "map fst (bk_txns (bk_set i st b)) = map fst (bk_txns b)"
  by (simp add: bk_set_def case_prod_beta comp_def)

lemma book_ok_put:
  "book_ok b \<Longrightarrow> bk_get b (tx_ID t) = None \<Longrightarrow> 0 < sint (tx_AmountCents t) \<Longrightarrow> book_ok (bk_put t b)"
  by (auto simp: book_ok_def bk_put_def bk_get_def map_of_eq_None_iff)

lemma book_ok_set: "book_ok b \<Longrightarrow> book_ok (bk_set i st b)"
  unfolding book_ok_def bk_map_fst_set by (auto simp: bk_set_def)

lemma book_ok_add: "book_ok b \<Longrightarrow> bk_can_add i n b \<Longrightarrow> book_ok (bk_add i n b)"
  by (auto simp: book_ok_def bk_can_add_def bk_add_def split: option.splits if_splits)

lemma book_ok_log [simp]: "book_ok (bk_log e b) = book_ok b" "book_ok (bk_emit x b) = book_ok b"
  by (simp_all add: book_ok_def)

lemma bk_get_ID: "book_ok b \<Longrightarrow> bk_get b i = Some t \<Longrightarrow> tx_ID t = i \<and> 0 < sint (tx_AmountCents t)"
  by (auto simp: book_ok_def bk_get_def dest!: map_of_SomeD)

lemma outcomeI:
  assumes "\<And>c'. live c' d' = live c' d" and "\<And>c'. c' \<noteq> c \<Longrightarrow> view c' d' = view c' d"
    and "view c d' = view c d \<or> G (view c d) \<and> view c d' = F (view c d)"
    and "r = None \<Longrightarrow> G (view c d) \<and> view c d' = F (view c d)"
  shows "outcome view live c G F d (r, d')"
  using assms by (auto simp: outcome_def)

end
