(* ===== verification/Payflow_Resilience.thy ===== *)
theory Payflow_Resilience
  imports Payflow_Runtime
begin

text \<open>
  The circuit breaker and the retry loop (\<open>internal/service/resilience.go\<close>). Every method of the
  breaker holds its mutex, so \<open>beforeRequest\<close>, \<open>afterRequest\<close> and \<open>State\<close> are single steps that are
  given the time; \<open>Execute\<close> is the sequence of two of them around the protected call, and
  \<open>breaker_step\<close> is what any number of goroutines calling \<open>Execute\<close> and \<open>State\<close> can do, one mutex
  section at a time. \<open>Retry\<close> is a recursion on the attempt counter.
\<close>

section \<open>Circuit breaker\<close>

text \<open>\<open>type CircuitState string\<close>: the three constants, and any other string.\<close>

datatype CircuitState = CircuitClosed | CircuitOpen | CircuitHalfOpen | CircuitOther string

record CircuitBreaker =
  cb_state :: CircuitState
  cb_failures :: int
  cb_threshold :: int
  cb_resetTimeout :: int
  cb_openedAt :: int
  cb_halfOpenRunning :: bool

definition NewCircuitBreaker :: "int \<Rightarrow> int \<Rightarrow> CircuitBreaker" where
  "NewCircuitBreaker threshold resetTimeout =
     \<lparr>cb_state = CircuitClosed, cb_failures = 0,
      cb_threshold = (if threshold \<le> 0 then 3 else threshold),
      cb_resetTimeout = (if resetTimeout \<le> 0 then 30 * second else resetTimeout),
      cb_openedAt = 0, cb_halfOpenRunning = False\<rparr>"

definition State :: "int \<Rightarrow> CircuitBreaker \<Rightarrow> CircuitState \<times> CircuitBreaker" where
  "State t cb =
     (let cb = (if cb_state cb = CircuitOpen \<and> t - cb_openedAt cb \<ge> cb_resetTimeout cb
                then cb\<lparr>cb_state := CircuitHalfOpen\<rparr> else cb)
      in (cb_state cb, cb))"

definition beforeRequest :: "int \<Rightarrow> CircuitBreaker \<Rightarrow> go_error option \<times> CircuitBreaker" where
  "beforeRequest t cb =
     (case cb_state cb of
        CircuitClosed \<Rightarrow> (None, cb)
      | CircuitOpen \<Rightarrow>
          if t - cb_openedAt cb < cb_resetTimeout cb then (Some (Sentinel ErrCircuitOpen), cb)
          else (None, cb\<lparr>cb_state := CircuitHalfOpen, cb_failures := 0, cb_halfOpenRunning := True\<rparr>)
      | CircuitHalfOpen \<Rightarrow>
          if cb_halfOpenRunning cb then (Some (Sentinel ErrCircuitOpen), cb)
          else (None, cb\<lparr>cb_halfOpenRunning := True\<rparr>)
      | CircuitOther _ \<Rightarrow> (None, cb))"

definition afterRequest :: "int \<Rightarrow> go_error option \<Rightarrow> CircuitBreaker \<Rightarrow> CircuitBreaker" where
  "afterRequest t err cb =
     (case cb_state cb of
        CircuitClosed \<Rightarrow>
          if err = None then cb\<lparr>cb_failures := 0\<rparr>
          else (let cb = cb\<lparr>cb_failures := cb_failures cb + 1\<rparr>
                in if cb_failures cb \<ge> cb_threshold cb
                   then cb\<lparr>cb_state := CircuitOpen, cb_openedAt := t\<rparr> else cb)
      | CircuitHalfOpen \<Rightarrow>
          (let cb = cb\<lparr>cb_halfOpenRunning := False\<rparr>
           in if err = None then cb\<lparr>cb_state := CircuitClosed, cb_failures := 0\<rparr>
              else cb\<lparr>cb_state := CircuitOpen, cb_openedAt := t\<rparr>)
      | _ \<Rightarrow> cb)"

text \<open>\<open>Execute\<close> of a goroutine that is alone: the breaker does not change while \<open>fn\<close> runs.\<close>

definition Execute ::
  "('tr env \<Rightarrow> go_error option \<times> 'tr env) \<Rightarrow> CircuitBreaker \<Rightarrow> 'tr env
    \<Rightarrow> go_error option \<times> CircuitBreaker \<times> 'tr env" where
  "Execute fn cb e =
     (case beforeRequest (now e) cb of
        (Some err, cb1) \<Rightarrow> (Some err, cb1, e)
      | (None, cb1) \<Rightarrow>
          (case fn e of (err, e1) \<Rightarrow> (err, afterRequest (now e1) err cb1, e1)))"

section \<open>Concurrent use of the breaker\<close>

text \<open>
  The requests between their \<open>beforeRequest\<close> and their \<open>afterRequest\<close>, each with the state that
  admitted it: \<open>Probe\<close> for a half-open breaker.
\<close>

datatype request_kind = Regular | Probe

record breaker_sys =
  sys_cb :: CircuitBreaker
  sys_now :: int
  sys_running :: "request_kind list"

inductive breaker_step :: "breaker_sys \<Rightarrow> breaker_sys \<Rightarrow> bool" where
  advance: "0 \<le> dt \<Longrightarrow> breaker_step s (s\<lparr>sys_now := sys_now s + dt\<rparr>)"
| observe: "State (sys_now s) (sys_cb s) = (st, cb) \<Longrightarrow> breaker_step s (s\<lparr>sys_cb := cb\<rparr>)"
| reject: "beforeRequest (sys_now s) (sys_cb s) = (Some err, cb) \<Longrightarrow> breaker_step s (s\<lparr>sys_cb := cb\<rparr>)"
| admit: "beforeRequest (sys_now s) (sys_cb s) = (None, cb) \<Longrightarrow>
    breaker_step s (s\<lparr>sys_cb := cb,
      sys_running := sys_running s @ [if cb_state cb = CircuitHalfOpen then Probe else Regular]\<rparr>)"
| finish: "sys_running s = xs @ k # ys \<Longrightarrow>
    breaker_step s (s\<lparr>sys_cb := afterRequest (sys_now s) err (sys_cb s), sys_running := xs @ ys\<rparr>)"

definition breaker_init :: "int \<Rightarrow> int \<Rightarrow> int \<Rightarrow> breaker_sys" where
  "breaker_init threshold resetTimeout t =
     \<lparr>sys_cb = NewCircuitBreaker threshold resetTimeout, sys_now = t, sys_running = []\<rparr>"

section \<open>Retry\<close>

type_synonym 'tr action = "'tr env \<Rightarrow> go_error option \<times> 'tr env"

text \<open>
  \<open>Rand\<close> is the method \<open>Int63n\<close> of the generator; the default generator draws from the
  environment's stream.
\<close>

record 'tr RetryConfig =
  MaxAttempts :: int
  BaseDelay :: int
  MaxDelay :: int
  Jitter :: int
  ShouldRetry :: "(go_error \<Rightarrow> bool) option"
  Sleep :: "(go_context \<Rightarrow> int \<Rightarrow> 'tr action) option"
  Rand :: "(int \<Rightarrow> 'tr env \<Rightarrow> int \<times> 'tr env) option"

definition default_sleep :: "go_context \<Rightarrow> int \<Rightarrow> 'tr action" where
  "default_sleep ctx d e =
     (case select_timer ctx d e of
        (True, e1) \<Rightarrow> (ctx_Err ctx (now e1), e1)
      | (False, e1) \<Rightarrow> (None, e1))"

definition retryDelay ::
  "int \<Rightarrow> int \<Rightarrow> int \<Rightarrow> int \<Rightarrow> (int \<Rightarrow> 'tr env \<Rightarrow> int \<times> 'tr env) option \<Rightarrow> 'tr env \<Rightarrow> int \<times> 'tr env" where
  "retryDelay baseDelay maxDelay jitter attempt random e =
     (let delay = int64_of_float (int (float64_nat (nat baseDelay)) * 2 ^ nat (attempt - 1)) e;
          delay = (if delay > maxDelay then maxDelay else delay)
      in if jitter \<le> 0 then (delay, e)
         else case random of
                None \<Rightarrow> (delay, e)
              | Some gen \<Rightarrow> (case gen jitter e of (j, e1) \<Rightarrow> (wrap64 (delay + j), e1)))"

function retry_loop ::
  "int \<Rightarrow> int \<Rightarrow> int \<Rightarrow> 'tr RetryConfig \<Rightarrow> (go_context \<Rightarrow> int \<Rightarrow> 'tr action) \<Rightarrow> (go_error \<Rightarrow> bool)
    \<Rightarrow> (int \<Rightarrow> 'tr env \<Rightarrow> int \<times> 'tr env) \<Rightarrow> go_context \<Rightarrow> (go_context \<Rightarrow> 'tr action)
    \<Rightarrow> int \<Rightarrow> go_error option \<Rightarrow> 'tr action" where
  "retry_loop maxAttempts baseDelay maxDelay cfg sleep shouldRetry random ctx fn attempt lastErr e =
     (if attempt \<le> maxAttempts then
        (case ctx_Err ctx (now e) of
           Some err \<Rightarrow> (Some err, e)
         | None \<Rightarrow>
             (case fn ctx e of
                (None, e1) \<Rightarrow> (None, e1)
              | (Some err, e1) \<Rightarrow>
                  if attempt = maxAttempts \<or> \<not> shouldRetry err then (Some err, e1)
                  else (case retryDelay baseDelay maxDelay (Jitter cfg) attempt (Some random) e1 of
                          (delay, e2) \<Rightarrow>
                            (case sleep ctx delay e2 of
                               (Some err', e3) \<Rightarrow> (Some err', e3)
                             | (None, e3) \<Rightarrow>
                                 retry_loop maxAttempts baseDelay maxDelay cfg sleep shouldRetry random ctx fn
                                   (attempt + 1) (Some err) e3))))
      else (lastErr, e))"
  by pat_completeness auto
termination
  by (relation "measure (\<lambda>(maxAttempts, _, _, _, _, _, _, _, _, attempt, _, _). nat (maxAttempts + 1 - attempt))") auto

declare retry_loop.simps [simp del]

definition Retry :: "go_context \<Rightarrow> 'tr RetryConfig \<Rightarrow> (go_context \<Rightarrow> 'tr action) \<Rightarrow> 'tr action" where
  "Retry ctx cfg fn e =
     (let maxAttempts = (if MaxAttempts cfg \<le> 0 then 1 else MaxAttempts cfg);
          baseDelay = (if BaseDelay cfg \<le> 0 then 50 * millisecond else BaseDelay cfg);
          maxDelay = (if MaxDelay cfg \<le> 0 then second else MaxDelay cfg);
          sleep = (case Sleep cfg of None \<Rightarrow> default_sleep | Some f \<Rightarrow> f);
          shouldRetry = (case ShouldRetry cfg of None \<Rightarrow> (\<lambda>err. True) | Some f \<Rightarrow> f);
          random = (case Rand cfg of None \<Rightarrow> Int63n | Some g \<Rightarrow> g)
      in retry_loop maxAttempts baseDelay maxDelay cfg sleep shouldRetry random ctx fn 1 None e)"

section \<open>Facts on the breaker\<close>

definition breaker_ok :: "CircuitBreaker \<Rightarrow> bool" where
  "breaker_ok cb \<longleftrightarrow> 0 < cb_threshold cb \<and> 0 < cb_resetTimeout cb
     \<and> cb_state cb \<in> {CircuitClosed, CircuitOpen, CircuitHalfOpen}
     \<and> 0 \<le> cb_failures cb \<and> cb_failures cb \<le> cb_threshold cb
     \<and> (cb_state cb = CircuitClosed \<longrightarrow> cb_failures cb < cb_threshold cb)
     \<and> (cb_halfOpenRunning cb \<longrightarrow> cb_state cb = CircuitHalfOpen)"

lemmas breaker_defs = State_def beforeRequest_def afterRequest_def Let_def

lemma breaker_ok_New: "breaker_ok (NewCircuitBreaker n d)"
  by (simp add: breaker_ok_def NewCircuitBreaker_def second_def)

lemma breaker_ok_State: "breaker_ok cb \<Longrightarrow> State t cb = (st, cb') \<Longrightarrow> breaker_ok cb'"
  by (auto simp: breaker_ok_def State_def Let_def split: if_splits)

lemma breaker_ok_before: "breaker_ok cb \<Longrightarrow> beforeRequest t cb = (r, cb') \<Longrightarrow> breaker_ok cb'"
  by (auto simp: breaker_ok_def beforeRequest_def split: CircuitState.splits if_splits)

lemma breaker_ok_after: "breaker_ok cb \<Longrightarrow> breaker_ok (afterRequest t err cb)"
  by (auto simp: breaker_ok_def afterRequest_def Let_def split: CircuitState.splits)

lemma beforeRequest_reject:
  "beforeRequest t cb = (Some err, cb') \<Longrightarrow> err = Sentinel ErrCircuitOpen \<and> cb' = cb
     \<and> (cb_state cb = CircuitOpen \<and> t - cb_openedAt cb < cb_resetTimeout cb
        \<or> cb_state cb = CircuitHalfOpen \<and> cb_halfOpenRunning cb)"
  by (auto simp: beforeRequest_def split: CircuitState.splits if_splits)

lemma beforeRequest_probe:
  "beforeRequest t cb = (None, cb') \<Longrightarrow> cb_state cb' = CircuitHalfOpen \<Longrightarrow> cb_halfOpenRunning cb'"
  by (auto simp: beforeRequest_def split: CircuitState.splits if_splits)

lemma beforeRequest_regular:
  "beforeRequest t cb = (None, cb') \<Longrightarrow> cb_state cb' \<noteq> CircuitHalfOpen \<Longrightarrow> cb' = cb \<and> cb_state cb \<noteq> CircuitOpen"
  by (auto simp: beforeRequest_def split: CircuitState.splits if_splits)

lemma State_running: "State t cb = (st, cb') \<Longrightarrow> cb_halfOpenRunning cb' = cb_halfOpenRunning cb"
  by (auto simp: State_def Let_def split: if_splits)

lemma after_running: "breaker_ok cb \<Longrightarrow> \<not> cb_halfOpenRunning (afterRequest t err cb)"
  by (auto simp: breaker_ok_def afterRequest_def Let_def split: CircuitState.splits)

definition breaker_inv :: "breaker_sys \<Rightarrow> bool" where
  "breaker_inv s \<longleftrightarrow> breaker_ok (sys_cb s) \<and> (cb_halfOpenRunning (sys_cb s) \<longrightarrow> Probe \<in> set (sys_running s))"

lemma breaker_inv_step: "breaker_step s s' \<Longrightarrow> breaker_inv s \<Longrightarrow> breaker_inv s'"
proof (induction rule: breaker_step.induct)
  case (observe s st cb)
  then show ?case by (auto simp: breaker_inv_def State_running dest: breaker_ok_State)
next
  case (reject s err cb)
  then show ?case by (auto simp: breaker_inv_def dest!: beforeRequest_reject)
next
  case (admit s cb)
  then show ?case
    using beforeRequest_regular [of "sys_now s" "sys_cb s" cb] breaker_ok_before [of "sys_cb s" "sys_now s" None cb]
    by (auto simp: breaker_inv_def)
next
  case (finish s xs k ys err)
  then show ?case by (auto simp: breaker_inv_def breaker_ok_after after_running)
qed (auto simp: breaker_inv_def)

lemma breaker_inv_reachable:
  assumes "breaker_step\<^sup>*\<^sup>* (breaker_init n d t) s"
  shows "breaker_inv s"
  using assms
proof (induction rule: rtranclp_induct)
  case base
  have "\<not> cb_halfOpenRunning (NewCircuitBreaker n d)" by (simp add: NewCircuitBreaker_def)
  then show ?case by (simp add: breaker_inv_def breaker_init_def breaker_ok_New)
next
  case (step s s')
  then show ?case by (blast intro: breaker_inv_step)
qed

text \<open>A goroutine that runs \<open>Execute\<close> alone performs these steps.\<close>

lemma Execute_steps:
  assumes "Execute fn cb e = (err, cb', e')" and "\<And>e r e1. fn e = (r, e1) \<Longrightarrow> now e \<le> now e1"
  shows "breaker_step\<^sup>*\<^sup>* \<lparr>sys_cb = cb, sys_now = now e, sys_running = ks\<rparr>
                        \<lparr>sys_cb = cb', sys_now = now e', sys_running = ks\<rparr>"
proof (cases "beforeRequest (now e) cb")
  case (Pair r cb1)
  let ?s = "\<lparr>sys_cb = cb, sys_now = now e, sys_running = ks\<rparr>"
  show ?thesis
  proof (cases r)
    case (Some x)
    have "breaker_step ?s (?s\<lparr>sys_cb := cb1\<rparr>)" using Pair Some by (intro breaker_step.reject [of _ x]) simp
    then show ?thesis using assms(1) Pair Some by (auto simp: Execute_def)
  next
    case None
    obtain r1 e1 where fn: "fn e = (r1, e1)" by (cases "fn e")
    let ?k = "if cb_state cb1 = CircuitHalfOpen then Probe else Regular"
    let ?s1 = "\<lparr>sys_cb = cb1, sys_now = now e, sys_running = ks @ [?k]\<rparr>"
    let ?s2 = "\<lparr>sys_cb = cb1, sys_now = now e1, sys_running = ks @ [?k]\<rparr>"
    have "breaker_step ?s ?s1" using breaker_step.admit [of ?s cb1] Pair None by simp
    moreover have "breaker_step ?s1 ?s2"
      using breaker_step.advance [of "now e1 - now e" ?s1] assms(2) [OF fn] by simp
    moreover have "breaker_step ?s2 \<lparr>sys_cb = afterRequest (now e1) r1 cb1, sys_now = now e1, sys_running = ks\<rparr>"
      using breaker_step.finish [of ?s2 ks ?k "[]" r1] by simp
    ultimately have "breaker_step\<^sup>*\<^sup>* ?s \<lparr>sys_cb = afterRequest (now e1) r1 cb1, sys_now = now e1, sys_running = ks\<rparr>"
      by (meson converse_rtranclp_into_rtranclp rtranclp.rtrancl_refl)
    then show ?thesis using assms(1) Pair None fn by (auto simp: Execute_def)
  qed
qed

text \<open>
  From an open breaker with no request under way, as long as it has not closed again, the only
  request that can be under way is one probe.
\<close>

definition probing :: "breaker_sys \<Rightarrow> bool" where
  "probing s \<longleftrightarrow> breaker_ok (sys_cb s) \<and> cb_state (sys_cb s) \<noteq> CircuitClosed
     \<and> (sys_running s = [] \<and> \<not> cb_halfOpenRunning (sys_cb s)
        \<or> sys_running s = [Probe] \<and> cb_halfOpenRunning (sys_cb s))"

lemma State_closed: "State t cb = (st, cb') \<Longrightarrow> cb_state cb' = CircuitClosed \<longleftrightarrow> cb_state cb = CircuitClosed"
  by (auto simp: State_def Let_def split: if_splits)

lemma probing_step:
  assumes "breaker_step s s'" and "probing s" and "cb_state (sys_cb s') \<noteq> CircuitClosed"
  shows "probing s'"
  using assms
proof (induction rule: breaker_step.induct)
  case (observe s st cb)
  then show ?case by (auto simp: probing_def State_running State_closed dest: breaker_ok_State)
next
  case (reject s err cb)
  then show ?case by (auto simp: probing_def dest!: beforeRequest_reject)
next
  case (admit s cb)
  have "cb_state cb = CircuitHalfOpen \<and> cb_halfOpenRunning cb \<and> \<not> cb_halfOpenRunning (sys_cb s)"
    using admit by (auto simp: probing_def breaker_ok_def beforeRequest_def split: CircuitState.splits if_splits)
  then show ?case using admit breaker_ok_before [of "sys_cb s" "sys_now s" None cb] by (auto simp: probing_def)
next
  case (finish s xs k ys err)
  then show ?case by (auto simp: probing_def breaker_ok_after after_running append_eq_Cons_conv)
qed (auto simp: probing_def)

lemma probing_path:
  assumes "(\<lambda>s s'. breaker_step s s' \<and> cb_state (sys_cb s') \<noteq> CircuitClosed)\<^sup>*\<^sup>* s s'" and "probing s"
  shows "probing s'"
  using assms by (induction rule: rtranclp_induct) (blast intro: probing_step)+

text \<open>A run of calls on a closed breaker, one after the other.\<close>

fun calls :: "(int \<times> go_error option) list \<Rightarrow> CircuitBreaker \<Rightarrow> CircuitBreaker" where
  "calls [] cb = cb"
| "calls ((t, err) # rs) cb =
     (case beforeRequest t cb of
        (Some _, cb1) \<Rightarrow> calls rs cb1
      | (None, cb1) \<Rightarrow> calls rs (afterRequest t err cb1))"

lemma calls_failing:
  assumes "cb_state cb = CircuitClosed" and "cb_failures cb + int (length rs) < cb_threshold cb"
    and "\<forall>(t, err) \<in> set rs. err \<noteq> None"
  shows "calls rs cb = cb\<lparr>cb_failures := cb_failures cb + int (length rs)\<rparr>"
  using assms
proof (induction rs arbitrary: cb)
  case Nil
  then show ?case by simp
next
  case (Cons r rs)
  obtain t err where r: "r = (t, err)" by (cases r)
  have "afterRequest t err cb = cb\<lparr>cb_failures := cb_failures cb + 1\<rparr>"
    using Cons.prems r by (auto simp: afterRequest_def Let_def)
  then have "calls (r # rs) cb = calls rs (cb\<lparr>cb_failures := cb_failures cb + 1\<rparr>)"
    using Cons.prems r by (simp add: beforeRequest_def)
  also have "\<dots> = cb\<lparr>cb_failures := cb_failures cb + int (length (r # rs))\<rparr>"
    using Cons.prems by (subst Cons.IH) (auto simp: algebra_simps)
  finally show ?case .
qed

lemma calls_append: "calls (rs @ rs') cb = calls rs' (calls rs cb)"
  by (induction rs cb rule: calls.induct) (auto split: prod.splits option.splits)

section \<open>Facts on retry\<close>

text \<open>A delay that does not leave the range of \<open>int64\<close> is the doubled base, capped.\<close>

lemma retryDelay_bounds:
  assumes "0 < baseDelay" and "1 \<le> attempt" and "0 < maxDelay" and "0 \<le> jitter" and "maxDelay + jitter < 2 ^ 63"
    and range: "int (float64_nat (nat baseDelay)) * 2 ^ nat (attempt - 1) < 2 ^ 63"
    and gen: "\<And>n e j e1. 0 < n \<Longrightarrow> gen n e = (j, e1) \<Longrightarrow> 0 \<le> j \<and> j < n"
    and "retryDelay baseDelay maxDelay jitter attempt (Some gen) e = (delay, e')"
  defines "b \<equiv> min maxDelay (int (float64_nat (nat baseDelay)) * 2 ^ nat (attempt - 1))"
  shows "b \<le> delay \<and> delay \<le> b + jitter"
proof (cases "jitter = 0")
  case True
  with assms show ?thesis by (auto simp: retryDelay_def Let_def int64_of_float_def split: if_splits)
next
  case False
  obtain j e1 where j: "gen jitter e = (j, e1)" by (cases "gen jitter e")
  have "0 \<le> j \<and> j < jitter" using gen [OF _ j] False assms(4) by simp
  moreover have "0 \<le> b" and "b \<le> maxDelay" using assms(3) by (simp_all add: b_def)
  ultimately have "wrap64 (b + j) = b + j" using assms(5) by (intro wrap64_id) (simp add: in_int64_def)
  moreover have "delay = wrap64 (b + j)"
    using assms False j by (auto simp: retryDelay_def Let_def int64_of_float_def b_def min_def split: if_splits)
  ultimately show ?thesis using \<open>0 \<le> j \<and> j < jitter\<close> by simp
qed

lemma default_sleep_error: "default_sleep ctx d e = (Some err, e') \<Longrightarrow> ctx_Err ctx (now e') = Some err"
  by (cases "select_timer ctx d e") (auto simp: default_sleep_def split: bool.splits)

lemma default_sleep_quiet: "default_sleep ctx d e = (r, e') \<Longrightarrow> sends req 0 e e'"
  using quiet_select_timer [of ctx d e]
  by (cases "select_timer ctx d e") (auto simp: default_sleep_def split: bool.splits)

lemma default_sleep_trace: "default_sleep ctx d e = (r, e') \<Longrightarrow> trace e' = trace e"
  using default_sleep_quiet [of ctx d e r e'] by (simp add: sends_def)

text \<open>One iteration: the loop ends, in one of four ways, or goes on with the next attempt.\<close>

lemma retry_loop_step:
  assumes "retry_loop m b x cfg sleep should random ctx fn attempt lastErr e = (r, e')"
  obtains (exhausted) "m < attempt" "r = lastErr" "e' = e"
  | (cancelled) err where "attempt \<le> m" "ctx_Err ctx (now e) = Some err" "r = Some err" "e' = e"
  | (last) "attempt \<le> m" "fn ctx e = (r, e')" "ctx_Err ctx (now e) = None"
      "\<forall>err. r = Some err \<longrightarrow> attempt = m \<or> \<not> should err"
  | (interrupted) err e1 d e2 where "attempt < m" "fn ctx e = (Some err, e1)"
      "retryDelay b x (Jitter cfg) attempt (Some random) e1 = (d, e2)" "sleep ctx d e2 = (r, e')" "r \<noteq> None"
      "ctx_Err ctx (now e) = None" "should err"
  | (again) err e1 d e2 e3 where "attempt < m" "fn ctx e = (Some err, e1)"
      "retryDelay b x (Jitter cfg) attempt (Some random) e1 = (d, e2)" "sleep ctx d e2 = (None, e3)"
      "retry_loop m b x cfg sleep should random ctx fn (attempt + 1) (Some err) e3 = (r, e')"
      "ctx_Err ctx (now e) = None" "should err"
  using assms unfolding retry_loop.simps [of m b x cfg sleep should random ctx fn attempt lastErr e]
  by (cases "ctx_Err ctx (now e)") (auto split: if_splits option.splits prod.splits)

lemma retry_loop_success:
  assumes "retry_loop m b x cfg sleep should random ctx fn attempt lastErr e = (None, e')"
    and "lastErr \<noteq> None \<or> attempt \<le> m"
  shows "\<exists>e0. fn ctx e0 = (None, e')"
  using assms
proof (induction "nat (m + 1 - attempt)" arbitrary: attempt lastErr e rule: less_induct)
  case less
  from less(2) show ?case
  proof (cases rule: retry_loop_step)
    case (again err e1 d e2 e3)
    then show ?thesis using less(1) [of "attempt + 1" "Some err" e3] by simp
  qed (use less(3) in auto)
qed

lemma retryDelay_quiet:
  assumes "retryDelay b x j attempt (Some random) e = (d, e')"
    and "\<And>k e r e1. random k e = (r, e1) \<Longrightarrow> sends req 0 e e1"
  shows "sends req 0 e e'"
  using assms by (auto simp: retryDelay_def Let_def split: if_splits prod.splits)

text \<open>The loop calls \<open>fn\<close> at most once per attempt left.\<close>

lemma retry_loop_sends:
  assumes "retry_loop m b x cfg sleep should random ctx fn attempt lastErr e = (r, e')"
    and fn: "\<And>e r e1. fn ctx e = (r, e1) \<Longrightarrow> \<exists>n \<le> 1. sends req n e e1"
    and sleep: "\<And>d e r e1. sleep ctx d e = (r, e1) \<Longrightarrow> sends req 0 e e1"
    and random: "\<And>k e r e1. random k e = (r, e1) \<Longrightarrow> sends req 0 e e1"
  shows "\<exists>n \<le> nat (m + 1 - attempt). sends req n e e'"
  using assms(1)
proof (induction "nat (m + 1 - attempt)" arbitrary: attempt lastErr e rule: less_induct)
  case less
  from less(2) show ?case
  proof (cases rule: retry_loop_step)
    case last
    then obtain n where "n \<le> 1" "sends req n e e'" using fn by blast
    then show ?thesis using last(1) by (intro exI [of _ n]) auto
  next
    case (interrupted err e1 d e2)
    obtain n where n: "n \<le> 1" "sends req n e e1" using fn [OF interrupted(2)] by blast
    have q: "sends req 0 e1 e2" by (rule retryDelay_quiet [OF interrupted(3)]) (rule random)
    have "sends req (n + 0 + 0) e e'"
      using n(2) q sleep [OF interrupted(4)] by (blast intro: sends_trans)
    then show ?thesis using n(1) interrupted(1) by (intro exI [of _ n]) auto
  next
    case (again err e1 d e2 e3)
    obtain n where n: "n \<le> 1" "sends req n e e1" using fn [OF again(2)] by blast
    have q: "sends req 0 e1 e2" by (rule retryDelay_quiet [OF again(3)]) (rule random)
    obtain k where k: "k \<le> nat (m + 1 - (attempt + 1))" "sends req k e3 e'"
      using less(1) [OF _ again(5)] again(1) by auto
    have "sends req (n + 0 + 0 + k) e e'"
      using n(2) q sleep [OF again(4)] k(2) by (blast intro: sends_trans)
    then show ?thesis using n(1) k(1) again(1) by (intro exI [of _ "n + k"]) auto
  qed (auto intro: exI [of _ "0::nat"])
qed

text \<open>
  The calls of the loop, for a function that appends its result to the trace: every call but the last
  failed with an error to be retried, and the last one decides the result, unless the context ended.
\<close>

definition retry_calls :: "int \<Rightarrow> (go_error \<Rightarrow> bool) \<Rightarrow> go_error option list \<Rightarrow> go_error option \<Rightarrow> go_error option \<Rightarrow> bool" where
  "retry_calls m should qs ctx_err r \<longleftrightarrow> int (length qs) \<le> m
   \<and> (\<forall>q \<in> set (butlast qs). \<exists>err. q = Some err \<and> should err)
   \<and> (r = None \<longleftrightarrow> qs \<noteq> [] \<and> last qs = None)
   \<and> (let stop = (qs \<noteq> [] \<and> (\<exists>err. last qs = Some err \<and> (int (length qs) = m \<or> \<not> should err)))
      in (stop \<longrightarrow> r = last qs) \<and> (r \<noteq> None \<and> \<not> stop \<longrightarrow> r = ctx_err))"

lemma retry_calls_Cons:
  "retry_calls m should qs ctx_err r \<Longrightarrow> qs \<noteq> [] \<or> r \<noteq> None \<Longrightarrow> should err \<Longrightarrow> 1 \<le> m
   \<Longrightarrow> retry_calls (m + 1) should (Some err # qs) ctx_err r"
  by (cases qs) (auto simp: retry_calls_def Let_def)

lemma retry_loop_calls:
  assumes "retry_loop m b x cfg sleep should random ctx fn attempt lastErr e = (r, e')" and "attempt \<le> m"
    and fn: "\<And>c e q e1. fn c e = (q, e1) \<Longrightarrow> trace e1 = trace e @ [q]"
    and sleep: "\<And>d e q e1. sleep ctx d e = (q, e1) \<Longrightarrow>
      trace e1 = trace e \<and> (\<forall>err. q = Some err \<longrightarrow> ctx_Err ctx (now e1) = Some err)"
    and random: "\<And>k e q e1. random k e = (q, e1) \<Longrightarrow> trace e1 = trace e"
  shows "\<exists>qs. trace e' = trace e @ qs \<and> (qs = [] \<longleftrightarrow> ctx_Err ctx (now e) \<noteq> None)
    \<and> retry_calls (m + 1 - attempt) should qs (ctx_Err ctx (now e')) r"
  using assms(1,2)
proof (induction "nat (m + 1 - attempt)" arbitrary: attempt lastErr e rule: less_induct)
  case less
  have delay: "trace e2 = trace e1" if "retryDelay b x (Jitter cfg) attempt (Some random) e1 = (d, e2)" for d e1 e2
    using that random by (auto simp: retryDelay_def Let_def split: if_splits prod.splits)
  from less(2) show ?case
  proof (cases rule: retry_loop_step)
    case (cancelled err)
    then show ?thesis using less(3) by (intro exI [of _ "[]"]) (auto simp: retry_calls_def)
  next
    case last
    then show ?thesis using fn [OF last(2)] less(3) by (intro exI [of _ "[r]"]) (auto simp: retry_calls_def Let_def)
  next
    case (interrupted err e1 d e2)
    then have "trace e' = trace e @ [Some err]" "r = ctx_Err ctx (now e')"
      using fn [OF interrupted(2)] delay [OF interrupted(3)] sleep [OF interrupted(4)] by auto
    then show ?thesis using interrupted by (intro exI [of _ "[Some err]"]) (auto simp: retry_calls_def Let_def)
  next
    case (again err e1 d e2 e3)
    then obtain qs where c: "trace e' = trace e3 @ qs" "qs = [] \<longleftrightarrow> ctx_Err ctx (now e3) \<noteq> None"
      "retry_calls (m + 1 - (attempt + 1)) should qs (ctx_Err ctx (now e')) r"
      using less(1) [of "attempt + 1" "Some err" e3] by auto
    have "trace e3 = trace e @ [Some err]"
      using fn [OF again(2)] delay [OF again(3)] sleep [OF again(4)] by simp
    moreover have "m + 1 - attempt = m + 1 - (attempt + 1) + 1" by simp
    then have "retry_calls (m + 1 - attempt) should (Some err # qs) (ctx_Err ctx (now e')) r"
      using c(3) again(1,7) retry_calls_Cons [OF c(3) _ again(7)] by (auto simp: retry_calls_def)
    ultimately show ?thesis using c(1) again(6) by (intro exI [of _ "Some err # qs"]) simp
  qed (use less(3) in auto)
qed

section \<open>Properties\<close>

text \<open>C19: whatever any number of goroutines do with a breaker made by \<open>NewCircuitBreaker\<close>, its state is
  one of the three constants, the failure count stays between 0 and the threshold and below it
  while closed (so it never overflows), and a half-open breaker that holds requests back has a
  probe under way.\<close>

theorem breaker_reachable_invariant:
  assumes "breaker_step\<^sup>*\<^sup>* (breaker_init threshold resetTimeout t0) s"
  shows "cb_state (sys_cb s) \<in> {CircuitClosed, CircuitOpen, CircuitHalfOpen}
    \<and> 0 \<le> cb_failures (sys_cb s) \<and> cb_failures (sys_cb s) \<le> cb_threshold (sys_cb s)
    \<and> (cb_state (sys_cb s) = CircuitClosed \<longrightarrow> cb_failures (sys_cb s) < cb_threshold (sys_cb s))
    \<and> (cb_halfOpenRunning (sys_cb s) \<longrightarrow>
         cb_state (sys_cb s) = CircuitHalfOpen \<and> Probe \<in> set (sys_running s))"
  using breaker_inv_reachable [OF assms] by (auto simp: breaker_inv_def breaker_ok_def)

text \<open>A breaker with threshold 1 that one failed call opened.\<close>

definition tripped :: breaker_sys where
  "tripped = \<lparr>sys_cb = \<lparr>cb_state = CircuitOpen, cb_failures = 1, cb_threshold = 1, cb_resetTimeout = 100,
     cb_openedAt = 5, cb_halfOpenRunning = False\<rparr>, sys_now = 5, sys_running = []\<rparr>"

lemma tripped_reachable: "breaker_step\<^sup>*\<^sup>* (breaker_init 1 100 5) tripped"
proof -
  let ?s0 = "breaker_init 1 100 5"
  let ?s1 = "?s0\<lparr>sys_running := [Regular]\<rparr>"
  have "breaker_step ?s0 ?s1"
    using breaker_step.admit [of ?s0 "NewCircuitBreaker 1 100"]
    by (simp add: breaker_init_def NewCircuitBreaker_def beforeRequest_def)
  moreover have "breaker_step ?s1 tripped"
    using breaker_step.finish [of ?s1 "[]" Regular "[]" "Some (Sentinel ErrBankTimeout)"]
    by (simp add: breaker_init_def NewCircuitBreaker_def afterRequest_def tripped_def)
  ultimately show ?thesis by (meson converse_rtranclp_into_rtranclp rtranclp.rtrancl_refl)
qed

lemma breaker_reachable_invariant_witness:
  "breaker_step\<^sup>*\<^sup>* (breaker_init 1 100 5) tripped \<and> cb_failures (sys_cb tripped) \<le> cb_threshold (sys_cb tripped)"
  using breaker_reachable_invariant [OF tripped_reachable] tripped_reachable by blast

text \<open>C20: the breaker cannot hold requests back for good: a request is refused only with
  \<open>ErrCircuitOpen\<close>, without a change of state, and only while the open period runs or a probe is
  under way; once the period is over and no probe runs, the next request is admitted, and if it
  succeeds with nothing else under way the breaker is closed.\<close>

theorem breaker_not_wedged:
  assumes "breaker_step\<^sup>*\<^sup>* (breaker_init threshold resetTimeout t0) s"
  shows "(\<forall>err cb. beforeRequest (sys_now s) (sys_cb s) = (Some err, cb) \<longrightarrow>
      err = Sentinel ErrCircuitOpen \<and> cb = sys_cb s
      \<and> (cb_state (sys_cb s) = CircuitOpen \<and> sys_now s - cb_openedAt (sys_cb s) < cb_resetTimeout (sys_cb s)
         \<or> Probe \<in> set (sys_running s)))
    \<and> (sys_now s - cb_openedAt (sys_cb s) \<ge> cb_resetTimeout (sys_cb s) \<longrightarrow> Probe \<notin> set (sys_running s) \<longrightarrow>
      (\<exists>cb. beforeRequest (sys_now s) (sys_cb s) = (None, cb)
        \<and> (\<forall>t. cb_state (afterRequest t None cb) = CircuitClosed \<and> cb_failures (afterRequest t None cb) = 0)))"
proof (intro conjI allI impI)
  note inv = breaker_inv_reachable [OF assms]
  fix err cb assume r: "beforeRequest (sys_now s) (sys_cb s) = (Some err, cb)"
  show "err = Sentinel ErrCircuitOpen" "cb = sys_cb s" using beforeRequest_reject [OF r] by simp_all
  show "cb_state (sys_cb s) = CircuitOpen \<and> sys_now s - cb_openedAt (sys_cb s) < cb_resetTimeout (sys_cb s)
      \<or> Probe \<in> set (sys_running s)"
    using beforeRequest_reject [OF r] inv by (auto simp: breaker_inv_def)
next
  assume "sys_now s - cb_openedAt (sys_cb s) \<ge> cb_resetTimeout (sys_cb s)" and "Probe \<notin> set (sys_running s)"
  then show "\<exists>cb. beforeRequest (sys_now s) (sys_cb s) = (None, cb)
      \<and> (\<forall>t. cb_state (afterRequest t None cb) = CircuitClosed \<and> cb_failures (afterRequest t None cb) = 0)"
    using breaker_inv_reachable [OF assms]
    by (auto simp: breaker_inv_def breaker_ok_def beforeRequest_def afterRequest_def split: CircuitState.splits)
qed

lemma breaker_not_wedged_witness:
  "beforeRequest (sys_now tripped) (sys_cb tripped) = (Some (Sentinel ErrCircuitOpen), sys_cb tripped)
   \<and> sys_now tripped - cb_openedAt (sys_cb tripped) < cb_resetTimeout (sys_cb tripped)"
proof -
  have r: "beforeRequest (sys_now tripped) (sys_cb tripped) = (Some (Sentinel ErrCircuitOpen), sys_cb tripped)"
    by (simp add: tripped_def beforeRequest_def)
  show ?thesis using breaker_not_wedged [OF tripped_reachable] r by (auto simp: tripped_def)
qed

text \<open>C21: a new breaker opens at exactly its threshold of consecutive failures, one after the other:
  before that it is closed, then it refuses every request until the reset time has passed.\<close>

theorem breaker_opens_at_threshold:
  assumes "0 < threshold" and "0 < resetTimeout" and "\<forall>(t, err) \<in> set (rs @ [(t1, err1)]). err \<noteq> None"
    and "int (length (rs @ [(t1, err1)])) = threshold"
  defines "cb \<equiv> calls (rs @ [(t1, err1)]) (NewCircuitBreaker threshold resetTimeout)"
  shows "cb_state (calls rs (NewCircuitBreaker threshold resetTimeout)) = CircuitClosed
    \<and> cb_state cb = CircuitOpen
    \<and> (\<forall>t. t - t1 < resetTimeout \<longrightarrow> beforeRequest t cb = (Some (Sentinel ErrCircuitOpen), cb))"
proof -
  let ?new = "NewCircuitBreaker threshold resetTimeout"
  have "calls rs ?new = ?new\<lparr>cb_failures := cb_failures ?new + int (length rs)\<rparr>"
    using assms(1,3,4) by (intro calls_failing) (auto simp: NewCircuitBreaker_def)
  then have rs: "calls rs ?new = ?new\<lparr>cb_failures := threshold - 1\<rparr>"
    using assms(4) by (simp add: NewCircuitBreaker_def)
  then have "cb = ?new\<lparr>cb_failures := threshold, cb_state := CircuitOpen, cb_openedAt := t1\<rparr>"
    using assms(1,3) by (simp add: cb_def calls_append NewCircuitBreaker_def beforeRequest_def afterRequest_def)
  then show ?thesis using rs assms(2) by (simp add: NewCircuitBreaker_def beforeRequest_def)
qed

lemma breaker_opens_at_threshold_witness:
  "beforeRequest 9 (calls [(1, Some (New ''x'')), (2, Some (New ''y''))] (NewCircuitBreaker 2 100))
    = (Some (Sentinel ErrCircuitOpen), calls [(1, Some (New ''x'')), (2, Some (New ''y''))] (NewCircuitBreaker 2 100))"
  using breaker_opens_at_threshold [of 2 100 "[(1, Some (New ''x''))]" 2 "Some (New ''y'')"] by simp

text \<open>C22: from an open breaker with no request under way, in every state reached before it closes
  again at most one request is under way, the probe: a failing bank is not flooded.\<close>

theorem breaker_single_probe:
  assumes "breaker_ok (sys_cb s)" and "cb_state (sys_cb s) = CircuitOpen" and "sys_running s = []"
    and "(\<lambda>s s'. breaker_step s s' \<and> cb_state (sys_cb s') \<noteq> CircuitClosed)\<^sup>*\<^sup>* s s'"
  shows "sys_running s' = [] \<or> sys_running s' = [Probe]"
proof -
  have "probing s" using assms(1-3) by (auto simp: probing_def breaker_ok_def)
  with assms(4) have "probing s'" by (rule probing_path)
  then show ?thesis by (auto simp: probing_def)
qed

lemma breaker_single_probe_witness:
  "sys_running (tripped\<lparr>sys_now := 105\<rparr>) = [] \<or> sys_running (tripped\<lparr>sys_now := 105\<rparr>) = [Probe]"
proof (rule breaker_single_probe [of tripped])
  show "(\<lambda>s s'. breaker_step s s' \<and> cb_state (sys_cb s') \<noteq> CircuitClosed)\<^sup>*\<^sup>* tripped (tripped\<lparr>sys_now := 105\<rparr>)"
    using breaker_step.advance [of 100 tripped] by (intro r_into_rtranclp) (simp add: tripped_def)
qed (simp_all add: tripped_def breaker_ok_def)

text \<open>C23: with requests of the closed period still under way this bound fails: after the breaker has
  opened and let a probe through, such a late request closes it (or reopens it) in the place of
  the probe. Here one late success closes the breaker while the probe is still running.\<close>

theorem breaker_late_request_closes:
  "\<exists>s s'. breaker_step\<^sup>*\<^sup>* (breaker_init 1 100 0) s \<and> sys_running s = [Regular, Probe]
     \<and> cb_state (sys_cb s) = CircuitHalfOpen \<and> breaker_step s s'
     \<and> sys_running s' = [Probe] \<and> cb_state (sys_cb s') = CircuitClosed"
proof -
  let ?s0 = "breaker_init 1 100 0"
  let ?s1 = "?s0\<lparr>sys_running := [Regular]\<rparr>"
  let ?s2 = "?s0\<lparr>sys_running := [Regular, Regular]\<rparr>"
  let ?open = "\<lparr>cb_state = CircuitOpen, cb_failures = 1, cb_threshold = 1, cb_resetTimeout = 100,
     cb_openedAt = 0, cb_halfOpenRunning = False\<rparr>"
  let ?half = "?open\<lparr>cb_state := CircuitHalfOpen, cb_failures := 0, cb_halfOpenRunning := True\<rparr>"
  let ?s3 = "\<lparr>sys_cb = ?open, sys_now = 0, sys_running = [Regular]\<rparr>"
  let ?s4 = "?s3\<lparr>sys_now := 100\<rparr>"
  let ?s5 = "\<lparr>sys_cb = ?half, sys_now = 100, sys_running = [Regular, Probe]\<rparr>"
  let ?s6 = "\<lparr>sys_cb = ?half\<lparr>cb_state := CircuitClosed, cb_halfOpenRunning := False\<rparr>, sys_now = 100,
     sys_running = [Probe]\<rparr>"
  note defs = breaker_init_def NewCircuitBreaker_def beforeRequest_def afterRequest_def
  have "breaker_step ?s0 ?s1" using breaker_step.admit [of ?s0 "sys_cb ?s0"] by (simp add: defs)
  moreover have "breaker_step ?s1 ?s2" using breaker_step.admit [of ?s1 "sys_cb ?s1"] by (simp add: defs)
  moreover have "breaker_step ?s2 ?s3"
    using breaker_step.finish [of ?s2 "[]" Regular "[Regular]" "Some (New ''x'')"] by (simp add: defs)
  moreover have "breaker_step ?s3 ?s4" using breaker_step.advance [of 100 ?s3] by simp
  moreover have "breaker_step ?s4 ?s5" using breaker_step.admit [of ?s4 ?half] by (simp add: defs)
  moreover have "breaker_step ?s5 ?s6" using breaker_step.finish [of ?s5 "[]" Regular "[Probe]" None] by (simp add: defs)
  ultimately have "breaker_step\<^sup>*\<^sup>* ?s0 ?s5 \<and> breaker_step ?s5 ?s6"
    by (meson converse_rtranclp_into_rtranclp rtranclp.rtrancl_refl)
  then show ?thesis by (intro exI [of _ ?s5] exI [of _ ?s6]) simp
qed

text \<open>C24: \<open>Retry\<close> always returns, and what it returns is decided by the calls it made. It is stated for a
  function that appends the result of each call to the trace, so \<open>qs\<close> is what the calls returned, with
  the default timer and random source (\<open>Sleep\<close> and \<open>Rand\<close> are nil outside the tests). There are at most
  \<open>MaxAttempts\<close> calls (one when that is not positive), none exactly if the context was done at the start,
  and all but the last failed with an error that is to be retried. \<open>Retry\<close> returns no error exactly if the last
  call succeeded. When the last call failed with an error that is not to be retried, or was the last one allowed,
  its error is returned; any other error is that of the ended context.\<close>

theorem Retry_outcome:
  assumes "Sleep cfg = None" and "Rand cfg = None"
    and "\<And>c e. trace (snd (fn c e)) = trace e @ [fst (fn c e)]"
    and "Retry ctx cfg fn e = (r, e')"
  shows "\<exists>qs. trace e' = trace e @ qs \<and> int (length qs) \<le> max 1 (MaxAttempts cfg)
    \<and> (qs = [] \<longleftrightarrow> ctx_Err ctx (now e) \<noteq> None)
    \<and> (\<forall>q \<in> set (butlast qs). \<exists>err. q = Some err \<and> (case ShouldRetry cfg of None \<Rightarrow> True | Some f \<Rightarrow> f err))
    \<and> (r = None \<longleftrightarrow> qs \<noteq> [] \<and> last qs = None)
    \<and> (let stop = (qs \<noteq> [] \<and> (\<exists>err. last qs = Some err
             \<and> (int (length qs) = max 1 (MaxAttempts cfg)
                \<or> \<not> (case ShouldRetry cfg of None \<Rightarrow> True | Some f \<Rightarrow> f err))))
       in (stop \<longrightarrow> r = last qs) \<and> (r \<noteq> None \<and> \<not> stop \<longrightarrow> r = ctx_Err ctx (now e')))"
proof -
  let ?m = "if MaxAttempts cfg \<le> 0 then 1 else MaxAttempts cfg"
  let ?should = "case ShouldRetry cfg of None \<Rightarrow> \<lambda>err. True | Some f \<Rightarrow> f"
  note run = assms(4) [unfolded Retry_def Let_def assms(1,2) option.case]
  have rec: "trace e1 = trace e @ [q]" if "fn c e = (q, e1)" for c e q e1
    using assms(3) [of c e] by (simp add: that)
  have "\<exists>qs. trace e' = trace e @ qs \<and> (qs = [] \<longleftrightarrow> ctx_Err ctx (now e) \<noteq> None)
      \<and> retry_calls (?m + 1 - 1) ?should qs (ctx_Err ctx (now e')) r"
    by (intro retry_loop_calls [OF run]) (auto dest: rec default_sleep_error default_sleep_trace quiet_Int63n simp: Int63n_def)
  moreover have "?m + 1 - 1 = max 1 (MaxAttempts cfg)" by simp
  moreover have "?should = (\<lambda>err. case ShouldRetry cfg of None \<Rightarrow> True | Some f \<Rightarrow> f err)" by (auto split: option.split)
  ultimately show ?thesis by (auto simp: retry_calls_def simp del: max_def)
qed

text \<open>A quiet environment, in which an external call takes 7 nanoseconds.\<close>

definition idle_env :: "'tr env" where
  "idle_env = \<lparr>now = 0, steps = 0, lat = (\<lambda>_. 7), picks = (\<lambda>_. False), rands = (\<lambda>n. n), csprng = (\<lambda>n. Some (of_nat n)),
     fconv = - (2 ^ 63), trace = []\<rparr>"

definition retry_twice :: "nat RetryConfig" where
  "retry_twice = \<lparr>MaxAttempts = 2, BaseDelay = 10, MaxDelay = 100, Jitter = 3, ShouldRetry = None, Sleep = None, Rand = None\<rparr>"

text \<open>A call that fails the first time and sends one request each time.\<close>

definition flaky :: "go_context \<Rightarrow> nat action" where
  "flaky ctx e = (if trace e = [] then Some (Sentinel ErrBankTimeout) else None, (tick e)\<lparr>trace := trace e @ [4]\<rparr>)"

lemmas retry_run_simps = Retry_def retry_loop.simps flaky_def retry_twice_def idle_env_def Background_def
  default_sleep_def select_timer_def retryDelay_def int64_of_float_def float64_nat_def Int63n_def tick_def wrap64_def

text \<open>A function that fails with an error to be retried, then with another, and records its results.\<close>

definition flaky_recorded :: "go_context \<Rightarrow> go_error option action" where
  "flaky_recorded ctx e =
     (let q = Some (Sentinel (if trace e = [] then ErrBankTimeout else ErrBankRejected))
      in (q, (tick e)\<lparr>trace := trace e @ [q]\<rparr>))"

definition retry_timeouts :: "go_error option RetryConfig" where
  "retry_timeouts = \<lparr>MaxAttempts = 5, BaseDelay = 10, MaxDelay = 100, Jitter = 3,
     ShouldRetry = Some (\<lambda>err. err = Sentinel ErrBankTimeout), Sleep = None, Rand = None\<rparr>"

lemma Retry_outcome_witness:
  "\<exists>qs. length qs = 2 \<and> fst (Retry Background retry_timeouts flaky_recorded idle_env) = last qs
     \<and> last qs = Some (Sentinel ErrBankRejected)"
proof -
  let ?r = "Retry Background retry_timeouts flaky_recorded idle_env"
  have rec: "trace (snd (flaky_recorded c e)) = trace e @ [fst (flaky_recorded c e)]" for c e
    by (simp add: flaky_recorded_def Let_def)
  have tr: "trace (snd ?r) = [Some (Sentinel ErrBankTimeout), Some (Sentinel ErrBankRejected)]"
    "trace (idle_env :: go_error option env) = []"
    by (simp_all add: retry_run_simps flaky_recorded_def retry_timeouts_def Let_def)
  have cfg: "Sleep retry_timeouts = None" "Rand retry_timeouts = None" by (simp_all add: retry_timeouts_def)
  have should: "(case ShouldRetry retry_timeouts of None \<Rightarrow> True | Some f \<Rightarrow> f err) \<longleftrightarrow> err = Sentinel ErrBankTimeout" for err
    by (simp add: retry_timeouts_def)
  from Retry_outcome [where fn = flaky_recorded, OF cfg rec prod.collapse [symmetric], where ctx = Background and e = idle_env,
      unfolded should Let_def]
  obtain qs where "trace (snd ?r) = trace idle_env @ qs"
    "qs \<noteq> [] \<and> (\<exists>err. last qs = Some err \<and> (int (length qs) = max 1 (MaxAttempts retry_timeouts) \<or> err \<noteq> Sentinel ErrBankTimeout))
      \<longrightarrow> fst ?r = last qs" by blast
  then show ?thesis by (intro exI [of _ qs]) (auto simp: tr)
qed

text \<open>\<open>Retry\<close> makes at most \<open>MaxAttempts\<close> calls (one when that is not positive): if a call sends at
  most one request, at most that many are sent in all.\<close>

theorem Retry_attempts:
  assumes "Sleep cfg = None" and "Rand cfg = None" and "\<And>e r e1. fn ctx e = (r, e1) \<Longrightarrow> \<exists>n \<le> 1. sends req n e e1"
    and "Retry ctx cfg fn e = (r, e')"
  shows "\<exists>n \<le> nat (max 1 (MaxAttempts cfg)). sends req n e e'"
proof -
  let ?m = "if MaxAttempts cfg \<le> 0 then 1 else MaxAttempts cfg"
  note run = assms(4) [unfolded Retry_def Let_def assms(1,2) option.case]
  have "\<exists>n \<le> nat (?m + 1 - 1). sends req n e e'"
    by (rule retry_loop_sends [OF run assms(3)]) (auto dest: default_sleep_quiet quiet_Int63n)
  moreover have "?m + 1 - 1 = max 1 (MaxAttempts cfg)" by simp
  ultimately show ?thesis by metis
qed

lemma Retry_attempts_witness:
  "\<exists>n \<le> nat (max 1 (MaxAttempts retry_twice)).
     sends 4 n idle_env (snd (Retry Background retry_twice flaky idle_env))"
proof -
  have f: "\<exists>n \<le> 1. sends 4 n e e1" if "flaky Background e = (r, e1)" for e r e1
    using that by (intro exI [of _ 1]) (auto simp: flaky_def sends_def)
  show ?thesis
    by (rule Retry_attempts [where fn = flaky and ctx = Background and cfg = retry_twice, OF _ _ f prod.collapse [symmetric]])
      (simp_all add: retry_twice_def)
qed

text \<open>C25: the delay before attempt \<open>n + 1\<close> is the base delay doubled \<open>n - 1\<close> times, capped by the maximum,
  plus less than the jitter, as long as the doubled delay is below $2^{63}$ nanoseconds.\<close>

theorem retryDelay_backoff:
  assumes "0 < baseDelay" and "baseDelay < 2 ^ 53" and "baseDelay * 2 ^ (n - 1) < 2 ^ 63" and "1 \<le> n"
    and "0 < maxDelay" and "0 < jitter" and "maxDelay + jitter < 2 ^ 63"
  shows "\<exists>j. 0 \<le> j \<and> j < jitter
    \<and> fst (retryDelay baseDelay maxDelay jitter (int n) (Some Int63n) e) = min maxDelay (baseDelay * 2 ^ (n - 1)) + j"
proof -
  define b where "b = min maxDelay (baseDelay * 2 ^ (n - 1))"
  obtain j e1 where j: "Int63n jitter e = (j, e1)" by (cases "Int63n jitter e")
  note bounds = Int63n_bounds [OF assms(6) j]
  have f: "int (float64_nat (nat baseDelay)) = baseDelay"
    using assms(1,2) by (simp add: float64_nat_def nat_less_iff)
  have "nat (int n - 1) = n - 1" by simp
  then have "fst (retryDelay baseDelay maxDelay jitter (int n) (Some Int63n) e) = wrap64 (b + j)"
    using assms(3,6) by (auto simp: retryDelay_def Let_def int64_of_float_def f b_def j min_def)
  also have "0 \<le> b" "b \<le> maxDelay" using assms(1,5) by (simp_all add: b_def)
  then have "wrap64 (b + j) = b + j" using bounds assms(7) by (intro wrap64_id) (simp add: in_int64_def)
  finally show ?thesis using bounds by (auto simp: b_def)
qed

lemma retryDelay_backoff_witness:
  "\<exists>j. 0 \<le> j \<and> j < 50 \<and> fst (retryDelay 100 1000 50 (int 3) (Some Int63n) idle_env) = min 1000 (100 * 2 ^ (3 - 1)) + j"
  by (rule retryDelay_backoff) simp_all

end
