(* ===== verification/Payflow_Bank.thy ===== *)
theory Payflow_Bank
  imports Payflow_Runtime
begin

text \<open>
  The bank clients (\<open>internal/service/bank.go\<close>): the simulated client and the HTTP client. The locale
  \<open>bank_client\<close> is the contract the payment service relies on: a charge sends at most one request,
  and a charge without an error is an approval. Both clients interpret it.
\<close>

section \<open>Interface\<close>

record BankChargeRequest =
  bq_TransactionID :: string
  bq_MerchantID :: string
  bq_AmountCents :: int64
  bq_Currency :: string

record BankChargeResponse =
  br_Approved :: bool
  br_Code :: string
  br_Message :: string

type_synonym bank_env = "BankChargeRequest env"

text \<open>\<open>Charge\<close> returns the pair of an optional response (a pointer) and an optional error.\<close>

type_synonym BankClient =
  "go_context \<Rightarrow> BankChargeRequest \<Rightarrow> bank_env \<Rightarrow> (BankChargeResponse option \<times> go_error option) \<times> bank_env"

locale bank_client =
  fixes charge :: BankClient
  assumes charge_sends: "charge ctx req e = (r, e') \<Longrightarrow> \<exists>n \<le> 1. sends req n e e'"
    and charge_approved: "charge ctx req e = ((resp, None), e') \<Longrightarrow> \<exists>x. resp = Some x \<and> br_Approved x"

section \<open>The simulated client\<close>

text \<open>The two maps may be nil; a key that is not in the map reads as false.\<close>

record SimulatedBankClient =
  sim_Latency :: int
  sim_RejectAmounts :: "(int64 \<Rightarrow> bool) option"
  sim_FailAmounts :: "(int64 \<Rightarrow> bool) option"

definition flagged :: "(int64 \<Rightarrow> bool) option \<Rightarrow> int64 \<Rightarrow> bool" where
  "flagged m a = (case m of None \<Rightarrow> False | Some f \<Rightarrow> f a)"

definition Simulated_Charge :: "SimulatedBankClient \<Rightarrow> BankClient" where
  "Simulated_Charge c ctx req e =
     (let latency = (if sim_Latency c \<le> 0 then 150 * 1000000 else sim_Latency c)
      in case select_timer ctx latency (e\<lparr>trace := trace e @ [req]\<rparr>) of
           (True, e1) \<Rightarrow> ((None, Some (Sentinel ErrBankTimeout)), e1)
         | (False, e1) \<Rightarrow>
             if flagged (sim_FailAmounts c) (bq_AmountCents req)
             then ((None, Some (Sentinel ErrBankUnavailable)), e1)
             else if flagged (sim_RejectAmounts c) (bq_AmountCents req)
             then ((Some \<lparr>br_Approved = False, br_Code = ''DECLINED'', br_Message = ''transaction declined''\<rparr>,
                    Some (Sentinel ErrBankRejected)), e1)
             else ((Some \<lparr>br_Approved = True, br_Code = ''APPROVED'', br_Message = []\<rparr>, None), e1))"

section \<open>The HTTP client\<close>

text \<open>
  The bank and the network are parameters: \<open>hc_answer\<close> is what the n-th exchange yields, an error of
  the transport or a status code with the body as \<open>Decode\<close> reads it (the struct, or the decoding
  error); \<open>hc_parse\<close> is the error, if any, of parsing the URL. \<open>json.Marshal\<close> of the request struct
  (strings and an integer) does not fail.
\<close>

record http_response =
  StatusCode :: int
  Body :: "go_error + BankChargeResponse"

record HTTPBankClient =
  hc_BaseURL :: string
  hc_Timeout :: int
  hc_parse :: "string \<Rightarrow> go_error option"
  hc_answer :: "nat \<Rightarrow> go_error + http_response"

definition TrimRight_slash :: "string \<Rightarrow> string" where
  "TrimRight_slash s = rev (dropWhile (\<lambda>c. c = CHR ''/'') (rev s))"

definition NewHTTPBankClient ::
  "(string \<Rightarrow> go_error option) \<Rightarrow> (nat \<Rightarrow> go_error + http_response) \<Rightarrow> string \<Rightarrow> int \<Rightarrow> HTTPBankClient" where
  "NewHTTPBankClient parse answer baseURL timeout =
     \<lparr>hc_BaseURL = TrimRight_slash baseURL,
      hc_Timeout = (if timeout \<le> 0 then 5 * 1000000000 else timeout),
      hc_parse = parse, hc_answer = answer\<rparr>"

text \<open>\<open>http.NewRequestWithContext\<close> refuses a nil context and a URL that does not parse.\<close>

definition NewRequestWithContext :: "HTTPBankClient \<Rightarrow> go_context \<Rightarrow> string \<Rightarrow> go_error option" where
  "NewRequestWithContext c ctx url =
     (if ctx = NilContext then Some (New ''net/http: nil Context'') else hc_parse c url)"

text \<open>
  \<open>http.Client.Do\<close>: the exchange takes some time; it fails when the context or the client's own
  timeout is over by then, and otherwise ends as the network has it.
\<close>

definition http_Do :: "HTTPBankClient \<Rightarrow> go_context \<Rightarrow> BankChargeRequest \<Rightarrow> bank_env \<Rightarrow> (go_error + http_response) \<times> bank_env" where
  "http_Do c ctx req e =
     (let e1 = (tick e)\<lparr>trace := trace e @ [req]\<rparr>
      in case ctx_Err (WithTimeout ctx (hc_Timeout c) (now e)) (now e1) of
           Some err \<Rightarrow> (Inl err, e1)
         | None \<Rightarrow> (hc_answer c (steps e), e1))"

definition with_message :: "BankChargeResponse \<Rightarrow> BankChargeResponse" where
  "with_message r = (if br_Message r = [] then r\<lparr>br_Message := ''bank rejected the transaction''\<rparr> else r)"

definition HTTP_Charge :: "HTTPBankClient \<Rightarrow> BankClient" where
  "HTTP_Charge c ctx req e =
     (case NewRequestWithContext c ctx (hc_BaseURL c @ ''/charge'') of
        Some err \<Rightarrow> ((None, Some (wrapf ''build bank request: '' err)), e)
      | None \<Rightarrow>
          (case http_Do c ctx req e of
             (Inl err, e1) \<Rightarrow>
               if ctx_Err ctx (now e1) \<noteq> None then ((None, Some (Sentinel ErrBankTimeout)), e1)
               else ((None, Some (Sentinel ErrBankUnavailable)), e1)
           | (Inr resp, e1) \<Rightarrow>
               (case Body resp of
                  Inl err \<Rightarrow> ((None, Some (wrapf ''decode bank response: '' err)), e1)
                | Inr bankResp \<Rightarrow>
                    if StatusCode resp \<ge> 500 then ((None, Some (Sentinel ErrBankUnavailable)), e1)
                    else if StatusCode resp \<ge> 400 then
                      (let bankResp = with_message bankResp
                       in ((Some bankResp, Some (Errorf [] (Sentinel ErrBankRejected) ('': '' @ br_Message bankResp))), e1))
                    else if \<not> br_Approved bankResp then
                      (let bankResp = with_message bankResp
                       in ((Some bankResp, Some (Errorf [] (Sentinel ErrBankRejected) ('': '' @ br_Message bankResp))), e1))
                    else ((Some bankResp, None), e1))))"

section \<open>Facts\<close>

lemma sends_start: "sends req 0 (e\<lparr>trace := trace e @ [req]\<rparr>) e' \<Longrightarrow> sends req 1 e e'"
  by (simp add: sends_def)

lemma Simulated_sends:
  assumes "Simulated_Charge c ctx req e = (r, e')"
  shows "sends req 1 e e'"
proof (rule sends_start)
  define d where "d = (if sim_Latency c \<le> 0 then 150 * 1000000 else sim_Latency c)"
  obtain b e1 where b: "select_timer ctx d (e\<lparr>trace := trace e @ [req]\<rparr>) = (b, e1)"
    by (cases "select_timer ctx d (e\<lparr>trace := trace e @ [req]\<rparr>)")
  have "e' = e1" using assms b by (cases b) (auto simp: Simulated_Charge_def d_def Let_def split: if_splits)
  then show "sends req 0 (e\<lparr>trace := trace e @ [req]\<rparr>) e'" using quiet_select_timer [OF b] by simp
qed

lemma http_Do_sends: "http_Do c ctx req e = (r, e') \<Longrightarrow> sends req 1 e e'"
  by (auto simp: http_Do_def Let_def sends_def split: option.splits)

lemma HTTP_sends:
  assumes "HTTP_Charge c ctx req e = (r, e')"
  shows "\<exists>n \<le> 1. sends req n e e'"
proof (cases "NewRequestWithContext c ctx (hc_BaseURL c @ ''/charge'')")
  case None
  obtain a e1 where a: "http_Do c ctx req e = (a, e1)" by (cases "http_Do c ctx req e")
  have "e' = e1"
    using assms None a by (auto simp: HTTP_Charge_def Let_def split: sum.splits if_splits)
  then show ?thesis using http_Do_sends [OF a] by blast
next
  case (Some err)
  then show ?thesis using assms by (auto simp: HTTP_Charge_def intro: exI [of _ "0::nat"])
qed

interpretation simulated: bank_client "Simulated_Charge c" for c
proof unfold_locales
  show "\<exists>n \<le> 1. sends req n e e'" if "Simulated_Charge c ctx req e = (r, e')" for ctx req e r e'
    using Simulated_sends [OF that] by blast
  show "\<exists>x. resp = Some x \<and> br_Approved x" if "Simulated_Charge c ctx req e = ((resp, None), e')" for ctx req e resp e'
    using that by (auto simp: Simulated_Charge_def Let_def split: prod.splits bool.splits if_splits)
qed

interpretation http: bank_client "HTTP_Charge c" for c
proof unfold_locales
  show "\<exists>n \<le> 1. sends req n e e'" if "HTTP_Charge c ctx req e = (r, e')" for ctx req e r e'
    using HTTP_sends [OF that] .
  show "\<exists>x. resp = Some x \<and> br_Approved x" if "HTTP_Charge c ctx req e = ((resp, None), e')" for ctx req e resp e'
    using that by (auto simp: HTTP_Charge_def Let_def split: prod.splits option.splits sum.splits if_splits)
qed

section \<open>Properties\<close>

text \<open>C27: what the HTTP client makes of every exchange. If the request cannot be built nothing is sent and the
  error says so; otherwise it is handed to the transport exactly once. A failed exchange is \<open>ErrBankTimeout\<close> exactly when the caller's
  context is done, else \<open>ErrBankUnavailable\<close>. A body that is not the expected JSON is a \<open>decode bank response\<close>
  error whatever the status, so also for a 5xx answer, since the body is decoded before the status is looked at.
  With a decodable body there is no error exactly for an approval below 400; a decline and every 4xx answer are
  \<open>ErrBankRejected\<close>, a 5xx answer is \<open>ErrBankUnavailable\<close>, and the response is handed over below 500 only.\<close>

theorem HTTP_Charge_verdict:
  assumes "HTTP_Charge c ctx req e = ((resp, err), e')"
  shows "case NewRequestWithContext c ctx (hc_BaseURL c @ ''/charge'') of
      Some x \<Rightarrow> resp = None \<and> err = Some (wrapf ''build bank request: '' x) \<and> trace e' = trace e
    | None \<Rightarrow> trace e' = trace e @ [req]
        \<and> (case fst (http_Do c ctx req e) of
             Inl x \<Rightarrow> resp = None
               \<and> err = Some (Sentinel (if ctx_Err ctx (now e') \<noteq> None then ErrBankTimeout else ErrBankUnavailable))
           | Inr r \<Rightarrow>
               (\<forall>x. Body r = Inl x \<longrightarrow> resp = None \<and> err = Some (wrapf ''decode bank response: '' x))
             \<and> (\<forall>b. Body r = Inr b \<longrightarrow>
                  (err = None \<longleftrightarrow> StatusCode r < 400 \<and> br_Approved b)
                \<and> (err_is err ErrBankRejected \<longleftrightarrow> StatusCode r < 500 \<and> \<not> (StatusCode r < 400 \<and> br_Approved b))
                \<and> (err = Some (Sentinel ErrBankUnavailable) \<longleftrightarrow> 500 \<le> StatusCode r)
                \<and> resp = (if 500 \<le> StatusCode r then None else Some (if err = None then b else with_message b))))"
proof (cases "NewRequestWithContext c ctx (hc_BaseURL c @ ''/charge'')")
  case None
  obtain out e1 where out: "http_Do c ctx req e = (out, e1)" by (cases "http_Do c ctx req e")
  have "e' = e1" using assms None out
    by (auto simp: HTTP_Charge_def Let_def split: sum.splits if_splits)
  moreover have "trace e1 = trace e @ [req]" using http_Do_sends [OF out] by (simp add: sends_def)
  ultimately show ?thesis
  proof (cases out)
    case (Inr r)
    then show ?thesis using assms None out \<open>e' = e1\<close> \<open>trace e1 = _\<close>
      by (cases "Body r") (auto simp: HTTP_Charge_def Let_def split: if_splits)
  qed (use assms None out in \<open>auto simp: HTTP_Charge_def split: if_splits\<close>)
qed (use assms in \<open>simp add: HTTP_Charge_def\<close>)

definition bank_sample :: HTTPBankClient where
  "bank_sample = NewHTTPBankClient (\<lambda>_. None)
     (\<lambda>n. Inr \<lparr>StatusCode = 200, Body = Inr \<lparr>br_Approved = True, br_Code = ''APPROVED'', br_Message = []\<rparr>\<rparr>) ''http://bank/'' 0"

definition charge_sample :: BankChargeRequest where
  "charge_sample = \<lparr>bq_TransactionID = ''tx_1'', bq_MerchantID = ''m_001'', bq_AmountCents = 500, bq_Currency = ''CAD''\<rparr>"

definition bank_env_sample :: bank_env where
  "bank_env_sample = \<lparr>now = 0, steps = 0, lat = (\<lambda>_. 7), picks = (\<lambda>_. False), rands = (\<lambda>n. n),
     csprng = (\<lambda>n. Some (of_nat n)), fconv = - (2 ^ 63), trace = []\<rparr>"

lemmas bank_sample_simps = bank_sample_def charge_sample_def bank_env_sample_def NewHTTPBankClient_def
  TrimRight_slash_def NewRequestWithContext_def http_Do_def HTTP_Charge_def Background_def tick_def

lemma HTTP_Charge_verdict_witness:
  "snd (fst (HTTP_Charge bank_sample Background charge_sample bank_env_sample)) = None
   \<and> trace (snd (HTTP_Charge bank_sample Background charge_sample bank_env_sample)) = [charge_sample]"
proof -
  let ?h = "HTTP_Charge bank_sample Background charge_sample bank_env_sample"
  have ok: "NewRequestWithContext bank_sample Background (hc_BaseURL bank_sample @ ''/charge'') = None"
    and out: "fst (http_Do bank_sample Background charge_sample bank_env_sample)
      = Inr \<lparr>StatusCode = 200, Body = Inr \<lparr>br_Approved = True, br_Code = ''APPROVED'', br_Message = []\<rparr>\<rparr>"
    and tr: "trace bank_env_sample = []"
    by (simp_all add: bank_sample_simps)
  have h: "?h = ((fst (fst ?h), snd (fst ?h)), snd ?h)" by simp
  from HTTP_Charge_verdict [OF h] show ?thesis by (simp add: ok out tr)
qed

end
