(* ===== verification/Payflow_Payment.thy ===== *)
theory Payflow_Payment
  imports Payflow_Repository Payflow_Resilience Payflow_Bank
begin

text \<open>
  The payment service (\<open>internal/service/payment.go\<close>), every method. The state a call works on is
  the \<open>world\<close>: the store, the circuit breaker and the environment. A Go function that returns an
  \<open>error\<close> returns \<^typ>\<open>go_error option\<close> here, and one that also changes the transaction its caller
  holds returns the changed transaction next to it. Spans and log lines do not influence what the
  service does and have no counterpart.
\<close>

section \<open>State\<close>

record 'db world =
  wdb :: 'db
  wbreaker :: CircuitBreaker
  wenv :: bank_env

text \<open>A repository or database call: it sees the time at which it is made, and takes some.\<close>

definition rcall :: "('db, 'r) dbop \<Rightarrow> 'db world \<Rightarrow> 'r \<times> 'db world" where
  "rcall op w =
     (case op (now (wenv w)) (wdb w) of (r, d) \<Rightarrow> (r, w\<lparr>wdb := d, wenv := tick (wenv w)\<rparr>))"

text \<open>
  The idiom \<open>if err := op(...); err != nil { return f(err) }\<close> followed by the rest of the function.
\<close>

type_synonym 'db task = "'db world \<Rightarrow> go_error option \<times> 'db world"

definition check :: "'db task \<Rightarrow> (go_error \<Rightarrow> go_error) \<Rightarrow> 'db task \<Rightarrow> 'db task" where
  "check op f rest w =
     (case op w of (Some err, w1) \<Rightarrow> (Some (f err), w1) | (None, w1) \<Rightarrow> rest w1)"

definition return_nil :: "'db task" where
  "return_nil w = (None, w)"

text \<open>The same for a function that returns a value or an error, such as \<open>json.Marshal\<close>.\<close>

definition bind :: "go_error + 'a \<Rightarrow> (go_error \<Rightarrow> go_error) \<Rightarrow> ('a \<Rightarrow> 'db task) \<Rightarrow> 'db task" where
  "bind x f rest w = (case x of Inl err \<Rightarrow> (Some (f err), w) | Inr v \<Rightarrow> rest v w)"

text \<open>A nil interface value whose method is called.\<close>

definition deref :: "'a option \<Rightarrow> ('a \<Rightarrow> 'db task) \<Rightarrow> 'db task" where
  "deref p body w =
     (case p of None \<Rightarrow> (Some (Panic ''nil pointer dereference''), w) | Some v \<Rightarrow> body v w)"

text \<open>
  \<open>s_db\<close> is \<open>None\<close> when the service works without a database (development and tests); a nil
  \<open>outbox\<close> is \<open>None\<close>. The breaker is shared mutable state and lives in the world.
\<close>

record 'db PaymentService =
  s_db :: "'db sqlDB option"
  s_merchants :: "'db MerchantRepository"
  s_txns :: "'db TransactionRepository"
  s_events :: "'db EventRepository"
  s_outbox :: "'db OutboxRepository option"
  s_bank :: BankClient
  s_retry :: "BankChargeRequest RetryConfig"
  s_bankTimeout :: int
  s_maxTransactionCents :: int64

definition DefaultMaxTransactionCents :: int64 where "DefaultMaxTransactionCents = 2500000"

record 'db PaymentServiceConfig =
  c_DB :: "'db sqlDB option"
  c_Merchants :: "'db MerchantRepository"
  c_Transactions :: "'db TransactionRepository"
  c_Events :: "'db EventRepository"
  c_Outbox :: "'db OutboxRepository option"
  c_BankClient :: "BankClient option"
  c_CircuitBreaker :: "CircuitBreaker option"
  c_RetryConfig :: "BankChargeRequest RetryConfig"
  c_BankTimeout :: int
  c_MaxTransactionCents :: int64

definition isRetryableBankError :: "go_error \<Rightarrow> bool" where
  "isRetryableBankError err \<longleftrightarrow>
     errors_Is err ErrBankTimeout \<or> errors_Is err ErrBankUnavailable \<or> errors_Is err DeadlineExceeded"

definition NewPaymentService :: "'db PaymentServiceConfig \<Rightarrow> 'db PaymentService \<times> CircuitBreaker" where
  "NewPaymentService cfg =
     (let bankClient = (case c_BankClient cfg of
                          None \<Rightarrow> Simulated_Charge \<lparr>sim_Latency = 150 * millisecond, sim_RejectAmounts = None, sim_FailAmounts = None\<rparr>
                        | Some b \<Rightarrow> b);
          breaker = (case c_CircuitBreaker cfg of None \<Rightarrow> NewCircuitBreaker 3 (5 * second) | Some b \<Rightarrow> b);
          r = c_RetryConfig cfg;
          r = (if MaxAttempts r \<le> 0 then r\<lparr>MaxAttempts := 3\<rparr> else r);
          r = (if BaseDelay r \<le> 0 then r\<lparr>BaseDelay := 100 * millisecond\<rparr> else r);
          r = (if MaxDelay r \<le> 0 then r\<lparr>MaxDelay := second\<rparr> else r);
          r = (if Jitter r \<le> 0 then r\<lparr>Jitter := 50 * millisecond\<rparr> else r);
          r = (case ShouldRetry r of None \<Rightarrow> r\<lparr>ShouldRetry := Some isRetryableBankError\<rparr> | Some _ \<Rightarrow> r);
          maxTransaction = (if sint (c_MaxTransactionCents cfg) \<le> 0 then DefaultMaxTransactionCents
                            else c_MaxTransactionCents cfg)
      in (\<lparr>s_db = c_DB cfg, s_merchants = c_Merchants cfg, s_txns = c_Transactions cfg, s_events = c_Events cfg,
           s_outbox = c_Outbox cfg, s_bank = bankClient, s_retry = r, s_bankTimeout = c_BankTimeout cfg,
           s_maxTransactionCents = maxTransaction\<rparr>, breaker))"

record CreateTransactionInput =
  in_MerchantID :: string
  in_AmountCents :: int64
  in_Currency :: string
  in_IdempotencyKey :: string
  in_Description :: string

section \<open>Helpers\<close>

definition contextError :: "go_context \<Rightarrow> 'db world \<Rightarrow> go_error option" where
  "contextError ctx w = (case ctx of NilContext \<Rightarrow> None | _ \<Rightarrow> ctx_Err ctx (now (wenv w)))"

definition postBankContext :: "go_context \<Rightarrow> go_context" where
  "postBankContext ctx = (case ctx of NilContext \<Rightarrow> Background | _ \<Rightarrow> WithoutCancel ctx)"

definition bankCallContext :: "go_context \<Rightarrow> int \<Rightarrow> 'db world \<Rightarrow> go_context" where
  "bankCallContext ctx timeout w =
     (if timeout \<le> 0 then WithCancel ctx else WithTimeout ctx timeout (now (wenv w)))"

definition normalizeBankError :: "go_context \<Rightarrow> go_context \<Rightarrow> go_error option \<Rightarrow> int \<Rightarrow> go_error option" where
  "normalizeBankError parentCtx bankCtx err t =
     (if err = None then None
      else if err_is err Canceled \<and> parentCtx \<noteq> NilContext \<and> err_is (ctx_Err parentCtx t) Canceled
           then Some (Sentinel Canceled)
      else if err_is err DeadlineExceeded \<and> parentCtx \<noteq> NilContext \<and> err_is (ctx_Err parentCtx t) DeadlineExceeded
           then Some (Sentinel DeadlineExceeded)
      else if err_is err DeadlineExceeded \<and> bankCtx \<noteq> NilContext \<and> err_is (ctx_Err bankCtx t) DeadlineExceeded
           then Some (Sentinel ErrBankTimeout)
      else err)"

definition matchesIdempotentRequest :: "Transaction \<Rightarrow> CreateTransactionInput \<Rightarrow> bool" where
  "matchesIdempotentRequest existing input \<longleftrightarrow>
     tx_MerchantID existing = in_MerchantID input \<and> tx_AmountCents existing = in_AmountCents input
   \<and> tx_Currency existing = in_Currency input \<and> tx_Description existing = in_Description input"

text \<open>\<open>hex.EncodeToString\<close> of the eight random bytes, most significant digit first.\<close>

definition hex_digit :: "nat \<Rightarrow> char" where
  "hex_digit n = ''0123456789abcdef'' ! n"

fun hex_digits :: "nat \<Rightarrow> nat \<Rightarrow> string" where
  "hex_digits 0 n = []"
| "hex_digits (Suc k) n = hex_digits k (n div 16) @ [hex_digit (n mod 16)]"

definition generateTransactionID :: "bank_env \<Rightarrow> string \<times> bank_env" where
  "generateTransactionID e =
     (let e1 = e\<lparr>steps := Suc (steps e)\<rparr>
      in case csprng e (steps e) of
           None \<Rightarrow> (''tx_'' @ show_int (now e), e1)
         | Some buf \<Rightarrow> (''tx_'' @ hex_digits 16 (unat buf), e1))"

text \<open>
  \<open>json.Marshal\<close> of a map writes the keys in increasing order. The values here are strings and
  integers, for which it does not fail.
\<close>

definition marshalOutboxPayload :: "(string \<times> json) list \<Rightarrow> go_error + RawMessage" where
  "marshalOutboxPayload payload = Inr (Some (JObject (sort_key fst payload)))"

definition transactionOutboxPayload :: "Transaction \<Rightarrow> (string \<times> json) list \<Rightarrow> go_error + RawMessage" where
  "transactionOutboxPayload tx extra =
     marshalOutboxPayload (fold (\<lambda>(key, value). AList.update key value) extra
       [(''transaction_id'', JString (tx_ID tx)), (''merchant_id'', JString (tx_MerchantID tx)),
        (''amount_cents'', JNumber (sint (tx_AmountCents tx))), (''currency'', JString (tx_Currency tx)),
        (''status'', JString (tx_Status tx))])"

definition outbox_event :: "string \<Rightarrow> RawMessage \<Rightarrow> int \<Rightarrow> OutboxEvent" where
  "outbox_event eventType payload createdAt =
     \<lparr>ob_ID = 0, ob_EventType = eventType, ob_Payload = payload, ob_Published = False, ob_CreatedAt = createdAt\<rparr>"

definition tx_event :: "string \<Rightarrow> string \<Rightarrow> string \<Rightarrow> string \<Rightarrow> RawMessage \<Rightarrow> int \<Rightarrow> TransactionEvent" where
  "tx_event txID eventType from to payload createdAt =
     \<lparr>ev_ID = 0, ev_TransactionID = txID, ev_EventType = eventType, ev_FromStatus = from, ev_ToStatus = to,
      ev_Payload = payload, ev_CreatedAt = createdAt\<rparr>"

text \<open>\<open>fmt.Sprintf("STATUS_%s", to)\<close>.\<close>

definition status_event :: "TransactionStatus \<Rightarrow> string" where
  "status_event to = ''STATUS_'' @ to"

definition emitOutboxEvent ::
  "'db PaymentService \<Rightarrow> go_context \<Rightarrow> string \<Rightarrow> Transaction \<Rightarrow> int \<Rightarrow> (string \<times> json) list \<Rightarrow> 'db task" where
  "emitOutboxEvent s ctx eventType tx createdAt extra w =
     (case s_outbox s of
        None \<Rightarrow> (None, w)
      | Some outbox \<Rightarrow>
          (case transactionOutboxPayload tx extra of
             Inl err \<Rightarrow> (Some err, w)
           | Inr payload \<Rightarrow> rcall (OR_Create outbox OnDB ctx (outbox_event eventType payload createdAt)) w))"

definition emitTransitionOutboxEvent ::
  "'db PaymentService \<Rightarrow> go_context \<Rightarrow> Transaction \<Rightarrow> TransactionStatus \<Rightarrow> 'db world \<Rightarrow> go_error option \<times> 'db world" where
  "emitTransitionOutboxEvent s ctx tx to w =
     (if to = TxStatusCompleted then emitOutboxEvent s ctx ''transaction.completed'' tx (now (wenv w)) [] w
      else if to = TxStatusFailed then emitOutboxEvent s ctx ''transaction.failed'' tx (now (wenv w)) [] w
      else (None, w))"

section \<open>Transactions and transitions\<close>

text \<open>
  \<open>withTransaction\<close>: a panic of \<open>fn\<close> leaves the function without a rollback. The result of
  \<open>Rollback\<close> is ignored.
\<close>

definition withTransaction :: "go_context \<Rightarrow> 'db sqlDB \<Rightarrow> 'db task \<Rightarrow> 'db task" where
  "withTransaction ctx db fn w =
     (case rcall (BeginTx db ctx) w of
        (Some err, w1) \<Rightarrow> (Some (wrapf ''begin transaction: '' err), w1)
      | (None, w1) \<Rightarrow>
          (case fn w1 of
             (Some err, w2) \<Rightarrow>
               if is_panic err then (Some err, w2)
               else (case rcall (Rollback db) w2 of (_, w3) \<Rightarrow> (Some err, w3))
           | (None, w2) \<Rightarrow> rcall (Commit db ctx) w2))"

definition rollbackTransition ::
  "'db PaymentService \<Rightarrow> go_context \<Rightarrow> Transaction \<Rightarrow> TransactionStatus \<Rightarrow> go_error
    \<Rightarrow> 'db world \<Rightarrow> (go_error option \<times> Transaction) \<times> 'db world" where
  "rollbackTransition s ctx tx from cause w =
     (case rcall (TR_UpdateStatus (s_txns s) OnDB ctx (tx_ID tx) from) w of
        (Some rollbackErr, w1) \<Rightarrow>
          ((Some (Join cause (wrapf (''rollback status to '' @ from @ '': '') rollbackErr)), tx), w1)
      | (None, w1) \<Rightarrow> ((Some cause, tx\<lparr>tx_Status := from\<rparr>), w1))"

text \<open>The arrow in the text of the error, in UTF-8.\<close>

definition arrow :: string where
  "arrow = '' '' @ [CHR 0xE2, CHR 0x86, CHR 0x92] @ '' ''"

definition invalid_transition :: "TransactionStatus \<Rightarrow> TransactionStatus \<Rightarrow> go_error" where
  "invalid_transition from to = Errorf [] (Sentinel ErrInvalidTransition) ('': '' @ from @ arrow @ to)"

text \<open>The second half of \<open>transition\<close>: the event, the outbox message, the compensation.\<close>

definition record_transition ::
  "'db PaymentService \<Rightarrow> go_context \<Rightarrow> Transaction \<Rightarrow> TransactionStatus
    \<Rightarrow> 'db world \<Rightarrow> (go_error option \<times> Transaction) \<times> 'db world" where
  "record_transition s ctx tx to w =
     (let from = tx_Status tx; transitionedTx = tx\<lparr>tx_Status := to\<rparr>
      in case rcall (ER_Create (s_events s) OnDB ctx
                (tx_event (tx_ID tx) (status_event to) from to None (now (wenv w)))) w of
           (Some err, w1) \<Rightarrow> rollbackTransition s ctx tx from (wrapf ''record transition event: '' err) w1
         | (None, w1) \<Rightarrow>
             (case emitTransitionOutboxEvent s ctx transitionedTx to w1 of
                (Some err, w2) \<Rightarrow>
                  rollbackTransition s ctx tx from (wrapf ''record transition outbox event: '' err) w2
              | (None, w2) \<Rightarrow> ((None, tx\<lparr>tx_Status := to\<rparr>), w2)))"

definition transition ::
  "'db PaymentService \<Rightarrow> go_context \<Rightarrow> Transaction \<Rightarrow> TransactionStatus
    \<Rightarrow> 'db world \<Rightarrow> (go_error option \<times> Transaction) \<times> 'db world" where
  "transition s ctx tx to w =
     (case contextError ctx w of
        Some err \<Rightarrow> ((Some err, tx), w)
      | None \<Rightarrow>
          let from = tx_Status tx
          in if \<not> CanTransition from to then ((Some (invalid_transition from to), tx), w)
             else case rcall (TR_UpdateStatus (s_txns s) OnDB ctx (tx_ID tx) to) w of
                    (Some err, w1) \<Rightarrow> ((Some err, tx), w1)
                  | (None, w1) \<Rightarrow> record_transition s ctx tx to w1)"

section \<open>Creating\<close>

text \<open>The function literal that \<open>createInDBTransaction\<close> runs in a transaction.\<close>

definition create_body :: "'db PaymentService \<Rightarrow> go_context \<Rightarrow> Transaction \<Rightarrow> 'db task" where
  "create_body s ctx tx =
     deref (s_outbox s) (\<lambda>outbox.
       check (rcall (TR_Create (s_txns s) OnTx ctx tx)) (wrapf ''save transaction: '')
       (check (rcall (ER_Create (s_events s) OnTx ctx
                 (tx_event (tx_ID tx) ''CREATED'' [] TxStatusPending None (tx_CreatedAt tx))))
          (wrapf ''save creation event: '')
       (bind (marshalOutboxPayload
                [(''transaction_id'', JString (tx_ID tx)), (''merchant_id'', JString (tx_MerchantID tx)),
                 (''amount_cents'', JNumber (sint (tx_AmountCents tx))), (''currency'', JString (tx_Currency tx)),
                 (''status'', JString (tx_Status tx))])
          (wrapf ''marshal created outbox payload: '') (\<lambda>payload.
       check (rcall (OR_Create outbox OnTx ctx (outbox_event ''transaction.created'' payload (tx_CreatedAt tx))))
          (wrapf ''save outbox event: '')
       return_nil))))"

definition createInDBTransaction :: "'db PaymentService \<Rightarrow> 'db sqlDB \<Rightarrow> go_context \<Rightarrow> Transaction \<Rightarrow> 'db task" where
  "createInDBTransaction s db ctx tx = withTransaction ctx db (create_body s ctx tx)"

definition createWithMocks :: "'db PaymentService \<Rightarrow> go_context \<Rightarrow> Transaction \<Rightarrow> 'db task" where
  "createWithMocks s ctx tx =
     check (rcall (TR_Create (s_txns s) OnDB ctx tx)) (\<lambda>err. err)
     (check (rcall (ER_Create (s_events s) OnDB ctx
               (tx_event (tx_ID tx) ''CREATED'' [] TxStatusPending None (tx_CreatedAt tx))))
        (wrapf ''save creation event: '')
     (emitOutboxEvent s ctx ''transaction.created'' tx (tx_CreatedAt tx) []))"

section \<open>Completing\<close>

text \<open>The function literal that \<open>completeInDBTransaction\<close> runs in a transaction.\<close>

definition complete_body :: "'db PaymentService \<Rightarrow> go_context \<Rightarrow> Transaction \<Rightarrow> int \<Rightarrow> 'db task" where
  "complete_body s ctx tx completedAt =
     (let from = tx_Status tx; to = TxStatusCompleted; completedTx = tx\<lparr>tx_Status := to\<rparr>
      in deref (s_outbox s) (\<lambda>outbox.
         check (rcall (TR_UpdateStatus (s_txns s) OnTx ctx (tx_ID tx) to)) (wrapf ''set completed status: '')
         (check (rcall (MR_UpdateBalance (s_merchants s) OnTx ctx (tx_MerchantID tx) (tx_AmountCents tx)))
            (wrapf ''credit merchant balance: '')
         (check (rcall (ER_Create (s_events s) OnTx ctx
                   (tx_event (tx_ID tx) (status_event to) from to None completedAt)))
            (wrapf ''record transition event: '')
         (bind (transactionOutboxPayload completedTx []) (wrapf ''marshal completed outbox payload: '') (\<lambda>payload.
         check (rcall (OR_Create outbox OnTx ctx (outbox_event ''transaction.completed'' payload completedAt)))
            (wrapf ''record transition outbox event: '')
         return_nil))))))"

definition completeInDBTransaction ::
  "'db PaymentService \<Rightarrow> 'db sqlDB \<Rightarrow> go_context \<Rightarrow> Transaction \<Rightarrow> 'db world \<Rightarrow> (go_error option \<times> Transaction) \<times> 'db world" where
  "completeInDBTransaction s db ctx tx w =
     (case contextError ctx w of
        Some err \<Rightarrow> ((Some err, tx), w)
      | None \<Rightarrow>
          let from = tx_Status tx; to = TxStatusCompleted
          in if \<not> CanTransition from to then ((Some (invalid_transition from to), tx), w)
             else case withTransaction ctx db (complete_body s ctx tx (now (wenv w))) w of
                    (Some err, w1) \<Rightarrow> ((Some err, tx), w1)
                  | (None, w1) \<Rightarrow> ((None, tx\<lparr>tx_Status := to\<rparr>), w1))"

definition completeWithMocks ::
  "'db PaymentService \<Rightarrow> go_context \<Rightarrow> Transaction \<Rightarrow> 'db world \<Rightarrow> (go_error option \<times> Transaction) \<times> 'db world" where
  "completeWithMocks s ctx tx w =
     (case contextError ctx w of
        Some err \<Rightarrow> ((Some err, tx), w)
      | None \<Rightarrow>
          (case rcall (MR_UpdateBalance (s_merchants s) OnDB ctx (tx_MerchantID tx) (tx_AmountCents tx)) w of
             (Some err, w1) \<Rightarrow> ((Some (wrapf ''credit merchant balance: '' err), tx), w1)
           | (None, w1) \<Rightarrow>
               (case transition s ctx tx TxStatusCompleted w1 of
                  ((Some err, tx1), w2) \<Rightarrow>
                    (case rcall (MR_UpdateBalance (s_merchants s) OnDB ctx (tx_MerchantID tx) (- tx_AmountCents tx)) w2 of
                       (Some rollbackErr, w3) \<Rightarrow>
                         ((Some (Join err (wrapf ''rollback credited balance: '' rollbackErr)), tx1), w3)
                     | (None, w3) \<Rightarrow> ((Some err, tx1), w3))
                | ((None, tx1), w2) \<Rightarrow> ((None, tx1), w2))))"

definition completePayment ::
  "'db PaymentService \<Rightarrow> go_context \<Rightarrow> Transaction \<Rightarrow> 'db world \<Rightarrow> (go_error option \<times> Transaction) \<times> 'db world" where
  "completePayment s ctx tx w =
     (case s_db s of
        Some db \<Rightarrow> completeInDBTransaction s db ctx tx w
      | None \<Rightarrow> completeWithMocks s ctx tx w)"

section \<open>Charging\<close>

definition charge_request :: "Transaction \<Rightarrow> BankChargeRequest" where
  "charge_request tx = \<lparr>bq_TransactionID = tx_ID tx, bq_MerchantID = tx_MerchantID tx,
     bq_AmountCents = tx_AmountCents tx, bq_Currency = tx_Currency tx\<rparr>"

definition callBank ::
  "'db PaymentService \<Rightarrow> go_context \<Rightarrow> go_context \<Rightarrow> Transaction \<Rightarrow> 'db world \<Rightarrow> go_error option \<times> 'db world" where
  "callBank s parentCtx bankCtx tx w =
     (let req = charge_request tx
      in case Execute (Retry bankCtx (s_retry s)
                 (\<lambda>attemptCtx e. case s_bank s attemptCtx req e of ((_, err), e1) \<Rightarrow> (err, e1)))
               (wbreaker w) (wenv w) of
           (err, cb, e1) \<Rightarrow>
             (normalizeBankError parentCtx bankCtx err (now e1), w\<lparr>wbreaker := cb, wenv := e1\<rparr>))"

definition processPayment ::
  "'db PaymentService \<Rightarrow> go_context \<Rightarrow> Transaction \<Rightarrow> 'db world \<Rightarrow> (go_error option \<times> Transaction) \<times> 'db world" where
  "processPayment s ctx tx w =
     (case contextError ctx w of
        Some err \<Rightarrow> ((Some err, tx), w)
      | None \<Rightarrow>
          (case transition s ctx tx TxStatusProcessing w of
             ((Some err, tx1), w1) \<Rightarrow> ((Some (wrapf ''set processing status: '' err), tx1), w1)
           | ((None, tx1), w1) \<Rightarrow>
               let bankCtx = bankCallContext ctx (s_bankTimeout s) w1
               in case callBank s ctx bankCtx tx1 w1 of
                    (Some err, w2) \<Rightarrow>
                      (case transition s (postBankContext ctx) tx1 TxStatusFailed w2 of
                         ((Some transitionErr, tx2), w3) \<Rightarrow>
                           ((Some (Join err (wrapf ''set failed status: '' transitionErr)), tx2), w3)
                       | ((None, tx2), w3) \<Rightarrow> ((Some err, tx2), w3))
                  | (None, w2) \<Rightarrow> completePayment s (postBankContext ctx) tx1 w2))"

definition new_transaction :: "CreateTransactionInput \<Rightarrow> string \<Rightarrow> int \<Rightarrow> Transaction" where
  "new_transaction input i t = \<lparr>tx_ID = i, tx_MerchantID = in_MerchantID input,
     tx_AmountCents = in_AmountCents input, tx_Currency = in_Currency input, tx_Status = TxStatusPending,
     tx_IdempotencyKey = in_IdempotencyKey input, tx_Description = in_Description input,
     tx_Metadata = None, tx_CreatedAt = t, tx_UpdatedAt = t\<rparr>"

text \<open>The branches on \<open>s.db\<close> of \<open>CreateTransaction\<close> and of \<open>RefundTransaction\<close>.\<close>

definition persist :: "'db PaymentService \<Rightarrow> go_context \<Rightarrow> Transaction \<Rightarrow> 'db task" where
  "persist s ctx tx =
     (case s_db s of Some db \<Rightarrow> createInDBTransaction s db ctx tx | None \<Rightarrow> createWithMocks s ctx tx)"

text \<open>The second half of \<open>CreateTransaction\<close>: identifier, persistence, payment.\<close>

definition create_and_process ::
  "'db PaymentService \<Rightarrow> go_context \<Rightarrow> CreateTransactionInput \<Rightarrow> 'db world
    \<Rightarrow> (Transaction option \<times> go_error option) \<times> 'db world" where
  "create_and_process s ctx input w =
     (case generateTransactionID (wenv w) of
        (i, e1) \<Rightarrow>
          let tx = new_transaction input i (now (wenv w)); w1 = w\<lparr>wenv := e1\<rparr>
          in case persist s ctx tx w1 of
               (Some err, w2) \<Rightarrow> ((None, Some err), w2)
             | (None, w2) \<Rightarrow>
                 (case processPayment s ctx tx w2 of
                    ((Some err, tx1), w3) \<Rightarrow> ((Some tx1, Some err), w3)
                  | ((None, tx1), w3) \<Rightarrow> ((Some tx1, None), w3)))"

text \<open>The merchant lookup and the validation in between.\<close>

definition validate_and_create ::
  "'db PaymentService \<Rightarrow> go_context \<Rightarrow> CreateTransactionInput \<Rightarrow> 'db world
    \<Rightarrow> (Transaction option \<times> go_error option) \<times> 'db world" where
  "validate_and_create s ctx input w =
     (case rcall (MR_GetByID (s_merchants s) OnDB ctx (in_MerchantID input)) w of
        (Inl err, w1) \<Rightarrow> ((None, Some err), w1)
      | (Inr merchant, w1) \<Rightarrow>
          if \<not> IsActive merchant then ((None, Some (Sentinel ErrMerchantInactive)), w1)
          else if sint (in_AmountCents input) \<le> 0 then ((None, Some (Sentinel ErrInvalidAmount)), w1)
          else if sint (in_AmountCents input) > sint (s_maxTransactionCents s)
               then ((None, Some (Sentinel ErrAmountExceedsLimit)), w1)
          else if in_Currency input \<noteq> ''CAD'' \<and> in_Currency input \<noteq> ''USD''
               then ((None, Some (Sentinel ErrInvalidCurrency)), w1)
          else create_and_process s ctx input w1)"

definition CreateTransaction ::
  "'db PaymentService \<Rightarrow> go_context \<Rightarrow> CreateTransactionInput \<Rightarrow> 'db world
    \<Rightarrow> (Transaction option \<times> go_error option) \<times> 'db world" where
  "CreateTransaction s ctx input w =
     (case contextError ctx w of
        Some err \<Rightarrow> ((None, Some err), w)
      | None \<Rightarrow>
          if in_IdempotencyKey input \<noteq> [] then
            (case rcall (TR_GetByIdempotencyKey (s_txns s) OnDB ctx (in_IdempotencyKey input)) w of
               (Inl err, w1) \<Rightarrow> ((None, Some (wrapf ''idempotency check: '' err)), w1)
             | (Inr (Some existing), w1) \<Rightarrow>
                 if \<not> matchesIdempotentRequest existing input
                 then ((None, Some (Errorf [] (Sentinel ErrDuplicateTransaction)
                                      '': idempotency key reused with different request'')), w1)
                 else ((Some existing, None), w1)
             | (Inr None, w1) \<Rightarrow> validate_and_create s ctx input w1)
          else validate_and_create s ctx input w)"

section \<open>Reading\<close>

definition ownedTransaction ::
  "'db PaymentService \<Rightarrow> go_context \<Rightarrow> string \<Rightarrow> string \<Rightarrow> 'db world \<Rightarrow> (go_error + Transaction) \<times> 'db world" where
  "ownedTransaction s ctx merchantID txID w =
     (case rcall (TR_GetByID (s_txns s) OnDB ctx txID) w of
        (Inl err, w1) \<Rightarrow> (Inl err, w1)
      | (Inr tx, w1) \<Rightarrow>
          if tx_MerchantID tx \<noteq> merchantID then (Inl (Sentinel ErrTransactionNotFound), w1)
          else (Inr tx, w1))"

definition GetTransaction ::
  "'db PaymentService \<Rightarrow> go_context \<Rightarrow> string \<Rightarrow> string \<Rightarrow> 'db world \<Rightarrow> (go_error + Transaction) \<times> 'db world" where
  "GetTransaction s ctx merchantID i w = ownedTransaction s ctx merchantID i w"

definition GetMerchantBalance ::
  "'db PaymentService \<Rightarrow> go_context \<Rightarrow> string \<Rightarrow> 'db world \<Rightarrow> (go_error + Merchant) \<times> 'db world" where
  "GetMerchantBalance s ctx merchantID w = rcall (MR_GetByID (s_merchants s) OnDB ctx merchantID) w"

definition ListTransactions ::
  "'db PaymentService \<Rightarrow> go_context \<Rightarrow> string \<Rightarrow> ListParams \<Rightarrow> 'db world \<Rightarrow> (go_error + (Transaction list \<times> nat)) \<times> 'db world" where
  "ListTransactions s ctx merchantID params w = rcall (TR_ListByMerchant (s_txns s) OnDB ctx merchantID params) w"

definition GetTransactionHistory ::
  "'db PaymentService \<Rightarrow> go_context \<Rightarrow> string \<Rightarrow> string \<Rightarrow> 'db world \<Rightarrow> (go_error + TransactionEvent list) \<times> 'db world" where
  "GetTransactionHistory s ctx merchantID txID w =
     (case ownedTransaction s ctx merchantID txID w of
        (Inl err, w1) \<Rightarrow> (Inl err, w1)
      | (Inr _, w1) \<Rightarrow> rcall (ER_ListByTransaction (s_events s) OnDB ctx txID) w1)"

section \<open>Refunding\<close>

text \<open>The function literal that \<open>refundInDBTransaction\<close> runs in a transaction.\<close>

definition refund_body :: "'db PaymentService \<Rightarrow> go_context \<Rightarrow> Transaction \<Rightarrow> string \<Rightarrow> 'db task" where
  "refund_body s ctx tx reason =
     deref (s_outbox s) (\<lambda>outbox.
       check (rcall (TR_UpdateStatus (s_txns s) OnTx ctx (tx_ID tx) TxStatusRefunded)) (\<lambda>err. err)
       (check (rcall (MR_UpdateBalance (s_merchants s) OnTx ctx (tx_MerchantID tx) (- tx_AmountCents tx))) (\<lambda>err. err)
       (bind (marshalOutboxPayload [(''reason'', JString reason)]) (wrapf ''marshal refund payload: '') (\<lambda>payload.
       check (\<lambda>w. rcall (ER_Create (s_events s) OnTx ctx
                 (tx_event (tx_ID tx) ''REFUNDED'' TxStatusCompleted TxStatusRefunded payload (now (wenv w)))) w) (\<lambda>err. err)
       (bind (marshalOutboxPayload
                [(''transaction_id'', JString (tx_ID tx)), (''merchant_id'', JString (tx_MerchantID tx)),
                 (''amount_cents'', JNumber (sint (tx_AmountCents tx))),
                 (''status'', JString ''REFUNDED''), (''reason'', JString reason)])
          (wrapf ''marshal refunded outbox payload: '') (\<lambda>outboxPayload.
       \<lambda>w. rcall (OR_Create outbox OnTx ctx
              (outbox_event ''transaction.refunded'' outboxPayload (now (wenv w)))) w))))))"

definition refundInDBTransaction :: "'db PaymentService \<Rightarrow> 'db sqlDB \<Rightarrow> go_context \<Rightarrow> Transaction \<Rightarrow> string \<Rightarrow> 'db task" where
  "refundInDBTransaction s db ctx tx reason = withTransaction ctx db (refund_body s ctx tx reason)"

definition refundWithMocks :: "'db PaymentService \<Rightarrow> go_context \<Rightarrow> Transaction \<Rightarrow> string \<Rightarrow> 'db task" where
  "refundWithMocks s ctx tx reason =
     check (rcall (TR_UpdateStatus (s_txns s) OnDB ctx (tx_ID tx) TxStatusRefunded)) (\<lambda>err. err)
     (let tx = tx\<lparr>tx_Status := TxStatusRefunded\<rparr>
      in check (rcall (MR_UpdateBalance (s_merchants s) OnDB ctx (tx_MerchantID tx) (- tx_AmountCents tx))) (\<lambda>err. err)
         (bind (marshalOutboxPayload [(''reason'', JString reason)]) (wrapf ''marshal refund payload: '') (\<lambda>payload.
         check (\<lambda>w. rcall (ER_Create (s_events s) OnDB ctx
                   (tx_event (tx_ID tx) ''REFUNDED'' TxStatusCompleted TxStatusRefunded payload (now (wenv w)))) w) (\<lambda>err. err)
         (\<lambda>w. emitOutboxEvent s ctx ''transaction.refunded'' tx (now (wenv w)) [(''reason'', JString reason)] w))))"

definition refund :: "'db PaymentService \<Rightarrow> go_context \<Rightarrow> Transaction \<Rightarrow> string \<Rightarrow> 'db task" where
  "refund s ctx tx reason =
     (case s_db s of Some db \<Rightarrow> refundInDBTransaction s db ctx tx reason | None \<Rightarrow> refundWithMocks s ctx tx reason)"

definition RefundTransaction ::
  "'db PaymentService \<Rightarrow> go_context \<Rightarrow> string \<Rightarrow> string \<Rightarrow> string \<Rightarrow> 'db world \<Rightarrow> (go_error + Transaction) \<times> 'db world" where
  "RefundTransaction s ctx merchantID txID reason w =
     (case contextError ctx w of
        Some err \<Rightarrow> (Inl err, w)
      | None \<Rightarrow>
          (case ownedTransaction s ctx merchantID txID w of
             (Inl err, w1) \<Rightarrow> (Inl err, w1)
           | (Inr tx, w1) \<Rightarrow>
               if \<not> CanTransition (tx_Status tx) TxStatusRefunded
               then (Inl (Errorf [] (Sentinel ErrCannotRefund) ('': current status is '' @ tx_Status tx)), w1)
               else case refund s ctx tx reason w1 of
                      (Some err, w2) \<Rightarrow> (Inl err, w2)
                    | (None, w2) \<Rightarrow> (Inr (tx\<lparr>tx_Status := TxStatusRefunded\<rparr>), w2)))"

section \<open>Tasks that only use the store\<close>

text \<open>Every operation except the bank call leaves the breaker alone and sends no request.\<close>

definition wquiet :: "'db world \<Rightarrow> 'db world \<Rightarrow> bool" where
  "wquiet w w' \<longleftrightarrow> wbreaker w' = wbreaker w \<and> quiet (wenv w) (wenv w')"

definition calm :: "('db world \<Rightarrow> 'r \<times> 'db world) \<Rightarrow> bool" where
  "calm A \<longleftrightarrow> (\<forall>w. wquiet w (snd (A w)))"

lemma wquiet_refl [simp]: "wquiet w w"
  by (simp add: wquiet_def)

lemma wquiet_trans: "wquiet w w1 \<Longrightarrow> wquiet w1 w2 \<Longrightarrow> wquiet w w2"
  using sends_trans [of _ 0 "wenv w" "wenv w1" 0 "wenv w2"] by (auto simp: wquiet_def)

lemma calmD: "calm A \<Longrightarrow> A w = (r, w') \<Longrightarrow> wquiet w w'"
  by (metis calm_def snd_conv)

lemma wquiet_trace: "wquiet w w' \<Longrightarrow> trace (wenv w') = trace (wenv w) \<and> now (wenv w) \<le> now (wenv w')"
  by (auto simp: wquiet_def sends_def)

lemma calm_rcall [calm_intros]: "calm (rcall op)"
  by (auto simp: calm_def rcall_def wquiet_def split: prod.splits)

lemma calm_dep: "(\<And>w0. calm (A w0)) \<Longrightarrow> calm (\<lambda>w. A w w)"
  by (simp add: calm_def)

lemma calm_rcall_dep [calm_intros]: "calm (\<lambda>w. rcall (op w) w)"
  by (rule calm_dep) (rule calm_rcall)

lemma calm_pure [calm_intros]: "calm (\<lambda>w. (f w, w))" "calm return_nil"
  by (simp_all add: calm_def return_nil_def)

lemma calm_check [calm_intros]:
  assumes "calm A" and "calm B"
  shows "calm (check A f B)"
  unfolding calm_def
proof
  fix w
  obtain r w1 where a: "A w = (r, w1)" by (cases "A w")
  obtain r2 w2 where b: "B w1 = (r2, w2)" by (cases "B w1")
  show "wquiet w (snd (check A f B w))"
    using calmD [OF assms(1) a] wquiet_trans [OF calmD [OF assms(1) a] calmD [OF assms(2) b]]
    by (cases r) (simp_all add: check_def a b)
qed

lemma calm_bind [calm_intros]: "(\<And>v. calm (B v)) \<Longrightarrow> calm (bind x f B)"
  by (auto simp: calm_def bind_def split: sum.splits)

lemma calm_deref [calm_intros]: "(\<And>v. calm (B v)) \<Longrightarrow> calm (deref p B)"
  by (auto simp: calm_def deref_def split: option.splits)

lemma calm_withTransaction [calm_intros]:
  assumes "calm fn"
  shows "calm (withTransaction ctx db fn)"
  unfolding calm_def
proof
  fix w
  obtain r1 w1 where b: "rcall (BeginTx db ctx) w = (r1, w1)" by (cases "rcall (BeginTx db ctx) w")
  obtain r2 w2 where f: "fn w1 = (r2, w2)" by (cases "fn w1")
  obtain r3 w3 where rb: "rcall (Rollback db) w2 = (r3, w3)" by (cases "rcall (Rollback db) w2")
  obtain r4 w4 where c: "rcall (Commit db ctx) w2 = (r4, w4)" by (cases "rcall (Commit db ctx) w2")
  have q: "wquiet w w1" "wquiet w1 w2" "wquiet w2 w3" "wquiet w2 w4"
    using calmD [OF calm_rcall b] calmD [OF assms f] calmD [OF calm_rcall rb] calmD [OF calm_rcall c] by auto
  show "wquiet w (snd (withTransaction ctx db fn w))"
    using q by (cases r1; cases r2) (auto simp: withTransaction_def b f rb c intro: wquiet_trans)
qed

lemma calm_emitOutboxEvent [calm_intros]: "calm (emitOutboxEvent s ctx ty tx t extra)"
  using calm_rcall by (auto simp: calm_def emitOutboxEvent_def split: option.splits sum.splits)

lemma calm_emitOutboxEvent_dep [calm_intros]: "calm (\<lambda>w. emitOutboxEvent s ctx ty tx (t w) extra w)"
  by (rule calm_dep) (rule calm_emitOutboxEvent)

lemma calm_emitTransitionOutboxEvent [calm_intros]: "calm (emitTransitionOutboxEvent s ctx tx to)"
  using calm_emitOutboxEvent_dep [of s ctx _ tx "\<lambda>w. now (wenv w)" "[]"]
  by (auto simp: calm_def emitTransitionOutboxEvent_def)

lemma calm_rollbackTransition [calm_intros]: "calm (rollbackTransition s ctx tx from cause)"
proof -
  have "wquiet w (snd (rollbackTransition s ctx tx from cause w))" for w
    using calmD [OF calm_rcall, of "TR_UpdateStatus (s_txns s) OnDB ctx (tx_ID tx) from" w]
    by (auto simp: rollbackTransition_def split: prod.splits option.splits)
  then show ?thesis by (simp add: calm_def)
qed

lemma calm_record_transition [calm_intros]: "calm (record_transition s ctx tx to)"
  unfolding calm_def
proof
  fix w :: "'a world"
  let ?ev = "tx_event (tx_ID tx) (status_event to) (tx_Status tx) to None (now (wenv w))"
  obtain r1 w1 where ev: "rcall (ER_Create (s_events s) OnDB ctx ?ev) w = (r1, w1)"
    by (cases "rcall (ER_Create (s_events s) OnDB ctx ?ev) w")
  obtain r2 w2 where em: "emitTransitionOutboxEvent s ctx (tx\<lparr>tx_Status := to\<rparr>) to w1 = (r2, w2)"
    by (cases "emitTransitionOutboxEvent s ctx (tx\<lparr>tx_Status := to\<rparr>) to w1")
  have q1: "wquiet w w1" using calmD [OF calm_rcall ev] .
  have q2: "wquiet w w2" using q1 calmD [OF calm_emitTransitionOutboxEvent em] by (rule wquiet_trans)
  have rb: "wquiet w (snd (rollbackTransition s ctx tx (tx_Status tx) cause w'))" if "wquiet w w'" for cause w'
    using that calm_rollbackTransition [of s ctx tx "tx_Status tx" cause] by (auto simp: calm_def intro: wquiet_trans)
  show "wquiet w (snd (record_transition s ctx tx to w))"
    using q1 q2 rb by (cases r1; cases r2) (auto simp: record_transition_def Let_def ev em)
qed

lemma calm_transition [calm_intros]: "calm (transition s ctx tx to)"
  unfolding calm_def
proof
  fix w
  obtain r1 w1 where u: "rcall (TR_UpdateStatus (s_txns s) OnDB ctx (tx_ID tx) to) w = (r1, w1)"
    by (cases "rcall (TR_UpdateStatus (s_txns s) OnDB ctx (tx_ID tx) to) w")
  have q1: "wquiet w w1" using calmD [OF calm_rcall u] .
  then have q2: "wquiet w (snd (record_transition s ctx tx to w1))"
    using calm_record_transition [of s ctx tx to] by (auto simp: calm_def intro: wquiet_trans)
  show "wquiet w (snd (transition s ctx tx to w))"
    using q1 q2 by (cases "contextError ctx w"; cases r1) (auto simp: transition_def Let_def u)
qed

lemma calm_persist [calm_intros]: "calm (persist s ctx tx)"
  by (auto simp: persist_def createInDBTransaction_def create_body_def createWithMocks_def split: option.splits intro!: calm_intros)

lemma calm_refund [calm_intros]: "calm (refund s ctx tx reason)"
  by (auto simp: refund_def refundInDBTransaction_def refund_body_def refundWithMocks_def Let_def split: option.splits intro!: calm_intros)

lemma calm_complete_body [calm_intros]: "calm (complete_body s ctx tx t)"
  by (auto simp: complete_body_def Let_def intro!: calm_intros)

lemma calm_completePayment [calm_intros]: "calm (completePayment s ctx tx)"
  unfolding calm_def
proof
  fix w
  let ?add = "\<lambda>a. rcall (MR_UpdateBalance (s_merchants s) OnDB ctx (tx_MerchantID tx) a)"
  obtain r1 w1 where u: "?add (tx_AmountCents tx) w = (r1, w1)" by (cases "?add (tx_AmountCents tx) w")
  obtain r2 tx2 w2 where t: "transition s ctx tx TxStatusCompleted w1 = ((r2, tx2), w2)"
    by (metis surj_pair)
  obtain r3 w3 where v: "?add (- tx_AmountCents tx) w2 = (r3, w3)" by (cases "?add (- tx_AmountCents tx) w2")
  have q1: "wquiet w w1" using calmD [OF calm_rcall u] .
  have q2: "wquiet w w2" using q1 calmD [OF calm_transition t] by (rule wquiet_trans)
  have q3: "wquiet w w3" using q2 calmD [OF calm_rcall v] by (rule wquiet_trans)
  have "wquiet w (snd (completeWithMocks s ctx tx w))"
    using q1 q2 q3 by (cases r1; cases r2; cases r3) (auto simp: completeWithMocks_def u t v split: option.splits)
  moreover have "wquiet w (snd (completeInDBTransaction s db ctx tx w))" for db
    using calmD [OF calm_withTransaction [OF calm_complete_body], of ctx db s ctx tx "now (wenv w)" w]
    by (auto simp: completeInDBTransaction_def Let_def split: option.splits prod.splits)
  ultimately show "wquiet w (snd (completePayment s ctx tx w))"
    by (auto simp: completePayment_def split: option.splits)
qed

section \<open>Properties\<close>

lemma hex_digit_inj: "m < 16 \<Longrightarrow> n < 16 \<Longrightarrow> hex_digit m = hex_digit n \<Longrightarrow> m = n"
proof -
  have "distinct ''0123456789abcdef''" by simp
  then show "m < 16 \<Longrightarrow> n < 16 \<Longrightarrow> hex_digit m = hex_digit n \<Longrightarrow> m = n"
    unfolding hex_digit_def by (subst (asm) nth_eq_iff_index_eq) simp_all
qed

lemma length_hex_digits [simp]: "length (hex_digits k n) = k"
  by (induction k arbitrary: n) simp_all

lemma hex_digits_inj: "m < 16 ^ k \<Longrightarrow> n < 16 ^ k \<Longrightarrow> hex_digits k m = hex_digits k n \<Longrightarrow> m = n"
proof (induction k arbitrary: m n)
  case (Suc k)
  have "m mod 16 = n mod 16" using Suc.prems(3) by (intro hex_digit_inj) auto
  moreover have "m div 16 < 16 ^ k" "n div 16 < 16 ^ k" using Suc.prems(1,2) by (simp_all add: less_mult_imp_div_less)
  with Suc.IH [of "m div 16" "n div 16"] Suc.prems(3) have "m div 16 = n div 16" by simp
  ultimately show ?case by (metis div_mult_mod_eq)
qed simp

text \<open>A generated transaction identifier is \<open>tx_\<close> with 16 hexadecimal digits, and two identifiers are
  equal only if the 64 random bits are: the encoding loses nothing.\<close>

theorem generateTransactionID_injective:
  assumes "csprng e (steps e) = Some a" and "csprng e' (steps e') = Some b"
  shows "length (fst (generateTransactionID e)) = 19
    \<and> (fst (generateTransactionID e) = fst (generateTransactionID e') \<longleftrightarrow> a = b)"
proof -
  have "unat (x :: 64 word) < 16 ^ 16" for x using unsigned_less [of x] by (simp add: nat_less_iff)
  with hex_digits_inj [of "unat a" 16 "unat b"] have "hex_digits 16 (unat a) = hex_digits 16 (unat b) \<longleftrightarrow> a = b"
    by (metis unsigned_word_eqI)
  then show ?thesis using assms by (simp add: generateTransactionID_def Let_def del: hex_digits.simps)
qed

lemma generateTransactionID_injective_witness:
  "fst (generateTransactionID bank_env_sample) \<noteq> fst (generateTransactionID (tick bank_env_sample))"
  using generateTransactionID_injective [of bank_env_sample 0 "tick bank_env_sample" 1] by (simp add: bank_env_sample_def)

text \<open>\<open>normalizeBankError\<close> turns an error into an error and nothing else into one. It answers for the
  client's context only when that context is done (with the same cause), and a deadline of the bank
  call alone is \<open>ErrBankTimeout\<close>; every other error is passed on.\<close>

theorem normalizeBankError_blame:
  assumes "parentCtx \<noteq> NilContext" and "bankCtx \<noteq> NilContext"
  shows "normalizeBankError parentCtx bankCtx None t = None
    \<and> (\<exists>res. normalizeBankError parentCtx bankCtx (Some err) t = Some res
        \<and> (res \<noteq> err \<longrightarrow>
             res = Sentinel Canceled \<and> err_is (ctx_Err parentCtx t) Canceled \<and> errors_Is err Canceled
           \<or> res = Sentinel DeadlineExceeded \<and> err_is (ctx_Err parentCtx t) DeadlineExceeded \<and> errors_Is err DeadlineExceeded
           \<or> res = Sentinel ErrBankTimeout \<and> err_is (ctx_Err bankCtx t) DeadlineExceeded \<and> errors_Is err DeadlineExceeded)
        \<and> (ctx_Err parentCtx t = None \<and> err_is (ctx_Err bankCtx t) DeadlineExceeded \<and> errors_Is err DeadlineExceeded
            \<longrightarrow> res = Sentinel ErrBankTimeout))"
  using assms by (cases "ctx_Err parentCtx t") (auto simp: normalizeBankError_def)

lemma normalizeBankError_blame_witness:
  "normalizeBankError Background (WithTimeout Background 10 0) (Some (wrapf ''x: '' (Sentinel DeadlineExceeded))) 10
     = Some (Sentinel ErrBankTimeout)"
proof -
  let ?b = "WithTimeout Background 10 0"
  have "Background \<noteq> NilContext" "?b \<noteq> NilContext" by (simp_all add: Background_def)
  from normalizeBankError_blame [OF this, of 10 "wrapf ''x: '' (Sentinel DeadlineExceeded)"]
  show ?thesis by (auto simp: Background_def)
qed

end
