(* ===== verification/Payflow_Float.thy ===== *)
theory Payflow_Float
  imports Complex_Main Payflow_Runtime
begin

text \<open>
  Go's \<open>float64\<close> arithmetic on finite values, as rational numbers: every operation is exact arithmetic
  followed by \<open>fl\<close>, the rounding to 53 significant bits, ties to even. The range of the exponent is
  left out: the values the program computes are zero or lie between \<open>10\<^sup>-\<^sup>1\<^sup>6\<close> and \<open>10\<^sup>4\<^sup>0\<close>. The
  lemmas bound the error and say when \<open>fl\<close> is the identity.
\<close>

section \<open>Rounding\<close>

definition floor_log2 :: "rat \<Rightarrow> int" where
  "floor_log2 x =
     (case quotient_of x of (p, q) \<Rightarrow>
        let k = int (bit_length (nat p)) - int (bit_length (nat q)) in if 2 powi k \<le> x then k else k - 1)"

definition round_even :: "rat \<Rightarrow> int" where
  "round_even y =
     (let n = \<lfloor>y\<rfloor>; r = y - of_int n in if 1 / 2 < r \<or> r = 1 / 2 \<and> odd n then n + 1 else n)"

definition fl :: "rat \<Rightarrow> rat" where
  "fl x = (if x = 0 then 0
           else let e = floor_log2 \<bar>x\<bar> - 52 in of_int (round_even (x / 2 powi e)) * 2 powi e)"

text \<open>\<open>Duration.Seconds()\<close>.\<close>

definition Seconds :: "int \<Rightarrow> rat" where
  "Seconds d = fl (fl (of_int (d div 1000000000)) + fl (fl (of_int (d mod 1000000000)) / 1000000000))"

section \<open>Lemmas\<close>

lemma bit_length_bounds: "0 < n \<Longrightarrow> 2 ^ (bit_length n - 1) \<le> n \<and> n < 2 ^ bit_length n \<and> 0 < bit_length n"
proof (induction n rule: bit_length.induct)
  case (1 n)
  show ?case
  proof (cases "n div 2 = 0")
    case True
    then have "n = 1" using 1(2) by presburger
    then show ?thesis by (simp add: bit_length.simps)
  next
    case False
    let ?b = "bit_length (n div 2)"
    have ih: "2 ^ (?b - 1) \<le> n div 2" "n div 2 < 2 ^ ?b" "0 < ?b" using 1 False by auto
    then have "2 * 2 ^ (?b - 1) \<le> n" "n < 2 * 2 ^ ?b" by presburger+
    moreover have "(2::nat) * 2 ^ (?b - 1) = 2 ^ ?b" using ih(3) by (cases ?b) auto
    ultimately show ?thesis using 1(2) by (simp add: bit_length.simps [of n])
  qed
qed

lemma rat_nat_bounds:
  assumes "0 < p" and "2 ^ a \<le> nat p" and "nat p < 2 ^ b"
  shows "(2::rat) ^ a \<le> of_int p" and "(of_int p :: rat) < 2 ^ b"
proof -
  have "of_nat (2 ^ a) \<le> (of_nat (nat p) :: rat)" "of_nat (nat p) < (of_nat (2 ^ b) :: rat)"
    using assms(2,3) by (simp_all only: of_nat_le_iff of_nat_less_iff)
  moreover have "(of_nat (nat p) :: rat) = of_int p" using assms(1) by (simp add: of_nat_nat)
  ultimately show "(2::rat) ^ a \<le> of_int p" "(of_int p :: rat) < 2 ^ b" by simp_all
qed

lemma floor_log2: "0 < x \<Longrightarrow> 2 powi floor_log2 x \<le> x \<and> x < 2 powi (floor_log2 x + 1)"
proof -
  assume x: "0 < x"
  obtain p q where pq: "quotient_of x = (p, q)" by (cases "quotient_of x")
  have q: "0 < q" and xpq: "x = of_int p / of_int q"
    using quotient_of_denom_pos [OF pq] quotient_of_div [OF pq] by auto
  then have p: "0 < p" using x by (simp add: zero_less_divide_iff)
  let ?bp = "bit_length (nat p)" and ?bq = "bit_length (nat q)"
  have bp: "2 ^ (?bp - 1) \<le> nat p" "nat p < 2 ^ ?bp" "0 < ?bp"
    and bq: "2 ^ (?bq - 1) \<le> nat q" "nat q < 2 ^ ?bq" "0 < ?bq"
    using bit_length_bounds [of "nat p"] bit_length_bounds [of "nat q"] p q by auto
  note rp = rat_nat_bounds [OF p bp(1,2)] and rq = rat_nat_bounds [OF q bq(1,2)]
  let ?k = "int ?bp - int ?bq"
  have "x < 2 ^ ?bp / 2 ^ (?bq - 1)"
    unfolding xpq using rp(2) rq(1) p q by (intro frac_less) (auto simp: order_less_imp_le)
  also have "\<dots> = 2 powi (int ?bp - int (?bq - 1))" by (simp add: power_int_diff)
  also have "int ?bp - int (?bq - 1) = ?k + 1" using bq(3) by (simp add: of_nat_diff)
  finally have up: "x < 2 powi (?k + 1)" .
  have "(2::rat) powi (?k - 1) = 2 powi (int (?bp - 1) - int ?bq)" using bp(3) by (simp add: of_nat_diff algebra_simps)
  also have "\<dots> = 2 ^ (?bp - 1) / 2 ^ ?bq" by (simp add: power_int_diff)
  also have "\<dots> < x"
    unfolding xpq using rp(1) rq(2) p q by (intro frac_less2) (auto simp: order_less_imp_le)
  finally have low: "2 powi (?k - 1) < x" .
  have "floor_log2 x = (if 2 powi ?k \<le> x then ?k else ?k - 1)" by (simp add: floor_log2_def pq Let_def)
  then show ?thesis using up low by (auto simp: not_le)
qed

lemma floor_log2_unique:
  assumes "2 powi k \<le> x" and "x < 2 powi (k + 1)"
  shows "floor_log2 x = k"
proof -
  have "0 < x" using assms(1) by (meson less_le_trans zero_less_numeral zero_less_power_int)
  from floor_log2 [OF this] assms have "2 powi floor_log2 x < (2::rat) powi (k + 1)" "2 powi k < (2::rat) powi (floor_log2 x + 1)"
    by linarith+
  then have "\<not> k + 1 \<le> floor_log2 x" "\<not> floor_log2 x + 1 \<le> k"
    using power_int_increasing [of _ _ "2 :: rat"] by (simp_all add: not_le [symmetric]) (metis not_le one_le_numeral)+
  then show ?thesis by simp
qed

lemma round_even_int [simp]: "round_even (of_int n) = n"
  by (simp add: round_even_def Let_def)

lemma round_even_error: "\<bar>of_int (round_even y) - y\<bar> \<le> 1 / 2"
  using of_int_floor_le [of y] floor_correct [of y] by (auto simp: round_even_def Let_def abs_le_iff)

lemma round_even_mono: "x \<le> y \<Longrightarrow> round_even x \<le> round_even y"
proof -
  assume xy: "x \<le> y"
  then have f: "\<lfloor>x\<rfloor> \<le> \<lfloor>y\<rfloor>" by (rule floor_mono)
  show ?thesis
  proof (cases "\<lfloor>x\<rfloor> = \<lfloor>y\<rfloor>")
    case True
    then show ?thesis using xy by (auto simp: round_even_def Let_def)
  next
    case False
    then show ?thesis using f by (auto simp: round_even_def Let_def)
  qed
qed

lemma fl_0 [simp]: "fl 0 = 0"
  by (simp add: fl_def)

lemma fl_error:
  assumes "0 \<le> x"
  shows "\<bar>fl x - x\<bar> \<le> x / 2 ^ 53"
proof (cases "x = 0")
  case False
  then have x: "0 < x" using assms by simp
  let ?e = "floor_log2 x - 52"
  have p: "(0::rat) < 2 powi ?e" by simp
  have "fl x - x = (of_int (round_even (x / 2 powi ?e)) - x / 2 powi ?e) * 2 powi ?e"
    using x by (simp add: fl_def Let_def left_diff_distrib)
  then have "\<bar>fl x - x\<bar> = \<bar>of_int (round_even (x / 2 powi ?e)) - x / 2 powi ?e\<bar> * 2 powi ?e"
    using p by (simp add: abs_mult)
  also have "\<dots> \<le> 1 / 2 * 2 powi ?e" using round_even_error p by (intro mult_right_mono) auto
  also have "\<dots> = 2 powi floor_log2 x / 2 ^ 53" by (simp add: power_int_diff)
  also have "\<dots> \<le> x / 2 ^ 53" using floor_log2 [OF x] by (simp add: divide_right_mono)
  finally show ?thesis .
qed simp

lemma fl_nonneg: "0 \<le> x \<Longrightarrow> 0 \<le> fl x"
proof -
  assume x: "0 \<le> x"
  from fl_error [OF this] have "x - x / 2 ^ 53 \<le> fl x" by linarith
  moreover have "0 \<le> x - x / 2 ^ 53" using x by (simp add: field_simps)
  ultimately show ?thesis by linarith
qed

lemma fl_le: "0 \<le> x \<Longrightarrow> fl x \<le> x * (1 + 1 / 2 ^ 53)"
  using abs_le_D1 [OF fl_error [of x]] by (simp add: field_simps)

text \<open>The values a \<open>float64\<close> can have.\<close>

definition representable :: "rat \<Rightarrow> bool" where
  "representable x \<longleftrightarrow> (\<exists>m e :: int. 0 \<le> m \<and> m \<le> 2 ^ 53 \<and> x = of_int m * 2 powi e)"

lemma representable_of_int: "0 \<le> n \<Longrightarrow> n \<le> 2 ^ 53 \<Longrightarrow> representable (of_int n)"
  unfolding representable_def by (intro exI [of _ n] exI [of _ 0]) simp

lemma representable_nonneg: "representable x \<Longrightarrow> 0 \<le> x"
  by (auto simp: representable_def)

lemma fl_representable: "0 \<le> x \<Longrightarrow> representable (fl x)"
proof (cases "x = 0")
  case False
  assume "0 \<le> x"
  then have x: "0 < x" using False by simp
  let ?e = "floor_log2 x - 52"
  let ?y = "x / 2 powi ?e"
  have p: "(0::rat) < 2 powi ?e" by simp
  have "2 ^ 52 * 2 powi ?e \<le> x" "x < 2 ^ 53 * 2 powi ?e"
    using floor_log2 [OF x] by (simp_all add: power_int_diff power_int_add)
  then have "of_int (2 ^ 52) \<le> ?y" "?y \<le> of_int (2 ^ 53)"
    using p by (simp_all add: pos_le_divide_eq pos_divide_le_eq)
  from this [THEN round_even_mono] have "2 ^ 52 \<le> round_even ?y" "round_even ?y \<le> 2 ^ 53" by (simp_all only: round_even_int)
  moreover have "fl x = of_int (round_even ?y) * 2 powi ?e" using x by (simp add: fl_def Let_def)
  ultimately show ?thesis unfolding representable_def by (intro exI [of _ "round_even ?y"] exI [of _ ?e]) simp
qed (simp add: representable_of_int [of 0, simplified])

lemma fl_exact: "representable x \<Longrightarrow> fl x = x"
proof (cases "x = 0")
  case False
  assume "representable x"
  then obtain m e :: int where m: "0 \<le> m" "m \<le> 2 ^ 53" "x = of_int m * 2 powi e" by (auto simp: representable_def)
  then have x: "0 < x" and m0: "0 < m" using False by (auto simp: order_less_le)
  let ?L = "floor_log2 x"
  have "\<exists>n :: int. x / 2 powi (?L - 52) = of_int n"
  proof (cases "?L - 52 \<le> e")
    case True
    then have "(2::rat) powi (e - (?L - 52)) = of_int (2 ^ nat (e - (?L - 52)))" by (simp add: power_int_def)
    moreover have "x / 2 powi (?L - 52) = of_int m * 2 powi (e - (?L - 52))"
      using power_int_diff [of "2 :: rat" e "?L - 52"] by (simp add: m(3))
    ultimately have "x / 2 powi (?L - 52) = of_int (m * 2 ^ nat (e - (?L - 52)))" by simp
    then show ?thesis by blast
  next
    case False
    then have "(2::rat) powi 53 \<le> 2 powi (?L - e)" by (intro power_int_increasing) auto
    also have "\<dots> \<le> of_int m"
      using floor_log2 [OF x] unfolding m(3) by (simp add: power_int_diff divide_le_eq)
    finally have "(of_int (2 ^ 53) :: rat) \<le> of_int m" by simp
    then have "m = 2 ^ 53" using m(2) by linarith
    then have "x = 2 powi (e + 53)" by (simp add: m(3) power_int_add)
    then have "?L = e + 53" using floor_log2_unique [of "e + 53" x] by (simp add: power_int_add)
    then have "x / 2 powi (?L - 52) = of_int (2 ^ 52)" by (simp add: \<open>x = 2 powi (e + 53)\<close> power_int_add)
    then show ?thesis by blast
  qed
  then obtain n :: int where n: "x / 2 powi (?L - 52) = of_int n" by blast
  have "fl x = of_int n * 2 powi (?L - 52)" using x by (simp add: fl_def Let_def n)
  also have "\<dots> = x" by (simp flip: n)
  finally show ?thesis .
qed simp

text \<open>Taking a token away is exact.\<close>

lemma representable_minus_one:
  assumes "representable t" and "1 \<le> t" and "t \<le> 2 ^ 53"
  shows "representable (t - 1)"
proof -
  obtain m e :: int where m: "0 \<le> m" "m \<le> 2 ^ 53" "t = of_int m * 2 powi e" using assms(1) by (auto simp: representable_def)
  show ?thesis
  proof (cases "0 \<le> e")
    case True
    then have t: "t = of_int (m * 2 ^ nat e)" by (simp add: m(3) power_int_def)
    then have "1 \<le> m * 2 ^ nat e" "m * 2 ^ nat e \<le> 2 ^ 53"
      using assms(2,3) by (metis of_int_1_le_iff, metis of_int_le_iff of_int_numeral of_int_power)
    then have "representable (of_int (m * 2 ^ nat e - 1))" by (intro representable_of_int) auto
    then show ?thesis by (simp add: t)
  next
    case False
    let ?k = "2 ^ nat (- e) :: int"
    have one: "(1::rat) = of_int ?k * 2 powi e" using False by (simp add: power_int_def power_one_over)
    then have "t - 1 = of_int (m - ?k) * 2 powi e" by (simp add: m(3) left_diff_distrib)
    moreover from this assms(2) have "0 \<le> m - ?k"
      by (metis diff_ge_0_iff_ge mult_less_0_iff not_less of_int_less_0_iff zero_less_numeral zero_less_power_int)
    moreover have "m - ?k \<le> 2 ^ 53" using m(2) by (smt (verit) zero_le_power)
    ultimately show ?thesis unfolding representable_def by blast
  qed
qed

lemma fl_minus_one: "representable t \<Longrightarrow> 1 \<le> t \<Longrightarrow> t \<le> 2 ^ 53 \<Longrightarrow> fl (t - 1) = t - 1"
  by (simp add: fl_exact representable_minus_one)

lemma fl_of_int: "0 \<le> n \<Longrightarrow> n \<le> 2 ^ 53 \<Longrightarrow> fl (of_int n) = of_int n"
  by (simp add: fl_exact representable_of_int)

text \<open>A chain of rounded operations: each costs a factor \<open>1 + 2\<^sup>-\<^sup>5\<^sup>3\<close>.\<close>

abbreviation ulp1 :: rat where "ulp1 \<equiv> 1 + 1 / 2 ^ 53"

lemma Seconds_bounds:
  assumes "0 \<le> d" and "d < 2 ^ 63"
  shows "0 \<le> Seconds d" and "Seconds d \<le> of_int d / 1000000000 * ulp1 ^ 2"
proof -
  let ?s = "of_int (d div 1000000000) :: rat" and ?n = "of_int (d mod 1000000000) :: rat"
  have s: "0 \<le> d div 1000000000" "d div 1000000000 \<le> 2 ^ 53" using assms by auto
  have n: "0 \<le> d mod 1000000000" "d mod 1000000000 \<le> 2 ^ 53" by (simp_all add: order_trans [OF order_less_imp_le [OF pos_mod_bound]])
  have q: "0 \<le> ?n / 1000000000" using n by simp
  have sec: "Seconds d = fl (?s + fl (?n / 1000000000))" unfolding Seconds_def fl_of_int [OF s] fl_of_int [OF n] ..
  have q': "0 \<le> ?s + fl (?n / 1000000000)" using fl_nonneg [OF q] s by simp
  then show "0 \<le> Seconds d" unfolding sec by (rule fl_nonneg)
  have "?s \<le> ?s * ulp1" using s by (simp add: field_simps)
  then have "?s + fl (?n / 1000000000) \<le> (?s + ?n / 1000000000) * ulp1" using fl_le [OF q] by (simp add: distrib_right)
  moreover have "?s + ?n / 1000000000 = of_int d / 1000000000"
  proof -
    have "(of_int d :: rat) = of_int (d div 1000000000 * 1000000000 + d mod 1000000000)" by (simp only: div_mult_mod_eq)
    also have "\<dots> = ?s * 1000000000 + ?n" by (simp only: of_int_add of_int_mult of_int_numeral)
    finally show ?thesis by (simp add: add_divide_distrib)
  qed
  ultimately have "?s + fl (?n / 1000000000) \<le> of_int d / 1000000000 * ulp1" by simp
  then have "(?s + fl (?n / 1000000000)) * ulp1 \<le> of_int d / 1000000000 * ulp1 * ulp1" by (intro mult_right_mono) auto
  with fl_le [OF q'] show "Seconds d \<le> of_int d / 1000000000 * ulp1 ^ 2" unfolding sec power2_eq_square by (simp only: mult.assoc)
qed

end
