(* ===== verification/Payflow_Limiter.thy ===== *)
theory Payflow_Limiter
  imports Payflow_Float
begin

text \<open>
  The token buckets of the program: \<open>TokenBucket\<close> (\<open>internal/concurrency/patterns.go\<close>) and
  \<open>RateLimiter\<close> (\<open>internal/middleware/middleware.go\<close>), with their \<open>float64\<close> arithmetic. The locale
  \<open>limiter\<close> says what a bucket's level does in a call; from it follows how many requests a client can
  get through in a window of time. A call is atomic (it holds the mutex) and is given the time.
\<close>

section \<open>\<open>TokenBucket\<close>\<close>

record TokenBucket =
  tb_tokens :: rat
  tb_maxTokens :: rat
  tb_rate :: rat
  tb_lastCheck :: int

definition NewTokenBucket :: "rat \<Rightarrow> rat \<Rightarrow> int \<Rightarrow> TokenBucket" where
  "NewTokenBucket rate burst t = \<lparr>tb_tokens = burst, tb_maxTokens = burst, tb_rate = rate, tb_lastCheck = t\<rparr>"

definition TokenBucket_Allow :: "int \<Rightarrow> TokenBucket \<Rightarrow> bool \<times> TokenBucket" where
  "TokenBucket_Allow t tb =
     (let elapsed = Seconds (t - tb_lastCheck tb);
          tokens = fl (tb_tokens tb + fl (elapsed * tb_rate tb));
          tokens = (if tokens > tb_maxTokens tb then tb_maxTokens tb else tokens)
      in if tokens < 1 then (False, tb\<lparr>tb_tokens := tokens, tb_lastCheck := t\<rparr>)
         else (True, tb\<lparr>tb_tokens := fl (tokens - 1), tb_lastCheck := t\<rparr>))"

section \<open>\<open>RateLimiter\<close>\<close>

record bucket =
  bu_tokens :: rat
  bu_lastCheck :: int

record RateLimiter =
  rl_buckets :: "string \<rightharpoonup> bucket"
  rl_rate :: int
  rl_burst :: int

definition NewRateLimiter :: "int \<Rightarrow> int \<Rightarrow> RateLimiter" where
  "NewRateLimiter rps burst = \<lparr>rl_buckets = Map.empty, rl_rate = rps, rl_burst = burst\<rparr>"

definition RateLimiter_Allow :: "string \<Rightarrow> int \<Rightarrow> RateLimiter \<Rightarrow> bool \<times> RateLimiter" where
  "RateLimiter_Allow key t rl =
     (let burst = fl (of_int (rl_burst rl));
          b = (case rl_buckets rl key of None \<Rightarrow> \<lparr>bu_tokens = burst, bu_lastCheck = t\<rparr> | Some b \<Rightarrow> b);
          elapsed = Seconds (t - bu_lastCheck b);
          tokens = fl (bu_tokens b + fl (elapsed * fl (of_int (rl_rate rl))));
          tokens = (if tokens > burst then burst else tokens)
      in if tokens < 1
         then (False, rl\<lparr>rl_buckets := (rl_buckets rl)(key \<mapsto> \<lparr>bu_tokens = tokens, bu_lastCheck = t\<rparr>)\<rparr>)
         else (True, rl\<lparr>rl_buckets := (rl_buckets rl)(key \<mapsto> \<lparr>bu_tokens = fl (tokens - 1), bu_lastCheck = t\<rparr>)\<rparr>))"

section \<open>The interface\<close>

text \<open>
  The calls of one client are those with \<open>mine\<close>. \<open>level\<close> is the content of the client's bucket,
  \<open>seen\<close> the time of its latest call, if any. A call takes a token if it is allowed, and adds what the
  elapsed time is worth, up to the rounding errors: a factor \<open>ulp1\<^sup>4\<close> and \<open>2\<^sup>-\<^sup>5\<^sup>3\<close> of the capacity.
\<close>

definition earned :: "rat \<Rightarrow> int \<Rightarrow> rat" where
  "earned rate d = rate * (of_int d / 1000000000) * ulp1 ^ 4"

definition slack :: "rat \<Rightarrow> rat" where
  "slack cap = cap / 2 ^ 53"

fun allowed_calls :: "('c \<Rightarrow> 's \<Rightarrow> bool \<times> 's) \<Rightarrow> ('c \<Rightarrow> bool) \<Rightarrow> 'c list \<Rightarrow> 's \<Rightarrow> nat" where
  "allowed_calls allow mine [] s = 0"
| "allowed_calls allow mine (c # cs) s =
     (case allow c s of (b, s') \<Rightarrow> (if mine c \<and> b then 1 else 0) + allowed_calls allow mine cs s')"

fun run_calls :: "('c \<Rightarrow> 's \<Rightarrow> bool \<times> 's) \<Rightarrow> 'c list \<Rightarrow> 's \<Rightarrow> 's" where
  "run_calls allow [] s = s"
| "run_calls allow (c # cs) s = run_calls allow cs (snd (allow c s))"

locale limiter =
  fixes allow :: "'c \<Rightarrow> 's \<Rightarrow> bool \<times> 's" and tm :: "'c \<Rightarrow> int" and mine :: "'c \<Rightarrow> bool"
    and level :: "'s \<Rightarrow> rat" and seen :: "'s \<Rightarrow> int option" and good :: "'s \<Rightarrow> bool" and rate cap :: rat
  assumes level_bounds: "good s \<Longrightarrow> 0 \<le> rate \<and> 0 \<le> level s \<and> level s \<le> cap"
    and other: "\<not> mine c \<Longrightarrow> allow c s = (b, s') \<Longrightarrow> good s \<Longrightarrow> good s' \<and> level s' = level s \<and> seen s' = seen s"
    and call_keeps: "mine c \<Longrightarrow> allow c s = (b, s') \<Longrightarrow> good s \<Longrightarrow> (case seen s of None \<Rightarrow> True | Some l \<Rightarrow> l \<le> tm c \<and> tm c < l + 2 ^ 63)
        \<Longrightarrow> good s' \<and> seen s' = Some (tm c) \<and> level s' + of_bool b \<le> cap"
    and call_level: "mine c \<Longrightarrow> allow c s = (b, s') \<Longrightarrow> good s \<Longrightarrow> seen s = Some l \<Longrightarrow> l \<le> tm c \<Longrightarrow> tm c < l + 2 ^ 63
        \<Longrightarrow> level s' + of_bool b \<le> level s + earned rate (tm c - l) + slack cap"
begin

lemma earned_mono: "good s \<Longrightarrow> d \<le> d' \<Longrightarrow> earned rate d \<le> earned rate d'"
  unfolding earned_def using level_bounds [of s] by (intro mult_right_mono mult_left_mono divide_right_mono) auto

lemma earned_add: "earned rate (a + b) = earned rate a + earned rate b"
  by (simp add: earned_def add_divide_distrib algebra_simps)

text \<open>From a state in which the bucket was last used at \<open>l\<close>.\<close>

lemma allowed_since:
  assumes "good s" and "seen s = Some l" and "sorted (map tm cs)" and "\<forall>c \<in> set cs. l \<le> tm c \<and> tm c \<le> u" and "u < l + 2 ^ 63" and "l \<le> u"
  shows "of_nat (allowed_calls allow mine cs s) \<le> level s + earned rate (u - l) + of_nat (length (filter mine cs)) * slack cap"
  using assms
proof (induction cs arbitrary: s l)
  case Nil
  then show ?case using level_bounds [of s] earned_mono [of s 0 "u - l"] by (simp add: earned_def)
next
  case (Cons c cs)
  obtain b s' where a: "allow c s = (b, s')" by (cases "allow c s")
  show ?case
  proof (cases "mine c")
    case False
    from other [OF this a Cons.prems(1)] Cons.IH [of s' l] Cons.prems a False show ?thesis by simp
  next
    case True
    have c: "l \<le> tm c" "tm c < l + 2 ^ 63" "tm c \<le> u" using Cons.prems(4,5) by auto
    have s': "good s'" "seen s' = Some (tm c)"
      using call_keeps [OF True a Cons.prems(1)] Cons.prems(2) c by auto
    have "of_nat (allowed_calls allow mine cs s') \<le> level s' + earned rate (u - tm c) + of_nat (length (filter mine cs)) * slack cap"
      using Cons.IH [OF s'] Cons.prems(3-6) c by auto
    moreover have "level s' + of_bool b \<le> level s + earned rate (tm c - l) + slack cap"
      by (rule call_level [OF True a Cons.prems(1,2) c(1,2)])
    moreover have "earned rate (u - l) = earned rate (tm c - l) + earned rate (u - tm c)"
      by (simp flip: earned_add)
    ultimately show ?thesis using True a by (cases b) (simp_all add: distrib_right)
  qed
qed

lemma allowed_window:
  assumes "good s" and "case seen s of None \<Rightarrow> True | Some l \<Rightarrow> l \<le> t0 \<and> u < l + 2 ^ 63" and "sorted (map tm cs)"
    and "\<forall>c \<in> set cs. t0 \<le> tm c \<and> tm c \<le> u" and "u < t0 + 2 ^ 63" and "t0 \<le> u"
  shows "of_nat (allowed_calls allow mine cs s) \<le> cap + earned rate (u - t0) + of_nat (length (filter mine cs)) * slack cap"
  using assms
proof (induction cs arbitrary: s)
  case Nil
  then show ?case using level_bounds [of s] earned_mono [of s 0 "u - t0"] by (simp add: earned_def)
next
  case (Cons c cs)
  obtain b s' where a: "allow c s = (b, s')" by (cases "allow c s")
  show ?case
  proof (cases "mine c")
    case False
    from other [OF this a Cons.prems(1)] Cons.IH [of s'] Cons.prems a False show ?thesis by simp
  next
    case True
    have c: "t0 \<le> tm c" "tm c \<le> u" using Cons.prems(4) by auto
    have s': "good s'" "seen s' = Some (tm c)" "level s' + of_bool b \<le> cap"
      using call_keeps [OF True a Cons.prems(1)] Cons.prems(2,5) c by (auto split: option.splits)
    have "of_nat (allowed_calls allow mine cs s') \<le> level s' + earned rate (u - tm c) + of_nat (length (filter mine cs)) * slack cap"
      using allowed_since [OF s'(1,2), of cs u] Cons.prems(3-6) c by auto
    moreover have "earned rate (u - tm c) \<le> earned rate (u - t0)" using c by (intro earned_mono [OF Cons.prems(1)]) simp
    moreover have "0 \<le> slack cap" using level_bounds [OF Cons.prems(1)] by (simp add: slack_def)
    ultimately show ?thesis using True a s'(3) by (cases b) (simp_all add: distrib_right)
  qed
qed

text \<open>What earlier calls leave behind.\<close>

lemma run_calls_good:
  assumes "good s" and "case seen s of None \<Rightarrow> True | Some l \<Rightarrow> l \<le> t0 \<and> a \<le> l" and "sorted (map tm cs)"
    and "\<forall>c \<in> set cs. a \<le> tm c \<and> tm c \<le> t0 \<and> (case seen s of None \<Rightarrow> True | Some l \<Rightarrow> l \<le> tm c)" and "t0 < a + 2 ^ 63"
  shows "good (run_calls allow cs s) \<and> (case seen (run_calls allow cs s) of None \<Rightarrow> True | Some l \<Rightarrow> l \<le> t0 \<and> a \<le> l)"
  using assms
proof (induction cs arbitrary: s)
  case (Cons c cs)
  obtain b s' where a: "allow c s = (b, s')" by (cases "allow c s")
  show ?case
  proof (cases "mine c")
    case False
    from other [OF this a Cons.prems(1)] Cons.IH [of s'] Cons.prems a show ?thesis by simp
  next
    case True
    have "case seen s of None \<Rightarrow> True | Some l \<Rightarrow> l \<le> tm c \<and> tm c < l + 2 ^ 63"
      using Cons.prems(2,4,5) by (auto split: option.splits)
    from call_keeps [OF True a Cons.prems(1) this] Cons.IH [of s'] Cons.prems a show ?thesis by auto
  qed
qed simp

end

text \<open>Refilling a bucket: what both implementations do before they take a token.\<close>

definition refill :: "rat \<Rightarrow> rat \<Rightarrow> rat \<Rightarrow> int \<Rightarrow> rat" where
  "refill cap rate tokens d =
     (let t = fl (tokens + fl (Seconds d * rate)) in if t > cap then cap else t)"

definition bucket_ok :: "rat \<Rightarrow> rat \<Rightarrow> rat \<Rightarrow> bool" where
  "bucket_ok rate cap tokens \<longleftrightarrow> 0 \<le> rate \<and> representable cap \<and> cap \<le> 2 ^ 53 \<and> representable tokens \<and> tokens \<le> cap"

lemma refill_level:
  assumes ok: "bucket_ok rate cap tokens" and d: "0 \<le> d" "d < 2 ^ 63"
  shows "bucket_ok rate cap (refill cap rate tokens d)"
    and "refill cap rate tokens d \<le> tokens + earned rate d + slack cap"
    and "1 \<le> refill cap rate tokens d \<Longrightarrow> fl (refill cap rate tokens d - 1) = refill cap rate tokens d - 1
      \<and> bucket_ok rate cap (refill cap rate tokens d - 1)"
proof -
  have r: "0 \<le> rate" and t: "0 \<le> tokens" "tokens \<le> cap" and cap: "representable cap" "cap \<le> 2 ^ 53"
    using ok representable_nonneg by (auto simp: bucket_ok_def)
  let ?add = "fl (Seconds d * rate)" and ?x = "refill cap rate tokens d"
  have s: "0 \<le> Seconds d * rate" using Seconds_bounds(1) [OF d] r by simp
  then have add: "0 \<le> ?add" by (rule fl_nonneg)
  have "?add \<le> Seconds d * rate * ulp1" by (rule fl_le [OF s])
  also have "\<dots> \<le> of_int d / 1000000000 * ulp1 ^ 2 * rate * ulp1"
    using Seconds_bounds(2) [OF d] r by (intro mult_right_mono) auto
  finally have "?add * ulp1 \<le> of_int d / 1000000000 * ulp1 ^ 2 * rate * ulp1 * ulp1" by (rule mult_right_mono) simp
  also have "\<dots> = earned rate d" by (simp only: earned_def power2_eq_square power4_eq_xxxx mult_ac)
  finally have e: "?add * ulp1 \<le> earned rate d" .
  have "fl (tokens + ?add) \<le> (tokens + ?add) * ulp1" using t add by (intro fl_le) simp
  also have "\<dots> = tokens + tokens / 2 ^ 53 + ?add * ulp1" by (simp add: distrib_left distrib_right)
  also have "\<dots> \<le> tokens + slack cap + earned rate d"
    using e t(2) unfolding slack_def by (intro add_mono divide_right_mono order_refl) auto
  finally have up: "fl (tokens + ?add) \<le> tokens + earned rate d + slack cap" by simp
  have x: "?x = (if fl (tokens + ?add) > cap then cap else fl (tokens + ?add))" by (simp add: refill_def Let_def)
  show "?x \<le> tokens + earned rate d + slack cap" using up unfolding x by auto
  have rep: "representable (fl (tokens + ?add))" using t add by (intro fl_representable) simp
  then show ok': "bucket_ok rate cap ?x" using r cap unfolding bucket_ok_def x by auto
  show "fl (?x - 1) = ?x - 1 \<and> bucket_ok rate cap (?x - 1)" if "1 \<le> ?x"
  proof -
    have "representable ?x" "?x \<le> cap" using ok' by (auto simp: bucket_ok_def)
    then show ?thesis
      using that cap r fl_minus_one [of ?x] representable_minus_one [of ?x] by (auto simp: bucket_ok_def)
  qed
qed

lemma refill_same [simp]: "bucket_ok rate cap cap \<Longrightarrow> refill cap rate cap 0 = cap"
  by (simp add: refill_def Seconds_def fl_exact bucket_ok_def)

section \<open>Both implementations provide it\<close>

lemma TokenBucket_Allow_refill:
  "TokenBucket_Allow t tb =
     (let x = refill (tb_maxTokens tb) (tb_rate tb) (tb_tokens tb) (t - tb_lastCheck tb)
      in if x < 1 then (False, tb\<lparr>tb_tokens := x, tb_lastCheck := t\<rparr>)
         else (True, tb\<lparr>tb_tokens := fl (x - 1), tb_lastCheck := t\<rparr>))"
  by (simp add: TokenBucket_Allow_def refill_def Let_def)

interpretation token_bucket: limiter TokenBucket_Allow "\<lambda>t. t" "\<lambda>_. True" tb_tokens "\<lambda>tb. Some (tb_lastCheck tb)"
  "\<lambda>tb. tb_rate tb = rate \<and> tb_maxTokens tb = cap \<and> bucket_ok rate cap (tb_tokens tb)" rate cap for rate cap
proof (unfold_locales, goal_cases)
  case (1 s)
  then show ?case using representable_nonneg by (auto simp: bucket_ok_def)
next
  case (3 c s b s')
  then show ?case using refill_level [of rate cap "tb_tokens s" "c - tb_lastCheck s"]
    by (auto simp: TokenBucket_Allow_refill Let_def bucket_ok_def split: if_splits)
next
  case (4 c s b s' l)
  then show ?case using refill_level [of rate cap "tb_tokens s" "c - tb_lastCheck s"]
    by (auto simp: TokenBucket_Allow_refill Let_def split: if_splits)
qed simp

lemma RateLimiter_Allow_refill:
  assumes "0 \<le> rl_rate rl" "rl_rate rl \<le> 2 ^ 53" "0 \<le> rl_burst rl" "rl_burst rl \<le> 2 ^ 53"
  shows "RateLimiter_Allow key t rl =
     (let cap = of_int (rl_burst rl); b = (case rl_buckets rl key of None \<Rightarrow> \<lparr>bu_tokens = cap, bu_lastCheck = t\<rparr> | Some b \<Rightarrow> b);
          x = refill cap (of_int (rl_rate rl)) (bu_tokens b) (t - bu_lastCheck b)
      in if x < 1 then (False, rl\<lparr>rl_buckets := (rl_buckets rl)(key \<mapsto> \<lparr>bu_tokens = x, bu_lastCheck = t\<rparr>)\<rparr>)
         else (True, rl\<lparr>rl_buckets := (rl_buckets rl)(key \<mapsto> \<lparr>bu_tokens = fl (x - 1), bu_lastCheck = t\<rparr>)\<rparr>))"
  using assms by (simp add: RateLimiter_Allow_def refill_def Let_def fl_of_int)

text \<open>The bucket of one client; the buckets of the others do not matter to it.\<close>

definition limiter_ok :: "string \<Rightarrow> int \<Rightarrow> int \<Rightarrow> RateLimiter \<Rightarrow> bool" where
  "limiter_ok key rps burst rl \<longleftrightarrow> rl_rate rl = rps \<and> rl_burst rl = burst \<and> 0 \<le> rps \<and> rps \<le> 2 ^ 53 \<and> 0 \<le> burst \<and> burst \<le> 2 ^ 53
     \<and> (case rl_buckets rl key of None \<Rightarrow> True | Some b \<Rightarrow> bucket_ok (of_int rps) (of_int burst) (bu_tokens b))"

definition client_level :: "string \<Rightarrow> RateLimiter \<Rightarrow> rat" where
  "client_level key rl = (case rl_buckets rl key of None \<Rightarrow> of_int (rl_burst rl) | Some b \<Rightarrow> bu_tokens b)"

lemma bucket_ok_full: "0 \<le> rps \<Longrightarrow> 0 \<le> burst \<Longrightarrow> burst \<le> 2 ^ 53 \<Longrightarrow> bucket_ok (of_int rps) (of_int burst) (of_int burst)"
proof -
  assume b: "0 \<le> rps" "0 \<le> burst" "burst \<le> 2 ^ 53"
  then have "(of_int burst :: rat) \<le> of_int (2 ^ 53)" by (simp only: of_int_le_iff)
  with b show ?thesis by (simp add: bucket_ok_def representable_of_int)
qed

lemma RateLimiter_Allow_other:
  "RateLimiter_Allow k t rl = (b, rl') \<Longrightarrow> k \<noteq> key \<Longrightarrow>
   rl_buckets rl' key = rl_buckets rl key \<and> rl_rate rl' = rl_rate rl \<and> rl_burst rl' = rl_burst rl"
  by (auto simp: RateLimiter_Allow_def Let_def split: if_splits)

lemma RateLimiter_Allow_mine:
  assumes ok: "limiter_ok key rps burst rl" and a: "RateLimiter_Allow key t rl = (b, rl')"
    and d: "case rl_buckets rl key of None \<Rightarrow> True | Some u \<Rightarrow> bu_lastCheck u \<le> t \<and> t < bu_lastCheck u + 2 ^ 63"
  shows "limiter_ok key rps burst rl'" and "map_option bu_lastCheck (rl_buckets rl' key) = Some t"
    and "client_level key rl' + of_bool b \<le> of_int burst"
    and "rl_buckets rl key = Some u \<Longrightarrow>
      client_level key rl' + of_bool b \<le> client_level key rl + earned (of_int rps) (t - bu_lastCheck u) + slack (of_int burst)"
proof -
  let ?u = "case rl_buckets rl key of None \<Rightarrow> \<lparr>bu_tokens = of_int burst, bu_lastCheck = t\<rparr> | Some b \<Rightarrow> b"
  let ?x = "refill (of_int burst) (of_int rps) (bu_tokens ?u) (t - bu_lastCheck ?u)"
  have p: "rl_rate rl = rps" "rl_burst rl = burst" "0 \<le> rps" "rps \<le> 2 ^ 53" "0 \<le> burst" "burst \<le> 2 ^ 53"
    using ok by (simp_all add: limiter_ok_def)
  have u: "bucket_ok (of_int rps) (of_int burst) (bu_tokens ?u)" "0 \<le> t - bu_lastCheck ?u" "t - bu_lastCheck ?u < 2 ^ 63"
    using ok d bucket_ok_full [OF p(3,5,6)] by (auto simp: limiter_ok_def split: option.splits)
  note R = refill_level [OF u]
  have rl': "b = (\<not> ?x < 1)" "rl' = rl\<lparr>rl_buckets := (rl_buckets rl)(key \<mapsto> \<lparr>bu_tokens = (if ?x < 1 then ?x else ?x - 1), bu_lastCheck = t\<rparr>)\<rparr>"
    using a p R(3) by (auto simp: RateLimiter_Allow_refill Let_def not_less split: if_splits)
  show "limiter_ok key rps burst rl'" using R(1,3) p by (auto simp: limiter_ok_def rl'(2))
  show "map_option bu_lastCheck (rl_buckets rl' key) = Some t" by (simp add: rl'(2))
  have lv: "client_level key rl' + of_bool b = ?x" by (simp add: client_level_def rl')
  show "client_level key rl' + of_bool b \<le> of_int burst" unfolding lv using R(1) by (simp add: bucket_ok_def)
  show "client_level key rl' + of_bool b \<le> client_level key rl + earned (of_int rps) (t - bu_lastCheck u) + slack (of_int burst)"
    if "rl_buckets rl key = Some u"
    unfolding lv using R(2) that by (simp add: client_level_def)
qed

interpretation rate_limiter: limiter "\<lambda>(k, t). RateLimiter_Allow k t" snd "\<lambda>c. fst c = key" "client_level key"
  "\<lambda>rl. map_option bu_lastCheck (rl_buckets rl key)" "limiter_ok key rps burst" "of_int rps" "of_int burst" for key rps burst
proof (unfold_locales, goal_cases)
  case (1 s)
  then show ?case
    by (auto simp: limiter_ok_def client_level_def bucket_ok_def representable_nonneg split: option.splits)
next
  case (2 c s b s')
  then show ?case using RateLimiter_Allow_other [of "fst c" "snd c" s b s' key]
    by (cases "rl_buckets s key") (auto simp: limiter_ok_def client_level_def split: prod.splits)
next
  case (3 c s b s')
  then show ?case using RateLimiter_Allow_mine(1-3) [of key rps burst s "snd c" b s']
    by (auto split: prod.splits option.splits)
next
  case (4 c s b s' l)
  then obtain u where "rl_buckets s key = Some u" "bu_lastCheck u = l" by auto
  with 4 show ?case using RateLimiter_Allow_mine(4) [of key rps burst s "snd c" b s' u]
    by (auto split: prod.splits)
qed

section \<open>Property\<close>

text \<open>C35: the in-memory rate limiter bounds what a client gets through: among its requests in a window from
  \<open>t0\<close> to \<open>u\<close>, whatever came before and whatever the other clients do, at most \<open>burst\<close> plus the rate times
  the length of the window are allowed, up to the rounding errors of \<open>float64\<close> (a factor \<open>(1 + 2\<^sup>-\<^sup>5\<^sup>3)\<^sup>4\<close>
  and \<open>2\<^sup>-\<^sup>5\<^sup>3 burst\<close> for each request).\<close>

theorem rate_limit_window:
  assumes "0 \<le> rps" and "rps \<le> 2 ^ 53" and "0 \<le> burst" and "burst \<le> 2 ^ 53"
    and "sorted (map snd (pre @ cs))" and "\<forall>c \<in> set pre. a \<le> snd c \<and> snd c \<le> t0" and "\<forall>c \<in> set cs. t0 \<le> snd c \<and> snd c \<le> u"
    and "a \<le> t0" and "t0 \<le> u" and "u < a + 2 ^ 63"
  shows "of_nat (allowed_calls (\<lambda>(k, t). RateLimiter_Allow k t) (\<lambda>c. fst c = key) cs
        (run_calls (\<lambda>(k, t). RateLimiter_Allow k t) pre (NewRateLimiter rps burst)))
      \<le> of_int burst + of_int rps * (of_int (u - t0) / 1000000000) * (1 + 1 / 2 ^ 53) ^ 4
        + of_nat (length (filter (\<lambda>c. fst c = key) cs)) * (of_int burst / (2 ^ 53 :: rat))"
proof -
  let ?s = "NewRateLimiter rps burst"
  have s: "limiter_ok key rps burst ?s" "rl_buckets ?s key = None"
    using assms(1-4) by (simp_all add: limiter_ok_def NewRateLimiter_def)
  have "limiter_ok key rps burst (run_calls (\<lambda>(k, t). RateLimiter_Allow k t) pre ?s)
      \<and> (case map_option bu_lastCheck (rl_buckets (run_calls (\<lambda>(k, t). RateLimiter_Allow k t) pre ?s) key) of
          None \<Rightarrow> True | Some l \<Rightarrow> l \<le> t0 \<and> a \<le> l)"
    using assms(5-10) s by (intro rate_limiter.run_calls_good) (auto simp: sorted_append)
  then show ?thesis
    using rate_limiter.allowed_window [of key rps burst _ t0 u cs] assms(5,7-10)
    by (auto simp: sorted_append earned_def slack_def split: option.splits)
qed

lemma rate_limit_window_witness:
  "of_nat (allowed_calls (\<lambda>(k, t). RateLimiter_Allow k t) (\<lambda>c. fst c = ''a'') [(''a'', 5), (''b'', 5), (''a'', 6)]
        (run_calls (\<lambda>(k, t). RateLimiter_Allow k t) [(''a'', 3)] (NewRateLimiter 10 2)))
      \<le> 2 + 10 * (1 / 1000000000) * (1 + 1 / 2 ^ 53) ^ 4 + 2 * (2 / (2 ^ 53 :: rat))"
  using rate_limit_window [of 10 2 "[(''a'', 3)]" "[(''a'', 5), (''b'', 5), (''a'', 6)]" 0 5 6 "''a''"] by simp

end
