(* ===== verification/Payflow_Redis.thy ===== *)
theory Payflow_Redis
  imports Payflow_Float
begin

text \<open>
  The Redis server as the middleware uses it: hashes with an expiry time, the commands the program
  sends (\<open>HMGET\<close>, \<open>HSET\<close>, \<open>EXPIRE\<close>, \<open>DEL\<close>) and its two Lua scripts
  (\<open>internal/middleware/idempotency_check.lua\<close>, \<open>rate_limit.lua\<close>), each executed atomically. A
  schedule decides what happens on the way: the client may send a command again after a lost answer,
  or give up. Bodies of responses are stored as they were written.
\<close>

section \<open>Response bodies\<close>

text \<open>
  The bytes of a response body are kept as the values that were written: a text, or the encoding of an
  API document by \<open>json.Encoder\<close> (which is never empty).
\<close>

record APIError =
  ae_Code :: string
  ae_Message :: string

record APIMeta =
  am_Total :: int
  am_Limit :: int
  am_Offset :: int

datatype api_data =
    DTransaction Transaction
  | DTransactions "Transaction list"
  | DEvents "TransactionEvent list"
  | DBalance string string int64 string

record APIResponse =
  ar_Success :: bool
  ar_Data :: "api_data option"
  ar_Error :: "APIError option"
  ar_Meta :: "APIMeta option"

datatype chunk =
    Text string
  | Encoded APIResponse
  | Health string string int string
  | Readiness

type_synonym bytes = "chunk list"

definition bytes_empty :: "bytes \<Rightarrow> bool" where
  "bytes_empty b \<longleftrightarrow> list_all (\<lambda>c. c = Text []) b"

section \<open>The server\<close>

text \<open>A hash with the fields the program uses; a field that is not there is \<open>None\<close>.\<close>

record redis_hash =
  rh_state :: "string option"
  rh_status_code :: "string option"
  rh_response_body :: "bytes option"
  rh_tokens :: "rat option"
  rh_last :: "rat option"

definition no_hash :: redis_hash where
  "no_hash = \<lparr>rh_state = None, rh_status_code = None, rh_response_body = None, rh_tokens = None, rh_last = None\<rparr>"

text \<open>A key with its expiry time, if it has one; it is there up to that time.\<close>

type_synonym keyspace = "string \<rightharpoonup> redis_hash \<times> int option"

definition live :: "int \<Rightarrow> redis_hash \<times> int option \<Rightarrow> bool" where
  "live t entry = (case snd entry of None \<Rightarrow> True | Some e \<Rightarrow> t \<le> e)"

definition lookup_key :: "int \<Rightarrow> keyspace \<Rightarrow> string \<Rightarrow> (redis_hash \<times> int option) option" where
  "lookup_key t ks k = (case ks k of None \<Rightarrow> None | Some e \<Rightarrow> if live t e then Some e else None)"

definition HMGET :: "int \<Rightarrow> string \<Rightarrow> keyspace \<Rightarrow> redis_hash" where
  "HMGET t k ks = (case lookup_key t ks k of None \<Rightarrow> no_hash | Some (h, e) \<Rightarrow> h)"

definition HSET :: "int \<Rightarrow> string \<Rightarrow> (redis_hash \<Rightarrow> redis_hash) \<Rightarrow> keyspace \<Rightarrow> keyspace" where
  "HSET t k f ks = (case lookup_key t ks k of
       None \<Rightarrow> ks(k \<mapsto> (f no_hash, None))
     | Some (h, e) \<Rightarrow> ks(k \<mapsto> (f h, e)))"

definition EXPIRE :: "int \<Rightarrow> string \<Rightarrow> int \<Rightarrow> keyspace \<Rightarrow> keyspace" where
  "EXPIRE t k d ks = (case lookup_key t ks k of None \<Rightarrow> ks | Some (h, e) \<Rightarrow> ks(k \<mapsto> (h, Some (t + d))))"

definition DEL :: "string \<Rightarrow> keyspace \<Rightarrow> keyspace" where
  "DEL k ks = ks(k := None)"

section \<open>The connection\<close>

text \<open>
  The client may execute a command several times before it has an answer, or report an error after it
  was executed any number of times: \<open>Answer n\<close> stands for \<open>n\<close> executions whose answers were lost and
  one whose answer arrived, \<open>Lost n m\<close> for \<open>n\<close> executions and the error \<open>m\<close>.
\<close>

datatype delivery_fault = Answer nat | Lost nat string

record redis =
  rd_keys :: keyspace
  rd_faults :: "delivery_fault list"

type_synonym 'r command = "int \<Rightarrow> keyspace \<Rightarrow> 'r \<times> keyspace"

fun executed :: "nat \<Rightarrow> 'r command \<Rightarrow> int \<Rightarrow> keyspace \<Rightarrow> keyspace" where
  "executed 0 cmd t ks = ks"
| "executed (Suc n) cmd t ks = executed n cmd t (snd (cmd t ks))"

definition redis_call :: "'r command \<Rightarrow> go_context \<Rightarrow> int \<Rightarrow> redis \<Rightarrow> (go_error + 'r) \<times> redis" where
  "redis_call cmd ctx t rd =
     (case ctx_Err ctx t of
        Some err \<Rightarrow> (Inl err, rd)
      | None \<Rightarrow>
          (case (case rd_faults rd of [] \<Rightarrow> Answer 0 | f # _ \<Rightarrow> f) of
             Answer n \<Rightarrow>
               (case cmd t (executed n cmd t (rd_keys rd)) of
                  (r, ks) \<Rightarrow> (Inr r, rd\<lparr>rd_keys := ks, rd_faults := tl (rd_faults rd)\<rparr>))
           | Lost n m \<Rightarrow>
               (Inl (New m), rd\<lparr>rd_keys := executed n cmd t (rd_keys rd), rd_faults := tl (rd_faults rd)\<rparr>)))"

section \<open>The scripts\<close>

text \<open>\<open>idempotency_check.lua\<close>: the answer is an array of one or of three values.\<close>

type_synonym script_reply = "string \<times> (string \<times> bytes) option"

definition idempotency_check :: "string \<Rightarrow> script_reply command" where
  "idempotency_check key t ks =
     (let existing = HMGET t key ks
      in if rh_state existing = Some ''completed''
         then ((''COMPLETED'', Some (case rh_status_code existing of None \<Rightarrow> [] | Some s \<Rightarrow> s,
                                     case rh_response_body existing of None \<Rightarrow> [] | Some b \<Rightarrow> b)), ks)
         else if rh_state existing = Some ''in_progress'' then ((''IN_PROGRESS'', None), ks)
         else ((''PROCEED'', None),
               EXPIRE t key (60 * 1000000000) (HSET t key (\<lambda>h. h\<lparr>rh_state := Some ''in_progress''\<rparr>) ks)))"

text \<open>
  \<open>rate_limit.lua\<close>. \<open>TIME\<close> gives seconds and microseconds; Redis stores a Lua number with 17 significant
  digits, which \<open>tonumber\<close> reads back as it was.
\<close>

definition lua_now :: "int \<Rightarrow> rat" where
  "lua_now t = fl (fl (of_int (t div 1000000000)) + fl (fl (of_int (t mod 1000000000 div 1000)) / 1000000))"

definition rate_limit_script :: "string \<Rightarrow> rat \<Rightarrow> rat \<Rightarrow> int command" where
  "rate_limit_script key rate burst t ks =
     (let now = lua_now t;
          h = HMGET t key ks;
          tokens = (case (rh_tokens h, rh_last h) of
                      (Some tokens, Some seen) \<Rightarrow>
                        (let elapsed = fl (now - seen)
                         in if 0 < elapsed
                            then (let tokens = fl (tokens + fl (elapsed * rate)) in if tokens > burst then burst else tokens)
                            else tokens)
                    | _ \<Rightarrow> burst);
          allowed = (1 \<le> tokens);
          tokens = (if allowed then fl (tokens - 1) else tokens)
      in (if allowed then 1 else 0,
          EXPIRE t key (60 * 1000000000) (HSET t key (\<lambda>h. h\<lparr>rh_tokens := Some tokens, rh_last := Some now\<rparr>) ks)))"

section \<open>Facts\<close>

lemma redis_call_ok:
  "ctx_Err ctx t = None \<Longrightarrow> rd_faults rd = [] \<Longrightarrow>
   redis_call cmd ctx t rd = (Inr (fst (cmd t (rd_keys rd))), rd\<lparr>rd_keys := snd (cmd t (rd_keys rd))\<rparr>)"
  by (cases "cmd t (rd_keys rd)") (simp add: redis_call_def)

text \<open>However often it is executed: a predicate that a command keeps is kept by the call.\<close>

lemma executed_keeps:
  assumes "\<And>ks. P ks \<Longrightarrow> P (snd (cmd t ks))" and "P ks"
  shows "P (executed n cmd t ks)"
  using assms(2) by (induction n arbitrary: ks) (auto intro: assms(1))

lemma redis_call_keeps:
  assumes "\<And>ks. P ks \<Longrightarrow> P (snd (cmd t ks))" and "P (rd_keys rd)"
  shows "P (rd_keys (snd (redis_call cmd ctx t rd)))"
proof -
  have e: "P (executed n cmd t (rd_keys rd))" for n by (rule executed_keeps [where P = P and cmd = cmd, OF assms])
  have "P ks" if "cmd t (executed n cmd t (rd_keys rd)) = (r, ks)" for n r ks
    using assms(1) [OF e [of n]] that by simp
  then show ?thesis using e assms(2)
    by (auto simp: redis_call_def split: option.splits delivery_fault.splits prod.splits)
qed

lemma executed_Suc: "executed (Suc n) cmd t ks = snd (cmd t (executed n cmd t ks))"
  by (induction n arbitrary: ks) simp_all

lemma redis_call_Inr:
  assumes "redis_call cmd ctx t rd = (Inr r, rd')"
  shows "\<exists>n. (r, rd_keys rd') = cmd t (executed n cmd t (rd_keys rd))"
  using assms by (auto simp: redis_call_def split: option.splits delivery_fault.splits prod.splits) metis+

end
