(* ===== verification/Payflow_Http.thy ===== *)
theory Payflow_Http
  imports Payflow_Strconv Payflow_Payment Payflow_Limiter Payflow_Redis
begin

text \<open>
  HTTP as the program uses it, and the middleware of \<open>internal/middleware/middleware.go\<close>: a handler maps
  a request and the state of the application to what it did to the response writer, in order, and the
  state afterwards; it may end in a panic. The lemmas say what each middleware lets through.
\<close>

section \<open>Requests and responses\<close>

text \<open>
  A request body is the first JSON value that a decoder finds in it, \<open>None\<close> if there is none. \<open>VInt\<close> is
  a number without fraction and exponent, \<open>VNumber\<close> any other.
\<close>

datatype body_value =
    VNull | VBool bool | VInt int | VNumber | VString string
  | VArray "body_value list" | VObject "(string \<times> body_value) list"

text \<open>
  Headers are known by their canonical name and first value, \<open>rq_Query\<close> is the first value of a query
  parameter or empty, \<open>rq_URLParam\<close> the parameter \<open>id\<close> of the route. The values that the middleware puts
  into the context are fields of their own.
\<close>

record Request =
  rq_Method :: string
  rq_Path :: string
  rq_Header :: "string \<rightharpoonup> string"
  rq_RemoteAddr :: string
  rq_Query :: "string \<Rightarrow> string"
  rq_Body :: "body_value option"
  rq_URLParam :: string
  rq_Context :: go_context
  rq_RequestID :: "string option"
  rq_Merchant :: "Merchant option"

definition Header_Get :: "Request \<Rightarrow> string \<Rightarrow> string" where
  "Header_Get r name = (case rq_Header r name of None \<Rightarrow> [] | Some v \<Rightarrow> v)"

datatype w_op = SetHeader string string | WriteHeader int | Write bytes

record served =
  sv_ops :: "w_op list"
  sv_panic :: "string option"

definition respond_with :: "w_op list \<Rightarrow> served" where
  "respond_with ops = \<lparr>sv_ops = ops, sv_panic = None\<rparr>"

text \<open>
  What the server makes of the operations: the first status that is not informational is sent with the
  headers set so far, a body without one implies 200, some statuses have no body.
\<close>

record response =
  rs_status :: int
  rs_header :: "string \<rightharpoonup> string"
  rs_body :: bytes

record connection =
  cn_header :: "string \<rightharpoonup> string"
  cn_sent :: "response option"

definition informational :: "int \<Rightarrow> bool" where
  "informational code \<longleftrightarrow> 100 \<le> code \<and> code \<le> 199 \<and> code \<noteq> 101"

definition bodyless :: "int \<Rightarrow> bool" where
  "bodyless code \<longleftrightarrow> 100 \<le> code \<and> code \<le> 199 \<or> code = 204 \<or> code = 304"

definition send_header :: "int \<Rightarrow> connection \<Rightarrow> connection" where
  "send_header code c =
     (case cn_sent c of
        Some _ \<Rightarrow> c
      | None \<Rightarrow> if informational code then c
               else c\<lparr>cn_sent := Some \<lparr>rs_status = code, rs_header = cn_header c, rs_body = []\<rparr>\<rparr>)"

fun w_step :: "w_op \<Rightarrow> connection \<Rightarrow> connection" where
  "w_step (SetHeader k v) c = c\<lparr>cn_header := (cn_header c)(k \<mapsto> v)\<rparr>"
| "w_step (WriteHeader code) c = send_header code c"
| "w_step (Write b) c =
     (let c = send_header 200 c
      in c\<lparr>cn_sent := map_option (\<lambda>rs. if bodyless (rs_status rs) then rs else rs\<lparr>rs_body := rs_body rs @ b\<rparr>) (cn_sent c)\<rparr>)"

definition response_of :: "w_op list \<Rightarrow> response" where
  "response_of ops = the (cn_sent (send_header 200 (fold w_step ops \<lparr>cn_header = Map.empty, cn_sent = None\<rparr>)))"

text \<open>What a wrapping writer has seen: the last status (200 if there was none) and the bytes of the body.\<close>

fun recorded_status :: "int \<Rightarrow> w_op list \<Rightarrow> int" where
  "recorded_status code [] = code"
| "recorded_status code (WriteHeader c # ops) = recorded_status c ops"
| "recorded_status code (op # ops) = recorded_status code ops"

fun recorded_body :: "w_op list \<Rightarrow> bytes" where
  "recorded_body [] = []"
| "recorded_body (Write b # ops) = b @ recorded_body ops"
| "recorded_body (op # ops) = recorded_body ops"

section \<open>The application\<close>

text \<open>
  The lines of the middleware in the log, and the counters of \<open>internal/metrics/metrics.go\<close>: the gauge
  of active requests, the requests counted by method, path and status, the durations observed, in
  seconds. \<open>ln_bytes\<close> are the bytes whose number is logged.
\<close>

datatype level = LevelDebug | LevelInfo | LevelWarn | LevelError

record request_line =
  ln_level :: level
  ln_method :: string
  ln_path :: string
  ln_status :: int
  ln_duration_ms :: int
  ln_bytes :: bytes
  ln_request_id :: string
  ln_ip :: string

record panic_line =
  pl_error :: string
  pl_request_id :: string
  pl_path :: string

text \<open>
  The span of a request, as far as the program sets it: \<open>sp_route\<close> is the attribute \<open>http.route\<close>,
  \<open>sp_error\<close> the description of the status \<open>codes.Error\<close>.
\<close>

record http_span =
  sp_name :: string
  sp_route :: "string option"
  sp_method :: string
  sp_target :: string
  sp_status_code :: int
  sp_request_id :: string
  sp_error :: "string option"

datatype log_line = RequestLine request_line | PanicLine panic_line | SpanEnd http_span

record metrics =
  activeRequests :: int
  httpRequestsTotal :: "string \<times> string \<times> string \<Rightarrow> nat"
  httpDurationSeconds :: "string \<times> string \<Rightarrow> rat list"

text \<open>
  The state that the requests share: the world of the payment service, Redis, the in-memory limiter,
  the metrics, and what was logged and traced.
\<close>

record 'db app =
  ap_world :: "'db world"
  ap_redis :: redis
  ap_limiter :: RateLimiter
  ap_metrics :: metrics
  ap_log :: "log_line list"

abbreviation ap_now :: "'db app \<Rightarrow> int" where
  "ap_now app \<equiv> now (wenv (ap_world app))"

type_synonym 'db handler = "Request \<Rightarrow> 'db app \<Rightarrow> served \<times> 'db app"

text \<open>Running code of the service, and a Redis command, which takes its time.\<close>

definition in_world :: "('db world \<Rightarrow> 'r \<times> 'db world) \<Rightarrow> 'db app \<Rightarrow> 'r \<times> 'db app" where
  "in_world f app = (case f (ap_world app) of (r, w) \<Rightarrow> (r, app\<lparr>ap_world := w\<rparr>))"

definition rd_call :: "'r command \<Rightarrow> go_context \<Rightarrow> 'db app \<Rightarrow> (go_error + 'r) \<times> 'db app" where
  "rd_call cmd ctx app =
     (case redis_call cmd ctx (ap_now app) (ap_redis app) of
        (r, rd) \<Rightarrow> (r, app\<lparr>ap_redis := rd, ap_world := (ap_world app)\<lparr>wenv := tick (wenv (ap_world app))\<rparr>\<rparr>))"

definition before :: "w_op list \<Rightarrow> served \<times> 'db app \<Rightarrow> served \<times> 'db app" where
  "before ops res = ((fst res)\<lparr>sv_ops := ops @ sv_ops (fst res)\<rparr>, snd res)"

section \<open>Middleware\<close>

definition quoted :: "string \<Rightarrow> string" where
  "quoted s = [CHR 34] @ s @ [CHR 34]"

definition error_text :: "string \<Rightarrow> string \<Rightarrow> string" where
  "error_text code message =
     ''{'' @ quoted ''success'' @ '':false,'' @ quoted ''error'' @ '':{'' @ quoted ''code'' @ '':'' @ quoted code @ '',''
       @ quoted ''message'' @ '':'' @ quoted message @ ''}}''"

definition writeError :: "int \<Rightarrow> string \<Rightarrow> string \<Rightarrow> w_op list" where
  "writeError status code message =
     [SetHeader ''Content-Type'' ''application/json'', WriteHeader status, Write [Text (error_text code message)]]"

definition RequestID :: "'db handler \<Rightarrow> 'db handler" where
  "RequestID next r app =
     (let requestID = Header_Get r ''X-Request-Id'';
          requestID = (if requestID = [] then ''req_'' @ show_int (ap_now app) else requestID)
      in before [SetHeader ''X-Request-Id'' requestID] (next (r\<lparr>rq_RequestID := Some requestID\<rparr>) app))"

definition GetRequestID :: "Request \<Rightarrow> string" where
  "GetRequestID r = (case rq_RequestID r of Some i \<Rightarrow> i | None \<Rightarrow> ''unknown'')"

definition GetMerchant :: "Request \<Rightarrow> Merchant option" where
  "GetMerchant r = rq_Merchant r"

text \<open>
  \<open>Logging\<close> and \<open>MetricsMiddleware\<close> wrap the writer (\<open>responseWriter\<close>) and run code after the next
  handler, which a panic skips; only the gauge is decremented by a deferred call. \<open>written\<close> counts
  what the underlying writer took. \<open>Milliseconds\<close> drops the fraction.
\<close>

definition response_level :: "int \<Rightarrow> level" where
  "response_level code = (if 500 \<le> code then LevelError else if 400 \<le> code then LevelWarn else LevelInfo)"

text \<open>
  \<open>Tracing\<close>: \<open>route\<close> is the pattern the router reports after the request, empty if it was answered before
  it reached the router. \<open>StatusText\<close> is \<open>http.StatusText\<close> from 500 on. A panic leaves the span open.
\<close>

definition StatusText :: "int \<Rightarrow> string" where
  "StatusText code =
     (case map_of [(500, ''Internal Server Error''), (501, ''Not Implemented''), (502, ''Bad Gateway''), (503, ''Service Unavailable''),
         (504, ''Gateway Timeout''), (505, ''HTTP Version Not Supported''), (506, ''Variant Also Negotiates''),
         (507, ''Insufficient Storage''), (508, ''Loop Detected''), (510, ''Not Extended''), (511, ''Network Authentication Required'')] code of
        None \<Rightarrow> [] | Some s \<Rightarrow> s)"

definition Tracing :: "(Request \<Rightarrow> 'db app \<Rightarrow> string) \<Rightarrow> 'db handler \<Rightarrow> 'db handler" where
  "Tracing route next r app =
     (case next r app of
        (sv, app1) \<Rightarrow>
          if sv_panic sv \<noteq> None then (sv, app1)
          else (let routePattern = route r app;
                    code = recorded_status 200 (sv_ops sv);
                    span = \<lparr>sp_name = rq_Method r @ '' '' @ (if routePattern \<noteq> [] then routePattern else rq_Path r),
                            sp_route = (if routePattern \<noteq> [] then Some routePattern else None),
                            sp_method = rq_Method r, sp_target = rq_Path r, sp_status_code = code, sp_request_id = GetRequestID r,
                            sp_error = (if 500 \<le> code then Some (StatusText code) else None)\<rparr>
                in (sv, app1\<lparr>ap_log := ap_log app1 @ [SpanEnd span]\<rparr>)))"

definition Logging :: "'db handler \<Rightarrow> 'db handler" where
  "Logging next r app =
     (case next r app of
        (sv, app1) \<Rightarrow>
          if sv_panic sv \<noteq> None then (sv, app1)
          else (let code = recorded_status 200 (sv_ops sv);
                    line = \<lparr>ln_level = response_level code, ln_method = rq_Method r, ln_path = rq_Path r, ln_status = code,
                            ln_duration_ms = (ap_now app1 - ap_now app) div 1000000, ln_bytes = rs_body (response_of (sv_ops sv)),
                            ln_request_id = GetRequestID r, ln_ip = rq_RemoteAddr r\<rparr>
                in (sv, app1\<lparr>ap_log := ap_log app1 @ [RequestLine line]\<rparr>)))"

definition RecordRequest :: "string \<Rightarrow> string \<Rightarrow> int \<Rightarrow> int \<Rightarrow> metrics \<Rightarrow> metrics" where
  "RecordRequest meth path code d mx =
     mx\<lparr>httpRequestsTotal := (httpRequestsTotal mx)((meth, path, show_int code) := httpRequestsTotal mx (meth, path, show_int code) + 1),
        httpDurationSeconds := (httpDurationSeconds mx)((meth, path) := httpDurationSeconds mx (meth, path) @ [Seconds d])\<rparr>"

definition IncrementActive :: "metrics \<Rightarrow> metrics" where
  "IncrementActive mx = mx\<lparr>activeRequests := activeRequests mx + 1\<rparr>"

definition DecrementActive :: "metrics \<Rightarrow> metrics" where
  "DecrementActive mx = mx\<lparr>activeRequests := activeRequests mx - 1\<rparr>"

definition measure_app :: "(metrics \<Rightarrow> metrics) \<Rightarrow> 'db app \<Rightarrow> 'db app" where
  "measure_app f app = app\<lparr>ap_metrics := f (ap_metrics app)\<rparr>"

definition MetricsMiddleware :: "'db handler \<Rightarrow> 'db handler" where
  "MetricsMiddleware next r app =
     (case next r (measure_app IncrementActive app) of
        (sv, app1) \<Rightarrow>
          if sv_panic sv \<noteq> None then (sv, measure_app DecrementActive app1)
          else (sv, measure_app DecrementActive (measure_app (RecordRequest (rq_Method r) (rq_Path r)
                 (recorded_status 200 (sv_ops sv)) (ap_now app1 - ap_now app)) app1)))"

definition APIKeyAuth :: "'db MerchantRepository \<Rightarrow> 'db handler \<Rightarrow> 'db handler" where
  "APIKeyAuth merchants next r app =
     (let authHeader = Header_Get r ''Authorization'' in
      if authHeader = [] then (respond_with (writeError 401 ''UNAUTHORIZED'' ''missing Authorization header''), app)
      else (let parts = SplitN2 (CHR '' '') authHeader in
        if length parts \<noteq> 2 \<or> parts ! 0 \<noteq> ''Bearer''
        then (respond_with (writeError 401 ''UNAUTHORIZED'' ''format: Bearer <api_key>''), app)
        else (case in_world (rcall (MR_GetByAPIKey merchants OnDB (rq_Context r) (parts ! 1))) app of
            (Inl err, app1) \<Rightarrow> (respond_with (writeError 401 ''UNAUTHORIZED'' ''invalid API key''), app1)
          | (Inr merchant, app1) \<Rightarrow>
              if \<not> IsActive merchant then (respond_with (writeError 403 ''FORBIDDEN'' ''merchant account is not active''), app1)
              else next (r\<lparr>rq_Merchant := Some merchant\<rparr>) app1)))"

definition clientIDFromRequest :: "Request \<Rightarrow> string" where
  "clientIDFromRequest r =
     (let forwarded = TrimSpace (Header_Get r ''X-Forwarded-For'');
          ip = (if forwarded = [] then [] else TrimSpace (hd (Split (CHR '','') forwarded)));
          addr = TrimSpace (rq_RemoteAddr r)
      in if ip \<noteq> [] then ip
         else (case SplitHostPort addr of
                 Some host \<Rightarrow> if host \<noteq> [] then host else if addr \<noteq> [] then addr else ''unknown''
               | None \<Rightarrow> if addr \<noteq> [] then addr else ''unknown''))"

text \<open>\<open>RequestLimiter\<close>: the in-memory limiter, or the one in Redis, whose client may be nil.\<close>

type_synonym 'db RequestLimiter = "go_context \<Rightarrow> string \<Rightarrow> 'db app \<Rightarrow> (go_error + bool) \<times> 'db app"

definition in_memory_limiter :: "'db RequestLimiter" where
  "in_memory_limiter ctx key app =
     (case RateLimiter_Allow key (ap_now app) (ap_limiter app) of (b, rl) \<Rightarrow> (Inr b, app\<lparr>ap_limiter := rl\<rparr>))"

record RedisRateLimiter =
  rr_client :: bool
  rr_rate :: rat
  rr_burst :: rat

definition NewRedisRateLimiter :: "bool \<Rightarrow> rat \<Rightarrow> rat \<Rightarrow> RedisRateLimiter" where
  "NewRedisRateLimiter client rate burst = \<lparr>rr_client = client, rr_rate = rate, rr_burst = burst\<rparr>"

definition rateLimitRedisKey :: "string \<Rightarrow> string" where
  "rateLimitRedisKey clientID = ''rate_limit:{'' @ clientID @ ''}''"

definition Redis_Allow :: "RedisRateLimiter option \<Rightarrow> 'db RequestLimiter" where
  "Redis_Allow rl ctx key app =
     (case rl of
        None \<Rightarrow> (Inr True, app)
      | Some l \<Rightarrow>
          if \<not> rr_client l then (Inr True, app)
          else (case rd_call (rate_limit_script (rateLimitRedisKey key) (rr_rate l) (rr_burst l)) ctx app of
                  (Inl err, app1) \<Rightarrow> (Inr True, app1)
                | (Inr res, app1) \<Rightarrow> (Inr (res = 1), app1)))"

definition RateLimit :: "'db RequestLimiter option \<Rightarrow> 'db handler \<Rightarrow> 'db handler" where
  "RateLimit allower next r app =
     (case allower of
        None \<Rightarrow> next r app
      | Some allow \<Rightarrow>
          (case allow (rq_Context r) (clientIDFromRequest r) app of
             (Inl err, app1) \<Rightarrow> next r app1
           | (Inr True, app1) \<Rightarrow> next r app1
           | (Inr False, app1) \<Rightarrow>
               (respond_with (SetHeader ''Retry-After'' ''1'' # writeError 429 ''RATE_LIMITED'' ''too many requests''), app1)))"

definition Recovery :: "'db handler \<Rightarrow> 'db handler" where
  "Recovery next r app =
     (case next r app of
        (sv, app1) \<Rightarrow>
          (case sv_panic sv of
             None \<Rightarrow> (sv, app1)
           | Some err \<Rightarrow>
               (respond_with (sv_ops sv @ writeError 500 ''INTERNAL_ERROR'' ''an unexpected error occurred''),
                app1\<lparr>ap_log := ap_log app1 @ [PanicLine \<lparr>pl_error = err, pl_request_id = GetRequestID r, pl_path = rq_Path r\<rparr>]\<rparr>)))"

definition CORS :: "'db handler \<Rightarrow> 'db handler" where
  "CORS next r app =
     (let ops = [SetHeader ''Access-Control-Allow-Origin'' ''*'',
                 SetHeader ''Access-Control-Allow-Methods'' ''GET, POST, PUT, DELETE, OPTIONS'',
                 SetHeader ''Access-Control-Allow-Headers''
                   ''Content-Type, Authorization, X-Request-ID, X-Idempotency-Key, Idempotency-Key'',
                 SetHeader ''Access-Control-Max-Age'' ''86400'']
      in if rq_Method r = ''OPTIONS'' then (respond_with (ops @ [WriteHeader 204]), app)
         else before ops (next r app))"

end
