(* ===== verification/Payflow_Idempotency.thy ===== *)
theory Payflow_Idempotency
  imports Payflow_Http
begin

text \<open>
  The idempotency store and middleware (\<open>internal/middleware/idempotency_store.go\<close>,
  \<open>idempotency_middleware.go\<close>) on Redis. The middleware is split at the call of the next handler, where
  other requests can come in between; \<open>idem_step\<close> interleaves requests.
\<close>

section \<open>The store\<close>

definition idempotencyCompletedTTL :: int where "idempotencyCompletedTTL = 24 * 3600 * 1000000000"

type_synonym IdempotencyDecision = string

definition IdempotencyProceed :: IdempotencyDecision where "IdempotencyProceed = ''PROCEED''"
definition IdempotencyInProgress :: IdempotencyDecision where "IdempotencyInProgress = ''IN_PROGRESS''"
definition IdempotencyCompleted :: IdempotencyDecision where "IdempotencyCompleted = ''COMPLETED''"

record IdempotencyResult =
  ir_Decision :: IdempotencyDecision
  ir_StatusCode :: int
  ir_Body :: bytes

text \<open>\<open>is_client\<close> says whether the store has a Redis client; a nil store is \<open>None\<close>.\<close>

record IdempotencyStore =
  is_client :: bool

definition NewIdempotencyStore :: "bool \<Rightarrow> IdempotencyStore option" where
  "NewIdempotencyStore client = Some \<lparr>is_client = client\<rparr>"

definition idempotencyRedisKey :: "string \<Rightarrow> string \<Rightarrow> string" where
  "idempotencyRedisKey merchantID key = ''idempotency:{'' @ merchantID @ ''}:'' @ key"

definition disabled :: "IdempotencyStore option \<Rightarrow> string \<Rightarrow> string \<Rightarrow> bool" where
  "disabled s merchantID key \<longleftrightarrow>
     (case s of None \<Rightarrow> True | Some st \<Rightarrow> \<not> is_client st) \<or> merchantID = [] \<or> key = []"

definition proceed_result :: IdempotencyResult where
  "proceed_result = \<lparr>ir_Decision = IdempotencyProceed, ir_StatusCode = 0, ir_Body = []\<rparr>"

definition Check :: "IdempotencyStore option \<Rightarrow> go_context \<Rightarrow> string \<Rightarrow> string \<Rightarrow> 'db app \<Rightarrow> (go_error + IdempotencyResult) \<times> 'db app" where
  "Check s ctx merchantID key app =
     (if disabled s merchantID key then (Inr proceed_result, app)
      else (case rd_call (idempotency_check (idempotencyRedisKey merchantID key)) ctx app of
          (Inl err, app1) \<Rightarrow> (Inl err, app1)
        | (Inr (decision, values), app1) \<Rightarrow>
            (let result = \<lparr>ir_Decision = decision, ir_StatusCode = 0, ir_Body = []\<rparr>
             in if decision \<noteq> IdempotencyCompleted then (Inr result, app1)
                else (case values of
                    None \<Rightarrow> (Inr result, app1)
                  | Some (status, body) \<Rightarrow>
                      (Inr (result\<lparr>ir_StatusCode := (case Atoi status of (n, None) \<Rightarrow> sint n | (_, Some _) \<Rightarrow> 0),
                                   ir_Body := body\<rparr>), app1)))))"

definition store_pipeline :: "string \<Rightarrow> int \<Rightarrow> bytes \<Rightarrow> unit command" where
  "store_pipeline k statusCode body t ks =
     ((), EXPIRE t k idempotencyCompletedTTL
            (HSET t k (\<lambda>h. h\<lparr>rh_state := Some ''completed'', rh_status_code := Some (show_int statusCode),
                            rh_response_body := Some body\<rparr>) ks))"

definition result_err :: "(go_error + 'r) \<times> 'db app \<Rightarrow> go_error option \<times> 'db app" where
  "result_err res = (case res of (Inl err, app) \<Rightarrow> (Some err, app) | (Inr _, app) \<Rightarrow> (None, app))"

definition StoreCompleted ::
  "IdempotencyStore option \<Rightarrow> go_context \<Rightarrow> string \<Rightarrow> string \<Rightarrow> int \<Rightarrow> bytes \<Rightarrow> 'db app \<Rightarrow> go_error option \<times> 'db app" where
  "StoreCompleted s ctx merchantID key statusCode body app =
     (if disabled s merchantID key then (None, app)
      else result_err (rd_call (store_pipeline (idempotencyRedisKey merchantID key) statusCode body) ctx app))"

definition Release :: "IdempotencyStore option \<Rightarrow> go_context \<Rightarrow> string \<Rightarrow> string \<Rightarrow> 'db app \<Rightarrow> go_error option \<times> 'db app" where
  "Release s ctx merchantID key app =
     (if disabled s merchantID key then (None, app)
      else result_err (rd_call (\<lambda>t ks. ((), DEL (idempotencyRedisKey merchantID key) ks)) ctx app))"

section \<open>The middleware\<close>

text \<open>
  \<open>idempotencyResponseWriter\<close> passes everything on and remembers \<^const>\<open>recorded_status\<close> and
  \<^const>\<open>recorded_body\<close>.
\<close>

text \<open>\<open>ResponseWriter.WriteHeader\<close> panics on a code that has not three digits.\<close>

definition valid_code :: "int \<Rightarrow> bool" where
  "valid_code code \<longleftrightarrow> 100 \<le> code \<and> code \<le> 999"

definition replay :: "IdempotencyResult \<Rightarrow> served" where
  "replay result =
     (let code = (if ir_StatusCode result = 0 then 200 else ir_StatusCode result) in
      if \<not> valid_code code
      then \<lparr>sv_ops = [SetHeader ''Content-Type'' ''application/json''], sv_panic = Some ''invalid WriteHeader code''\<rparr>
      else respond_with ([SetHeader ''Content-Type'' ''application/json'', WriteHeader code]
             @ (if bytes_empty (ir_Body result) then [] else [Write (ir_Body result)])))"

datatype idem_entry =
    Bypass Request
  | Replied served
  | Claimed Request string string

definition idempotency_key :: "Request \<Rightarrow> string" where
  "idempotency_key r =
     (let key = Header_Get r ''Idempotency-Key'' in if key = [] then Header_Get r ''X-Idempotency-Key'' else key)"

definition with_key :: "Request \<Rightarrow> Request" where
  "with_key r =
     (if Header_Get r ''X-Idempotency-Key'' = []
      then r\<lparr>rq_Header := (rq_Header r)(''X-Idempotency-Key'' \<mapsto> idempotency_key r)\<rparr> else r)"

definition idem_enter :: "IdempotencyStore option \<Rightarrow> Request \<Rightarrow> 'db app \<Rightarrow> idem_entry \<times> 'db app" where
  "idem_enter store r app =
     (let key = idempotency_key r in
      if key = [] then (Bypass r, app)
      else (case GetMerchant r of
          None \<Rightarrow> (Bypass (with_key r), app)
        | Some merchant \<Rightarrow>
            (case Check store (rq_Context r) (m_ID merchant) key app of
               (Inl err, app1) \<Rightarrow> (Bypass (with_key r), app1)
             | (Inr result, app1) \<Rightarrow>
                 if ir_Decision result = IdempotencyCompleted then (Replied (replay result), app1)
                 else if ir_Decision result = IdempotencyInProgress
                 then (Replied (respond_with (writeError 409 ''IDEMPOTENCY_IN_PROGRESS''
                        ''request with this idempotency key is already in progress'')), app1)
                 else (Claimed (with_key r) (m_ID merchant) key, app1))))"

text \<open>After the next handler; a panic unwinds past this code.\<close>

definition idem_leave :: "IdempotencyStore option \<Rightarrow> go_context \<Rightarrow> string \<Rightarrow> string \<Rightarrow> served \<Rightarrow> 'db app \<Rightarrow> 'db app" where
  "idem_leave store ctx merchantID key sv app =
     (if sv_panic sv \<noteq> None then app
      else (let code = recorded_status 200 (sv_ops sv) in
        if 200 \<le> code \<and> code < 300
        then (case StoreCompleted store ctx merchantID key code (recorded_body (sv_ops sv)) app of
                (Some err, app1) \<Rightarrow> snd (Release store ctx merchantID key app1)
              | (None, app1) \<Rightarrow> app1)
        else snd (Release store ctx merchantID key app)))"

definition Idempotency :: "IdempotencyStore option \<Rightarrow> 'db handler \<Rightarrow> 'db handler" where
  "Idempotency store next r app =
     (case idem_enter store r app of
        (Bypass r1, app1) \<Rightarrow> next r1 app1
      | (Replied sv, app1) \<Rightarrow> (sv, app1)
      | (Claimed r1 merchantID key, app1) \<Rightarrow>
          (case next r1 app1 of (sv, app2) \<Rightarrow> (sv, idem_leave store (rq_Context r) merchantID key sv app2)))"

section \<open>Interleaved requests\<close>

text \<open>
  A claim is a request between \<open>idem_enter\<close> and \<open>idem_leave\<close>: its merchant, key and context, and when it
  was made. \<open>others\<close> is whatever else goes on, which leaves the keys of the store alone.
\<close>

record claim =
  cl_merchant :: string
  cl_key :: string
  cl_ctx :: go_context
  cl_since :: int

definition claim_key :: "claim \<Rightarrow> string" where
  "claim_key c = idempotencyRedisKey (cl_merchant c) (cl_key c)"

definition idem_keys_same :: "'db app \<Rightarrow> 'db app \<Rightarrow> bool" where
  "idem_keys_same app app' \<longleftrightarrow> ap_now app \<le> ap_now app' \<and>
     (\<forall>m k. rd_keys (ap_redis app') (idempotencyRedisKey m k) = rd_keys (ap_redis app) (idempotencyRedisKey m k))"

inductive idem_step ::
  "IdempotencyStore option \<Rightarrow> 'db app \<times> claim list \<Rightarrow> 'db app \<times> claim list \<Rightarrow> bool"
  for store where
  claimed: "idem_enter store r app = (Claimed r1 m k, app1)
    \<Longrightarrow> idem_step store (app, cs) (app1, cs @ [\<lparr>cl_merchant = m, cl_key = k, cl_ctx = rq_Context r, cl_since = ap_now app\<rparr>])"
| refused: "idem_enter store r app = (Replied sv, app1) \<Longrightarrow> idem_step store (app, cs) (app1, cs)"
| bypassed: "idem_enter store r app = (Bypass r1, app1) \<Longrightarrow> idem_step store (app, cs) (app1, cs)"
| left: "idem_step store (app, cs @ c # cs') (idem_leave store (cl_ctx c) (cl_merchant c) (cl_key c) sv app, cs @ cs')"
| others: "idem_keys_same app app' \<Longrightarrow> idem_step store (app, cs) (app', cs)"

inductive_cases idem_stepE: "idem_step store s s'"

text \<open>No claim is older than the lifetime the script gives it.\<close>

definition timely :: "'db app \<times> claim list \<Rightarrow> bool" where
  "timely s \<longleftrightarrow> (\<forall>c \<in> set (snd s). ap_now (fst s) \<le> cl_since c + 60 * 1000000000)"

section \<open>Facts\<close>

lemma rd_call_keeps:
  assumes "\<And>ks. P ks \<Longrightarrow> P (snd (cmd (ap_now app) ks))" and "P (rd_keys (ap_redis app))" and "rd_call cmd ctx app = (r, app')"
  shows "P (rd_keys (ap_redis app'))"
  using redis_call_keeps [where P = P and cmd = cmd and t = "ap_now app" and rd = "ap_redis app" and ctx = ctx] assms
  by (auto simp: rd_call_def split: prod.splits)

lemma rd_call_now: "rd_call cmd ctx app = (r, app') \<Longrightarrow> ap_now app \<le> ap_now app'"
  by (auto simp: rd_call_def tick_def split: prod.splits)

text \<open>A key that is claimed and alive is left alone by checks, and by commands on other keys.\<close>

definition holds_claim :: "int \<Rightarrow> string \<Rightarrow> int \<Rightarrow> keyspace \<Rightarrow> bool" where
  "holds_claim t k e ks \<longleftrightarrow> t \<le> e \<and> (\<exists>h x. ks k = Some (h, Some x) \<and> e \<le> x \<and> rh_state h = Some ''in_progress'')"

lemma idempotency_check_claim:
  "holds_claim t k e ks \<Longrightarrow> holds_claim t k e (snd (idempotency_check k' t ks))"
  by (cases "k' = k")
    (auto simp: holds_claim_def idempotency_check_def Let_def HMGET_def HSET_def EXPIRE_def lookup_key_def live_def
      split: option.splits prod.splits)

lemma store_pipeline_other: "k' \<noteq> k \<Longrightarrow> snd (store_pipeline k' code b t ks) k = ks k"
  by (auto simp: store_pipeline_def HSET_def EXPIRE_def lookup_key_def split: option.splits)

lemma DEL_other: "k' \<noteq> k \<Longrightarrow> DEL k' ks k = ks k"
  by (simp add: DEL_def)

text \<open>The script claims a key that is free, and only once.\<close>

lemma idempotency_check_proceed:
  assumes "idempotency_check k t ks = ((''PROCEED'', v), ks')"
  shows "holds_claim t k (t + 60 * 1000000000) ks'" and "\<not> holds_claim t k e ks"
  using assms
  by (auto simp: holds_claim_def idempotency_check_def Let_def HMGET_def HSET_def EXPIRE_def lookup_key_def live_def no_hash_def
      split: option.splits prod.splits if_splits)

lemma HMGET_after_set:
  "0 \<le> d \<Longrightarrow> HMGET t k (EXPIRE t k d (HSET t k f ks)) = f (HMGET t k ks)"
  by (cases "lookup_key t ks k") (auto simp: HMGET_def EXPIRE_def HSET_def lookup_key_def live_def split: option.splits if_splits)

lemma idempotency_check_taken:
  "idempotency_check k t (snd (idempotency_check k t ks)) \<noteq> ((''PROCEED'', v), ks')"
proof -
  have "rh_state (HMGET t k (snd (idempotency_check k t ks))) \<in> {Some ''completed'', Some ''in_progress''}"
    by (auto simp: idempotency_check_def [of k t ks] Let_def HMGET_after_set)
  then show ?thesis by (auto simp: idempotency_check_def [of k t "snd (idempotency_check k t ks)"] Let_def)
qed

lemma check_call_claims:
  assumes "rd_call (idempotency_check k) ctx app = (Inr (''PROCEED'', v), app1)"
  shows "holds_claim (ap_now app) k (ap_now app + 60 * 1000000000) (rd_keys (ap_redis app1))"
    and "\<not> holds_claim (ap_now app) k e (rd_keys (ap_redis app))"
proof -
  let ?ks = "rd_keys (ap_redis app)" and ?t = "ap_now app" and ?c = "idempotency_check k"
  obtain rd where "redis_call ?c ctx ?t (ap_redis app) = (Inr (''PROCEED'', v), rd)" "ap_redis app1 = rd"
    using assms by (auto simp: rd_call_def split: prod.splits)
  from redis_call_Inr [OF this(1)] this(2) obtain n where
    n: "((''PROCEED'', v), rd_keys (ap_redis app1)) = ?c ?t (executed n ?c ?t ?ks)" by auto
  have "n = 0"
  proof (cases n)
    case (Suc m)
    then show ?thesis using n idempotency_check_taken [of k ?t "executed m ?c ?t ?ks"] by (metis executed_Suc)
  qed
  with n have "?c ?t ?ks = ((''PROCEED'', v), rd_keys (ap_redis app1))" by simp
  from idempotency_check_proceed [OF this] show "holds_claim ?t k (?t + 60 * 1000000000) (rd_keys (ap_redis app1))"
    "\<not> holds_claim ?t k e ?ks" by blast+
qed

section \<open>Claims are exclusive\<close>

definition store_claims :: "claim list \<Rightarrow> claim list" where
  "store_claims cs = filter (\<lambda>c. cl_merchant c \<noteq> [] \<and> cl_key c \<noteq> []) cs"

definition claims_inv :: "'db app \<times> claim list \<Rightarrow> bool" where
  "claims_inv s \<longleftrightarrow> distinct (map claim_key (store_claims (snd s)))
     \<and> (\<forall>c \<in> set (store_claims (snd s)).
          holds_claim (ap_now (fst s)) (claim_key c) (cl_since c + 60 * 1000000000) (rd_keys (ap_redis (fst s))))"

text \<open>Entering leaves the claims of others alone.\<close>

lemma Check_keeps_claim:
  assumes "Check store ctx m k app = (r, app')" and "holds_claim (ap_now app) key e (rd_keys (ap_redis app))"
  shows "holds_claim (ap_now app) key e (rd_keys (ap_redis app')) \<and> ap_now app \<le> ap_now app'"
proof (cases "disabled store m k")
  case True
  then show ?thesis using assms by (simp add: Check_def)
next
  case False
  then obtain x where c: "rd_call (idempotency_check (idempotencyRedisKey m k)) ctx app = (x, app')"
    using assms(1) by (auto simp: Check_def Let_def split: prod.splits sum.splits if_splits option.splits)
  show ?thesis
    using rd_call_keeps [where P = "holds_claim (ap_now app) key e", OF _ assms(2) c] idempotency_check_claim rd_call_now [OF c] by blast
qed

lemma idem_enter_keeps_claim:
  assumes "idem_enter store r app = (x, app')" and "holds_claim (ap_now app) key e (rd_keys (ap_redis app))"
  shows "holds_claim (ap_now app) key e (rd_keys (ap_redis app')) \<and> ap_now app \<le> ap_now app'"
proof -
  have "app' = app \<or> (\<exists>m k y. Check store (rq_Context r) m k app = (y, app'))"
    using assms(1) by (auto simp: idem_enter_def Let_def split: option.splits prod.splits sum.splits if_splits)
  then show ?thesis using Check_keeps_claim assms(2) by blast
qed

lemma Check_decision:
  assumes "\<not> disabled store m k" and "Check store ctx m k app = (Inr result, app')"
  shows "\<exists>v. rd_call (idempotency_check (idempotencyRedisKey m k)) ctx app = (Inr (ir_Decision result, v), app')"
  using assms by (auto simp: Check_def Let_def split: prod.splits sum.splits if_splits option.splits)

lemma idempotency_check_decisions:
  "fst (fst (idempotency_check k t ks)) \<in> {IdempotencyProceed, IdempotencyInProgress, IdempotencyCompleted}"
  by (simp add: idempotency_check_def Let_def IdempotencyProceed_def IdempotencyInProgress_def IdempotencyCompleted_def)

lemma idem_enter_claims:
  assumes "idem_enter (Some \<lparr>is_client = True\<rparr>) r app = (Claimed r1 m k, app1)" and "m \<noteq> []"
  shows "holds_claim (ap_now app) (idempotencyRedisKey m k) (ap_now app + 60 * 1000000000) (rd_keys (ap_redis app1))"
    and "\<not> holds_claim (ap_now app) (idempotencyRedisKey m k) e (rd_keys (ap_redis app))"
    and "ap_now app \<le> ap_now app1"
proof -
  obtain result where c: "Check (Some \<lparr>is_client = True\<rparr>) (rq_Context r) m k app = (Inr result, app1)"
    and d: "ir_Decision result \<noteq> IdempotencyCompleted" "ir_Decision result \<noteq> IdempotencyInProgress" and k: "k \<noteq> []"
    using assms(1) by (auto simp: idem_enter_def Let_def split: option.splits prod.splits sum.splits if_splits)
  have "\<not> disabled (Some \<lparr>is_client = True\<rparr>) m k" using k assms(2) by (simp add: disabled_def)
  from Check_decision [OF this c] obtain v where
    r: "rd_call (idempotency_check (idempotencyRedisKey m k)) (rq_Context r) app = (Inr (ir_Decision result, v), app1)" by blast
  then obtain rd where "redis_call (idempotency_check (idempotencyRedisKey m k)) (rq_Context r) (ap_now app) (ap_redis app)
      = (Inr (ir_Decision result, v), rd)" by (auto simp: rd_call_def split: prod.splits)
  from redis_call_Inr [OF this] obtain ks where
    "((ir_Decision result, v), rd_keys rd) = idempotency_check (idempotencyRedisKey m k) (ap_now app) ks" by blast
  with idempotency_check_decisions [of "idempotencyRedisKey m k" "ap_now app" ks] d have "ir_Decision result = ''PROCEED''"
    by (metis IdempotencyProceed_def empty_iff fst_conv insertE)
  with r have r': "rd_call (idempotency_check (idempotencyRedisKey m k)) (rq_Context r) app = (Inr (''PROCEED'', v), app1)" by simp
  show "holds_claim (ap_now app) (idempotencyRedisKey m k) (ap_now app + 60 * 1000000000) (rd_keys (ap_redis app1))"
    "\<not> holds_claim (ap_now app) (idempotencyRedisKey m k) e (rd_keys (ap_redis app))"
    by (rule check_call_claims [OF r'])+
  show "ap_now app \<le> ap_now app1" by (rule rd_call_now [OF r'])
qed

text \<open>Leaving touches no other key.\<close>

lemma Release_other:
  assumes "Release store ctx m k app = (r, app')" and "idempotencyRedisKey m k \<noteq> key"
  shows "rd_keys (ap_redis app') key = rd_keys (ap_redis app) key \<and> ap_now app \<le> ap_now app'"
proof (cases "disabled store m k")
  case False
  then obtain x where c: "rd_call (\<lambda>t ks. ((), DEL (idempotencyRedisKey m k) ks)) ctx app = (x, app')"
    using assms(1) by (auto simp: Release_def result_err_def split: prod.splits sum.splits)
  show ?thesis
    using rd_call_keeps [where P = "\<lambda>ks. ks key = rd_keys (ap_redis app) key", OF _ refl c] DEL_other [OF assms(2)] rd_call_now [OF c]
    by simp
qed (use assms in \<open>simp add: Release_def\<close>)

lemma StoreCompleted_other:
  assumes "StoreCompleted store ctx m k code body app = (r, app')" and "idempotencyRedisKey m k \<noteq> key"
  shows "rd_keys (ap_redis app') key = rd_keys (ap_redis app) key \<and> ap_now app \<le> ap_now app'"
proof (cases "disabled store m k")
  case False
  then obtain x where c: "rd_call (store_pipeline (idempotencyRedisKey m k) code body) ctx app = (x, app')"
    using assms(1) by (auto simp: StoreCompleted_def result_err_def split: prod.splits sum.splits)
  show ?thesis
    using rd_call_keeps [where P = "\<lambda>ks. ks key = rd_keys (ap_redis app) key", OF _ refl c] store_pipeline_other [OF assms(2)] rd_call_now [OF c]
    by simp
qed (use assms in \<open>simp add: StoreCompleted_def\<close>)

lemma idem_leave_other:
  assumes "idempotencyRedisKey m k \<noteq> key"
  shows "rd_keys (ap_redis (idem_leave store ctx m k sv app)) key = rd_keys (ap_redis app) key
    \<and> ap_now app \<le> ap_now (idem_leave store ctx m k sv app)"
proof -
  obtain r2 app2 where s: "StoreCompleted store ctx m k (recorded_status 200 (sv_ops sv)) (recorded_body (sv_ops sv)) app = (r2, app2)" by fastforce
  obtain r3 app3 where r3: "Release store ctx m k app2 = (r3, app3)" by fastforce
  obtain r4 app4 where r4: "Release store ctx m k app = (r4, app4)" by fastforce
  show ?thesis
    using StoreCompleted_other [OF s assms] Release_other [OF r3 assms] Release_other [OF r4 assms]
    by (auto simp: idem_leave_def Let_def s r3 r4 split: option.splits)
qed

lemma idem_leave_now: "ap_now app \<le> ap_now (idem_leave store ctx m k sv app)"
  using idem_leave_other [of m k "idempotencyRedisKey m k @ ''x''" store ctx sv app] by simp

lemma idem_enter_now: "idem_enter store r app = (x, app') \<Longrightarrow> ap_now app \<le> ap_now app'"
  by (auto simp: idem_enter_def Check_def Let_def split: option.splits prod.splits sum.splits if_splits dest!: rd_call_now)

lemma holds_claim_later: "holds_claim t k e ks \<Longrightarrow> t' \<le> e \<Longrightarrow> ks' k = ks k \<Longrightarrow> holds_claim t' k e ks'"
  by (auto simp: holds_claim_def)

lemma store_claims_simps [simp]:
  "store_claims [] = []" "store_claims (cs @ cs') = store_claims cs @ store_claims cs'"
  "store_claims (c # cs) = (if cl_merchant c \<noteq> [] \<and> cl_key c \<noteq> [] then c # store_claims cs else store_claims cs)"
  "c \<in> set (store_claims cs) \<longleftrightarrow> c \<in> set cs \<and> cl_merchant c \<noteq> [] \<and> cl_key c \<noteq> []"
  by (auto simp: store_claims_def)

lemma enter_keeps_inv:
  assumes e: "idem_enter store r app = (x, app1)" and inv: "claims_inv (app, cs)" and t: "timely (app1, cs)"
  shows "claims_inv (app1, cs)"
proof -
  have "holds_claim (ap_now app1) (claim_key c) (cl_since c + 60 * 1000000000) (rd_keys (ap_redis app1))"
    if c: "c \<in> set (store_claims cs)" for c
  proof -
    have "holds_claim (ap_now app) (claim_key c) (cl_since c + 60 * 1000000000) (rd_keys (ap_redis app))"
      using inv c by (simp add: claims_inv_def)
    from idem_enter_keeps_claim [OF e this] have
      "holds_claim (ap_now app) (claim_key c) (cl_since c + 60 * 1000000000) (rd_keys (ap_redis app1))" by blast
    moreover have "ap_now app1 \<le> cl_since c + 60 * 1000000000" using t c by (auto simp: timely_def)
    ultimately show ?thesis by (rule holds_claim_later) simp
  qed
  then show ?thesis using inv by (simp add: claims_inv_def)
qed

lemma idem_step_inv:
  assumes "idem_step (Some \<lparr>is_client = True\<rparr>) s s'" and inv: "claims_inv s" and t: "timely s'"
  shows "claims_inv s'"
  using assms(1)
proof cases
  case (claimed r app r1 m k app1 cs)
  let ?c = "\<lparr>cl_merchant = m, cl_key = k, cl_ctx = rq_Context r, cl_since = ap_now app\<rparr>"
  have cs: "claims_inv (app1, cs)"
    using enter_keeps_inv [OF claimed(3)] inv t claimed(1,2) by (simp add: timely_def)
  show ?thesis
  proof (cases "m \<noteq> [] \<and> k \<noteq> []")
    case True
    note C = idem_enter_claims [OF claimed(3) conjunct1 [OF True]]
    have "claim_key ?c \<notin> set (map claim_key (store_claims cs))"
    proof
      assume "claim_key ?c \<in> set (map claim_key (store_claims cs))"
      then obtain c where "c \<in> set (store_claims cs)" "claim_key c = idempotencyRedisKey m k"
        by (auto simp: claim_key_def)
      with inv claimed(1) C(2) show False unfolding claims_inv_def by (metis fst_conv snd_conv)
    qed
    moreover have "holds_claim (ap_now app1) (claim_key ?c) (ap_now app + 60 * 1000000000) (rd_keys (ap_redis app1))"
      using holds_claim_later [OF C(1), of "ap_now app1"] t claimed(2) by (auto simp: claim_key_def timely_def)
    ultimately show ?thesis using cs True unfolding claimed(2) claims_inv_def by auto
  qed (use cs in \<open>auto simp: claimed(2) claims_inv_def\<close>)
next
  case (refused r app sv app1 cs)
  then show ?thesis using enter_keeps_inv inv t by blast
next
  case (bypassed r app r1 app1 cs)
  then show ?thesis using enter_keeps_inv inv t by blast
next
  case (left app cs c cs' sv)
  let ?app = "idem_leave (Some \<lparr>is_client = True\<rparr>) (cl_ctx c) (cl_merchant c) (cl_key c) sv app"
  have inv': "distinct (map claim_key (store_claims (cs @ c # cs')))"
    "\<And>d. d \<in> set (store_claims (cs @ c # cs')) \<Longrightarrow>
       holds_claim (ap_now app) (claim_key d) (cl_since d + 60 * 1000000000) (rd_keys (ap_redis app))"
    using inv left(1) by (auto simp: claims_inv_def)
  have keep: "holds_claim (ap_now ?app) (claim_key d) (cl_since d + 60 * 1000000000) (rd_keys (ap_redis ?app))"
    if d: "d \<in> set (store_claims (cs @ cs'))" for d
  proof -
    have t_d: "ap_now ?app \<le> cl_since d + 60 * 1000000000" using t left(2) d by (auto simp: timely_def)
    have d0: "d \<in> set (store_claims (cs @ c # cs'))" using d by (auto split: if_splits)
    note h = holds_claim_later [OF inv'(2) [OF d0] t_d]
    show ?thesis
    proof (cases "claim_key c = claim_key d")
      case True
      have "c \<notin> set (store_claims (cs @ c # cs'))"
      proof
        assume "c \<in> set (store_claims (cs @ c # cs'))"
        then have "claim_key c \<notin> claim_key ` set (store_claims (cs @ cs'))" using inv'(1) by (auto split: if_splits)
        then show False using True d by (metis image_eqI)
      qed
      then have "cl_merchant c = [] \<or> cl_key c = []" by (auto split: if_splits)
      then have "?app = app" by (auto simp: idem_leave_def StoreCompleted_def Release_def disabled_def Let_def)
      then show ?thesis by (intro h) simp
    next
      case False
      from idem_leave_other [OF this [unfolded claim_key_def [of c]], of "Some \<lparr>is_client = True\<rparr>" "cl_ctx c" sv app]
      show ?thesis by (intro h) simp
    qed
  qed
  moreover have "distinct (map claim_key (store_claims (cs @ cs')))" using inv'(1) by (auto split: if_splits)
  ultimately show ?thesis unfolding left(2) claims_inv_def by simp
next
  case (others app app' cs)
  have "rd_keys (ap_redis app') (claim_key c) = rd_keys (ap_redis app) (claim_key c)" for c
    using others(3) by (simp add: idem_keys_same_def claim_key_def)
  then show ?thesis using inv t others(1,2) holds_claim_later unfolding claims_inv_def timely_def by fastforce
qed

section \<open>Replay\<close>

lemma idem_leave_stores:
  assumes "sv_panic sv = None" and "200 \<le> recorded_status 200 (sv_ops sv)" and "recorded_status 200 (sv_ops sv) < 300"
    and "m \<noteq> []" and "k \<noteq> []" and "ctx_Err ctx (ap_now app) = None" and "rd_faults (ap_redis app) = []"
  shows "\<exists>h. rd_keys (ap_redis (idem_leave (NewIdempotencyStore True) ctx m k sv app)) (idempotencyRedisKey m k)
        = Some (h, Some (ap_now app + idempotencyCompletedTTL))
      \<and> rh_state h = Some ''completed'' \<and> rh_status_code h = Some (show_int (recorded_status 200 (sv_ops sv)))
      \<and> rh_response_body h = Some (recorded_body (sv_ops sv))"
  using assms
  by (auto simp: idem_leave_def Let_def StoreCompleted_def disabled_def NewIdempotencyStore_def rd_call_def redis_call_ok
      result_err_def store_pipeline_def HSET_def EXPIRE_def lookup_key_def live_def split: option.splits if_splits)

lemma Atoi_show_code: "200 \<le> code \<Longrightarrow> code < 300 \<Longrightarrow> case Atoi (show_int code) of (n, None) \<Rightarrow> sint n = code | (_, Some _) \<Rightarrow> False"
proof -
  assume "200 \<le> code" "code < 300"
  then have "sint (word_of_int code :: int64) = code" by (simp add: signed_of_int signed_take_bit_int_eq_self)
  with ParseInt_show_int [of "word_of_int code"] show ?thesis by (simp add: Atoi_def)
qed

lemma idempotency_check_completed:
  assumes "ks k = Some (h, Some e)" and "t \<le> e" and "rh_state h = Some ''completed''" and "rh_status_code h = Some s" and "rh_response_body h = Some b"
  shows "idempotency_check k t ks = ((''COMPLETED'', Some (s, b)), ks)"
  using assms by (simp add: idempotency_check_def Let_def HMGET_def lookup_key_def live_def)

lemma completed_reply:
  assumes key: "rd_keys (ap_redis app) (idempotencyRedisKey m k) = Some (h, Some e)" "ap_now app \<le> e" "rh_state h = Some ''completed''"
      "rh_status_code h = Some (show_int code)" "rh_response_body h = Some b" and "200 \<le> code" "code < 300"
    and r: "idempotency_key r = k" "k \<noteq> []" "rq_Merchant r = Some merchant" "m_ID merchant = m" "m \<noteq> []"
      "ctx_Err (rq_Context r) (ap_now app) = None" and "rd_faults (ap_redis app) = []"
  shows "Idempotency (NewIdempotencyStore True) next r app =
    (respond_with ([SetHeader ''Content-Type'' ''application/json'', WriteHeader code] @ (if bytes_empty b then [] else [Write b])),
     app\<lparr>ap_world := (ap_world app)\<lparr>wenv := tick (wenv (ap_world app))\<rparr>\<rparr>)"
proof -
  obtain n where n: "Atoi (show_int code) = (n, None)" "sint n = code"
    using Atoi_show_code [OF assms(6,7)] by (auto split: prod.splits option.splits)
  have "rd_call (idempotency_check (idempotencyRedisKey m k)) (rq_Context r) app =
      (Inr (''COMPLETED'', Some (show_int code, b)), app\<lparr>ap_world := (ap_world app)\<lparr>wenv := tick (wenv (ap_world app))\<rparr>\<rparr>)"
    using assms(14) r(6) idempotency_check_completed [of "rd_keys (ap_redis app)", OF key] by (simp add: rd_call_def redis_call_ok)
  then have "Check (NewIdempotencyStore True) (rq_Context r) m k app =
      (Inr \<lparr>ir_Decision = IdempotencyCompleted, ir_StatusCode = code, ir_Body = b\<rparr>,
       app\<lparr>ap_world := (ap_world app)\<lparr>wenv := tick (wenv (ap_world app))\<rparr>\<rparr>)"
    using r n by (simp add: Check_def disabled_def NewIdempotencyStore_def Let_def IdempotencyCompleted_def)
  then show ?thesis using r assms(6,7)
    by (simp add: Idempotency_def idem_enter_def Let_def GetMerchant_def replay_def valid_code_def)
qed

section \<open>Properties\<close>

text \<open>C32: a completed request is replayed: once the response of a request with an idempotency key has been
  stored (status 2xx, no fault), a request of the same merchant with that key within 24 hours gets the
  stored status and body without reaching the handler, whatever the handler is, and changes nothing
  but the clock.\<close>

theorem idempotency_replay:
  assumes "sv_panic sv = None" and "200 \<le> recorded_status 200 (sv_ops sv)" and "recorded_status 200 (sv_ops sv) < 300"
    and "m \<noteq> []" and "k \<noteq> []" and "ctx_Err ctx (ap_now app) = None" and "rd_faults (ap_redis app) = []"
    and "app1 = idem_leave (NewIdempotencyStore True) ctx m k sv app"
    and "rd_keys (ap_redis app2) (idempotencyRedisKey m k) = rd_keys (ap_redis app1) (idempotencyRedisKey m k)"
    and "ap_now app2 \<le> ap_now app + idempotencyCompletedTTL" and "rd_faults (ap_redis app2) = []"
    and "idempotency_key r = k" and "rq_Merchant r = Some merchant" and "m_ID merchant = m" and "ctx_Err (rq_Context r) (ap_now app2) = None"
  shows "Idempotency (NewIdempotencyStore True) next r app2 =
    (respond_with ([SetHeader ''Content-Type'' ''application/json'', WriteHeader (recorded_status 200 (sv_ops sv))]
       @ (if bytes_empty (recorded_body (sv_ops sv)) then [] else [Write (recorded_body (sv_ops sv))])),
     app2\<lparr>ap_world := (ap_world app2)\<lparr>wenv := tick (wenv (ap_world app2))\<rparr>\<rparr>)"
proof -
  from idem_leave_stores [OF assms(1-7)] obtain h where
    h: "rd_keys (ap_redis app2) (idempotencyRedisKey m k) = Some (h, Some (ap_now app + idempotencyCompletedTTL))"
      "rh_state h = Some ''completed''" "rh_status_code h = Some (show_int (recorded_status 200 (sv_ops sv)))"
      "rh_response_body h = Some (recorded_body (sv_ops sv))"
    unfolding assms(9,8) by blast
  show ?thesis
    by (rule completed_reply [OF h(1) assms(10) h(2-4) assms(2,3,12,5,13,14,4,15,11)])
qed

text \<open>C33: at most one request with an idempotency key is between its claim and its end, in every
  interleaving of requests and under every schedule of lost and repeated Redis commands, as long as
  no request takes longer than the 60 seconds for which the script claims the key.\<close>

theorem idempotency_exclusive:
  assumes "(\<lambda>s s'. idem_step (NewIdempotencyStore True) s s' \<and> timely s')\<^sup>*\<^sup>* (app, []) (app', cs)"
  shows "distinct (map claim_key (store_claims cs))"
proof -
  have "claims_inv s" if "(\<lambda>s s'. idem_step (NewIdempotencyStore True) s s' \<and> timely s')\<^sup>*\<^sup>* (app, []) s" for s
    using that
  proof (induction rule: rtranclp_induct)
    case base
    then show ?case by (simp add: claims_inv_def)
  next
    case (step s s')
    then show ?case using idem_step_inv [of s s'] by (simp add: NewIdempotencyStore_def)
  qed
  from this [OF assms] show ?thesis by (simp add: claims_inv_def)
qed

text \<open>A request with an idempotency key, an application without a database, a handler that fails.\<close>

definition idem_merchant_sample :: Merchant where
  "idem_merchant_sample = \<lparr>m_ID = ''m_001'', m_Name = ''Maple Sports'', m_APIKey = ''sk_1'', m_BalanceCents = 10000,
     m_Currency = ''CAD'', m_Status = MerchantActive, m_CreatedAt = 0, m_UpdatedAt = 0\<rparr>"

definition idem_request_sample :: Request where
  "idem_request_sample = \<lparr>rq_Method = ''POST'', rq_Path = ''/api/v1/transactions'', rq_Header = [''Idempotency-Key'' \<mapsto> ''k1''], rq_RemoteAddr = ''10.0.0.1:5000'',
     rq_Query = (\<lambda>_. []), rq_Body = None, rq_URLParam = [], rq_Context = Background, rq_RequestID = None,
     rq_Merchant = Some idem_merchant_sample\<rparr>"

definition idem_app_sample :: "int \<Rightarrow> keyspace \<Rightarrow> unit app" where
  "idem_app_sample t ks = \<lparr>ap_world = \<lparr>wdb = (), wbreaker = NewCircuitBreaker 3 second,
     wenv = \<lparr>now = t, steps = 0, lat = (\<lambda>_. 1), picks = (\<lambda>_. False), rands = (\<lambda>_. 0), csprng = (\<lambda>_. None), fconv = 0, trace = []\<rparr>\<rparr>,
     ap_redis = \<lparr>rd_keys = ks, rd_faults = []\<rparr>, ap_limiter = NewRateLimiter 10 20,
     ap_metrics = \<lparr>activeRequests = 0, httpRequestsTotal = (\<lambda>_. 0), httpDurationSeconds = (\<lambda>_. [])\<rparr>, ap_log = []\<rparr>"

definition created_sample :: served where
  "created_sample = respond_with [SetHeader ''Content-Type'' ''application/json'', WriteHeader 201, Write [Text ''ok'']]"

lemma idempotency_replay_witness:
  "fst (Idempotency (NewIdempotencyStore True) (\<lambda>r app. (respond_with [WriteHeader 500], app)) idem_request_sample
      (idem_leave (NewIdempotencyStore True) Background ''m_001'' ''k1'' created_sample (idem_app_sample 0 Map.empty)))
   = respond_with [SetHeader ''Content-Type'' ''application/json'', WriteHeader 201, Write [Text ''ok'']]"
proof -
  let ?app1 = "idem_leave (NewIdempotencyStore True) Background ''m_001'' ''k1'' created_sample (idem_app_sample 0 Map.empty)"
  have "ap_now ?app1 \<le> ap_now (idem_app_sample 0 Map.empty) + idempotencyCompletedTTL" "rd_faults (ap_redis ?app1) = []"
    by code_simp+
  from idempotency_replay [where sv = created_sample and m = "''m_001''" and k = "''k1''" and ctx = Background
      and r = idem_request_sample and merchant = idem_merchant_sample and app = "idem_app_sample 0 Map.empty",
      OF _ _ _ _ _ _ _ refl refl this]
  show ?thesis
    by (simp add: created_sample_def respond_with_def idem_app_sample_def idem_request_sample_def idempotency_key_def Header_Get_def
        Let_def Background_def idem_merchant_sample_def bytes_empty_def)
qed

text \<open>A slow request, a second one that claims the expired key, the failure of the first, a third one.\<close>

definition at_time :: "int \<Rightarrow> 'db app \<Rightarrow> 'db app" where
  "at_time t app = app\<lparr>ap_world := (ap_world app)\<lparr>wenv := (wenv (ap_world app))\<lparr>now := t\<rparr>\<rparr>\<rparr>"

abbreviation idem_claim_sample :: "int \<Rightarrow> claim" where
  "idem_claim_sample t \<equiv> \<lparr>cl_merchant = ''m_001'', cl_key = ''k1'', cl_ctx = Background, cl_since = t\<rparr>"

abbreviation enter_sample :: "unit app \<Rightarrow> unit app" where
  "enter_sample app \<equiv> snd (idem_enter (NewIdempotencyStore True) idem_request_sample app)"

abbreviation second_sample :: "unit app" where
  "second_sample \<equiv> enter_sample (at_time 61000000000 (enter_sample (idem_app_sample 0 Map.empty)))"

abbreviation released_sample :: "unit app" where
  "released_sample \<equiv> idem_leave (NewIdempotencyStore True) Background ''m_001'' ''k1'' (respond_with [WriteHeader 500]) second_sample"

lemma claim_step:
  assumes "case fst (idem_enter (NewIdempotencyStore True) idem_request_sample app) of
      Claimed _ m k \<Rightarrow> m = ''m_001'' \<and> k = ''k1'' | _ \<Rightarrow> False"
  shows "idem_step (NewIdempotencyStore True) (app, cs) (enter_sample app, cs @ [idem_claim_sample (ap_now app)])"
proof -
  obtain r1 where "idem_enter (NewIdempotencyStore True) idem_request_sample app = (Claimed r1 ''m_001'' ''k1'', enter_sample app)"
    using assms by (cases "idem_enter (NewIdempotencyStore True) idem_request_sample app") (auto split: idem_entry.splits)
  from idem_step.claimed [OF this] show ?thesis by (simp add: idem_request_sample_def)
qed

text \<open>C34: beyond the 60 seconds exclusion is lost, and more than by the expiry alone: a request that took
  longer and then fails releases the key although another request has claimed it meanwhile, so that a
  third one runs together with the second, within the second's 60 seconds.\<close>

theorem idempotency_stale_release:
  "\<exists>app c c'. (idem_step (NewIdempotencyStore True))\<^sup>*\<^sup>* (idem_app_sample 0 Map.empty, []) (app, [c, c'])
     \<and> claim_key c = claim_key c' \<and> ap_now app \<le> cl_since c + 60 * 1000000000"
proof -
  let ?S = "NewIdempotencyStore True" and ?a0 = "idem_app_sample 0 Map.empty"
  let ?t1 = "at_time 61000000000 (enter_sample ?a0)"
  have 1: "idem_step ?S (?a0, []) (enter_sample ?a0, [] @ [idem_claim_sample (ap_now ?a0)])" by (rule claim_step) code_simp
  have "ap_now (enter_sample ?a0) \<le> 61000000000" by code_simp
  then have 2: "idem_step ?S (enter_sample ?a0, [idem_claim_sample (ap_now ?a0)]) (?t1, [idem_claim_sample (ap_now ?a0)])"
    by (intro idem_step.others) (simp add: idem_keys_same_def at_time_def)
  have 3: "idem_step ?S (?t1, [idem_claim_sample (ap_now ?a0)])
      (second_sample, [idem_claim_sample (ap_now ?a0)] @ [idem_claim_sample (ap_now ?t1)])" by (rule claim_step) code_simp
  have 4: "idem_step ?S (second_sample, [] @ idem_claim_sample (ap_now ?a0) # [idem_claim_sample (ap_now ?t1)])
      (released_sample, [] @ [idem_claim_sample (ap_now ?t1)])"
    using idem_step.left [of ?S second_sample "[]" "idem_claim_sample (ap_now ?a0)" "[idem_claim_sample (ap_now ?t1)]" "respond_with [WriteHeader 500]"]
    by simp
  have 5: "idem_step ?S (released_sample, [idem_claim_sample (ap_now ?t1)])
      (enter_sample released_sample, [idem_claim_sample (ap_now ?t1)] @ [idem_claim_sample (ap_now released_sample)])"
    by (rule claim_step) code_simp
  have "(idem_step ?S)\<^sup>*\<^sup>* (?a0, []) (enter_sample released_sample, [idem_claim_sample (ap_now ?t1), idem_claim_sample (ap_now released_sample)])"
    using 1 2 3 4 5 by (simp only: append.simps)
  moreover have "ap_now (enter_sample released_sample) \<le> ap_now ?t1 + 60 * 1000000000" by code_simp
  ultimately show ?thesis
    by (intro exI [of _ "enter_sample released_sample"] exI [of _ "idem_claim_sample (ap_now ?t1)"]
        exI [of _ "idem_claim_sample (ap_now released_sample)"]) (simp add: claim_key_def)
qed

lemma idempotency_exclusive_witness:
  "distinct (map claim_key (store_claims [idem_claim_sample 0]))"
proof -
  have "idem_step (NewIdempotencyStore True) (idem_app_sample 0 Map.empty, [])
      (enter_sample (idem_app_sample 0 Map.empty), [] @ [idem_claim_sample (ap_now (idem_app_sample 0 Map.empty))])"
    by (rule claim_step) code_simp
  moreover have "ap_now (enter_sample (idem_app_sample 0 Map.empty)) \<le> 60 * 1000000000" by code_simp
  ultimately have "(\<lambda>s s'. idem_step (NewIdempotencyStore True) s s' \<and> timely s')\<^sup>*\<^sup>* (idem_app_sample 0 Map.empty, [])
      (enter_sample (idem_app_sample 0 Map.empty), [idem_claim_sample 0])"
    by (intro r_into_rtranclp) (simp add: timely_def idem_app_sample_def)
  from idempotency_exclusive [OF this] show ?thesis .
qed

end
