(* ===== verification/Payflow_Documents.thy ===== *)
theory Payflow_Documents
  imports Payflow_Handlers
begin

text \<open>
  What the bytes of a response say: the JSON document that a chunk of a body holds. Documents written
  with \<open>json.Encoder\<close> follow the tags of the types (\<open>internal/domain/models.go\<close>, \<open>internal/handler/handlers.go\<close>);
  the text that \<open>writeError\<close> of the middleware formats by hand is read by a parser. The lemmas: every
  answer of the program is a document that fits its status.
\<close>

section \<open>Documents\<close>

text \<open>
  A JSON value as the client reads it. The encoder writes a time as a string in RFC 3339 format and
  the uptime as the text of a duration; here they stay numbers of nanoseconds. A raw message is copied.
  \<open>Encode\<close> fails, and then writes nothing, only for a time beyond the year 9999 or a raw message that is no
  JSON; neither is modelled.
\<close>

datatype doc_value =
    DocNull | DocBool bool | DocInt int | DocString string | DocTime int | DocDuration int | DocRaw json
  | DocArray "doc_value list" | DocObject "(string \<times> doc_value) list"

text \<open>\<open>omitempty\<close>.\<close>

definition omit_string :: "string \<Rightarrow> string \<Rightarrow> (string \<times> doc_value) list" where
  "omit_string k s = (if s = [] then [] else [(k, DocString s)])"

definition omit_int :: "string \<Rightarrow> int \<Rightarrow> (string \<times> doc_value) list" where
  "omit_int k n = (if n = 0 then [] else [(k, DocInt n)])"

definition omit_raw :: "string \<Rightarrow> RawMessage \<Rightarrow> (string \<times> doc_value) list" where
  "omit_raw k m = (case m of None \<Rightarrow> [] | Some j \<Rightarrow> [(k, DocRaw j)])"

definition encode_transaction :: "Transaction \<Rightarrow> doc_value" where
  "encode_transaction t = DocObject
     ([(''id'', DocString (tx_ID t)), (''merchant_id'', DocString (tx_MerchantID t)),
       (''amount_cents'', DocInt (sint (tx_AmountCents t))), (''currency'', DocString (tx_Currency t)),
       (''status'', DocString (tx_Status t))]
      @ omit_string ''idempotency_key'' (tx_IdempotencyKey t) @ omit_string ''description'' (tx_Description t)
      @ omit_raw ''metadata'' (tx_Metadata t)
      @ [(''created_at'', DocTime (tx_CreatedAt t)), (''updated_at'', DocTime (tx_UpdatedAt t))])"

definition encode_event :: "TransactionEvent \<Rightarrow> doc_value" where
  "encode_event e = DocObject
     ([(''id'', DocInt (sint (ev_ID e))), (''transaction_id'', DocString (ev_TransactionID e)),
       (''event_type'', DocString (ev_EventType e))]
      @ omit_string ''from_status'' (ev_FromStatus e) @ omit_string ''to_status'' (ev_ToStatus e)
      @ omit_raw ''payload'' (ev_Payload e) @ [(''created_at'', DocTime (ev_CreatedAt e))])"

text \<open>The repositories return a nil slice when there is no row, and a nil slice is \<open>null\<close>. A map is written in the order of its keys.\<close>

definition encode_list :: "doc_value list \<Rightarrow> doc_value" where
  "encode_list vs = (if vs = [] then DocNull else DocArray vs)"

definition encode_data :: "api_data \<Rightarrow> doc_value" where
  "encode_data data =
     (case data of
        DTransaction t \<Rightarrow> encode_transaction t
      | DTransactions ts \<Rightarrow> encode_list (map encode_transaction ts)
      | DEvents es \<Rightarrow> encode_list (map encode_event es)
      | DBalance i name cents currency \<Rightarrow>
          DocObject [(''balance_cents'', DocInt (sint cents)), (''currency'', DocString currency),
                     (''merchant_id'', DocString i), (''name'', DocString name)])"

definition encode_error :: "APIError \<Rightarrow> doc_value" where
  "encode_error e = DocObject [(''code'', DocString (ae_Code e)), (''message'', DocString (ae_Message e))]"

definition encode_meta :: "APIMeta \<Rightarrow> doc_value" where
  "encode_meta m = DocObject
     (omit_int ''total'' (am_Total m) @ omit_int ''limit'' (am_Limit m) @ omit_int ''offset'' (am_Offset m))"

definition encode_response :: "APIResponse \<Rightarrow> doc_value" where
  "encode_response a = DocObject
     ([(''success'', DocBool (ar_Success a))]
      @ (case ar_Data a of None \<Rightarrow> [] | Some data \<Rightarrow> [(''data'', encode_data data)])
      @ (case ar_Error a of None \<Rightarrow> [] | Some e \<Rightarrow> [(''error'', encode_error e)])
      @ (case ar_Meta a of None \<Rightarrow> [] | Some m \<Rightarrow> [(''meta'', encode_meta m)]))"

definition encode_health :: "string \<Rightarrow> string \<Rightarrow> int \<Rightarrow> string \<Rightarrow> doc_value" where
  "encode_health status version uptime dbStatus = DocObject
     [(''checks'', DocObject [(''database'', DocString dbStatus)]), (''status'', DocString status),
      (''uptime'', DocDuration uptime), (''version'', DocString version)]"

section \<open>Reading a text\<close>

text \<open>
  A part of the grammar of JSON, enough for the texts the program formats itself: objects, strings of
  printable ASCII characters without escapes, \<open>true\<close>, \<open>false\<close>, \<open>null\<close>, no white space. What it accepts is
  JSON. The first argument bounds the recursion; the length of the text is enough, as every call consumes
  a character.
\<close>

definition plain_char :: "char \<Rightarrow> bool" where
  "plain_char c \<longleftrightarrow> c \<noteq> CHR 34 \<and> c \<noteq> CHR 92 \<and> 32 \<le> (of_char c :: nat) \<and> (of_char c :: nat) < 127"

fun string_part :: "string \<Rightarrow> (string \<times> string) option" where
  "string_part [] = None"
| "string_part (c # s) =
     (if c = CHR 34 then Some ([], s)
      else if \<not> plain_char c then None
      else map_option (\<lambda>(x, r). (c # x, r)) (string_part s))"

fun value_part :: "nat \<Rightarrow> string \<Rightarrow> (doc_value \<times> string) option"
  and members_part :: "nat \<Rightarrow> string \<Rightarrow> ((string \<times> doc_value) list \<times> string) option" where
  "value_part 0 s = None"
| "value_part (Suc n) s =
     (if take 1 s = [CHR 34] then map_option (\<lambda>(x, r). (DocString x, r)) (string_part (drop 1 s))
      else if take 2 s = ''{}'' then Some (DocObject [], drop 2 s)
      else if take 1 s = ''{'' then map_option (\<lambda>(x, r). (DocObject x, r)) (members_part n (drop 1 s))
      else if take 4 s = ''true'' then Some (DocBool True, drop 4 s)
      else if take 5 s = ''false'' then Some (DocBool False, drop 5 s)
      else if take 4 s = ''null'' then Some (DocNull, drop 4 s)
      else None)"
| "members_part 0 s = None"
| "members_part (Suc n) s =
     (if take 1 s \<noteq> [CHR 34] then None
      else case string_part (drop 1 s) of
        None \<Rightarrow> None
      | Some (k, r) \<Rightarrow>
          if take 1 r \<noteq> '':'' then None
          else (case value_part n (drop 1 r) of
              None \<Rightarrow> None
            | Some (v, r1) \<Rightarrow>
                if take 1 r1 = ''}'' then Some ([(k, v)], drop 1 r1)
                else if take 1 r1 = '','' then map_option (\<lambda>(fs, r2). ((k, v) # fs, r2)) (members_part n (drop 1 r1))
                else None))"

definition parse_text :: "string \<Rightarrow> doc_value option" where
  "parse_text s = (case value_part (Suc (length s)) s of Some (v, []) \<Rightarrow> Some v | _ \<Rightarrow> None)"

text \<open>The document of a chunk.\<close>

definition chunk_value :: "chunk \<Rightarrow> doc_value option" where
  "chunk_value c =
     (case c of
        Text s \<Rightarrow> parse_text s
      | Encoded a \<Rightarrow> Some (encode_response a)
      | Health status version uptime dbStatus \<Rightarrow> Some (encode_health status version uptime dbStatus)
      | Readiness \<Rightarrow> Some (DocObject [(''status'', DocString ''ready'')]))"

section \<open>Documents that fit a status\<close>

text \<open>
  The envelope of the API: \<open>success\<close> says whether the status is below 400, and from 400 on there is an
  \<open>error\<close> with a code and a message. The reports of the health endpoints have no envelope.
\<close>

definition error_field :: "(string \<times> doc_value) list \<Rightarrow> bool" where
  "error_field fs \<longleftrightarrow> (\<exists>code message.
     map_of fs ''error'' = Some (DocObject [(''code'', DocString code), (''message'', DocString message)]))"

definition api_document :: "int \<Rightarrow> doc_value \<Rightarrow> bool" where
  "api_document code v \<longleftrightarrow> (\<exists>fs. v = DocObject fs \<and> distinct (map fst fs)
     \<and> map_of fs ''success'' = Some (DocBool (code < 400)) \<and> (400 \<le> code \<longrightarrow> error_field fs))"

definition health_document :: "int \<Rightarrow> doc_value \<Rightarrow> bool" where
  "health_document code v \<longleftrightarrow> (\<exists>fs st. v = DocObject fs \<and> distinct (map fst fs) \<and> map_of fs ''status'' = Some (DocString st)
     \<and> (code = 200 \<and> st \<in> {''healthy'', ''ready''} \<or> code = 503 \<and> st = ''degraded''))"

definition good_document :: "int \<Rightarrow> chunk \<Rightarrow> bool" where
  "good_document code c \<longleftrightarrow> (\<exists>v. chunk_value c = Some v \<and> (api_document code v \<or> health_document code v))"

section \<open>Facts\<close>

lemma string_part_plain: "list_all plain_char s \<Longrightarrow> string_part (s @ CHR 34 # r) = Some (s, r)"
  by (induction s) (auto simp: plain_char_def)

text \<open>What \<open>writeError\<close> formats is an object with the code and the message, if these need no escapes.\<close>

lemma error_text_parses:
  assumes "list_all plain_char code" and "list_all plain_char message"
  shows "parse_text (error_text code message) = Some (DocObject
    [(''success'', DocBool False), (''error'', DocObject [(''code'', DocString code), (''message'', DocString message)])])"
proof -
  have plain: "string_part (x @ CHR 34 # r) = Some (x, r)"
    if "x \<in> {''success'', ''error'', ''code'', ''message''}" for x r
    using that by (intro string_part_plain) (auto simp: plain_char_def)
  show ?thesis
    using plain [of "''success''"] plain [of "''error''"] plain [of "''code''"] plain [of "''message''"]
      string_part_plain [OF assms(1)] string_part_plain [OF assms(2)]
    by (simp add: parse_text_def error_text_def quoted_def)
qed

lemma good_error_text:
  "400 \<le> code \<Longrightarrow> list_all plain_char name \<Longrightarrow> list_all plain_char message \<Longrightarrow> good_document code (Text (error_text name message))"
  by (auto simp: good_document_def chunk_value_def error_text_parses api_document_def error_field_def)

lemma good_success: "code < 400 \<Longrightarrow>
  good_document code (Encoded \<lparr>ar_Success = True, ar_Data = data, ar_Error = None, ar_Meta = meta\<rparr>)"
  by (auto simp: good_document_def chunk_value_def encode_response_def api_document_def split: option.split)

lemma good_failure: "400 \<le> code \<Longrightarrow>
  good_document code (Encoded \<lparr>ar_Success = False, ar_Data = None, ar_Error = Some e, ar_Meta = None\<rparr>)"
  by (auto simp: good_document_def chunk_value_def encode_response_def encode_error_def api_document_def error_field_def)

lemma good_health:
  "code = 200 \<and> st = ''healthy'' \<or> code = 503 \<and> st = ''degraded'' \<Longrightarrow> good_document code (Health st version uptime dbStatus)"
  "good_document 200 Readiness"
  by (auto simp: good_document_def chunk_value_def encode_health_def health_document_def)

lemma good_nonempty: "good_document code doc \<Longrightarrow> doc \<noteq> Text []"
  by (auto simp: good_document_def chunk_value_def parse_text_def)

end
