(* ===== verification/Payflow_Chain.thy ===== *)
theory Payflow_Chain
  imports Payflow_Idempotency Payflow_Documents
begin

text \<open>
  What every handler and middleware does to the application and to the response, whatever it stands
  in front of. The locale \<open>world_contract\<close> is the interface between the HTTP layer and the payment
  service: a condition on the world of the service that every call keeps, and a relation between the
  worlds before and after. Its lemmas carry both through the handlers and the middleware, together
  with the shape of the response and of the responses kept in Redis.
\<close>

section \<open>The shape of responses\<close>

text \<open>Headers other than \<open>X-Request-ID\<close>, which \<open>RequestID\<close> alone sets.\<close>

fun is_header :: "w_op \<Rightarrow> bool" where
  "is_header (SetHeader k v) \<longleftrightarrow> k \<noteq> ''X-Request-Id''"
| "is_header _ \<longleftrightarrow> False"

text \<open>One JSON document that fits its status, after some headers; or the answer to a preflight request.\<close>

definition document :: "int \<Rightarrow> chunk \<Rightarrow> w_op list" where
  "document code doc = [SetHeader ''Content-Type'' ''application/json'', WriteHeader code, Write [doc]]"

definition json_status :: "int \<Rightarrow> bool" where
  "json_status code \<longleftrightarrow> 200 \<le> code \<and> code < 600 \<and> code \<noteq> 204 \<and> code \<noteq> 304"

definition json_answer :: "w_op list \<Rightarrow> bool" where
  "json_answer ops \<longleftrightarrow> (\<exists>hs code doc. ops = hs @ document code doc \<and> list_all is_header hs
     \<and> json_status code \<and> good_document code doc)"

definition preflight :: "w_op list \<Rightarrow> bool" where
  "preflight ops \<longleftrightarrow> (\<exists>hs. ops = hs @ [WriteHeader 204] \<and> list_all is_header hs)"

text \<open>A handler that panics has written nothing but headers.\<close>

definition documented :: "served \<Rightarrow> bool" where
  "documented sv = (case sv_panic sv of None \<Rightarrow> json_answer (sv_ops sv) | Some _ \<Rightarrow> list_all is_header (sv_ops sv))"

definition preflighted :: "served \<Rightarrow> bool" where
  "preflighted sv \<longleftrightarrow> sv_panic sv = None \<and> preflight (sv_ops sv)"

lemma json_answer_document [simp]: "json_status code \<Longrightarrow> good_document code doc \<Longrightarrow> json_answer (document code doc)"
  unfolding json_answer_def by (rule exI [of _ "[]"]) auto

lemma json_answer_header: "json_answer ops \<Longrightarrow> list_all is_header hs \<Longrightarrow> json_answer (hs @ ops)"
  unfolding json_answer_def by (metis append_assoc list_all_append)

lemma documented_before: "documented (fst res) \<Longrightarrow> list_all is_header hs \<Longrightarrow> documented (fst (before hs res))"
  by (auto simp: documented_def before_def intro: json_answer_header split: option.splits)

text \<open>\<open>CORS\<close> on a preflight request and on any other, and the chain around it.\<close>

definition cors_ops :: "w_op list" where
  "cors_ops = [SetHeader ''Access-Control-Allow-Origin'' ''*'',
     SetHeader ''Access-Control-Allow-Methods'' ''GET, POST, PUT, DELETE, OPTIONS'',
     SetHeader ''Access-Control-Allow-Headers'' ''Content-Type, Authorization, X-Request-ID, X-Idempotency-Key, Idempotency-Key'',
     SetHeader ''Access-Control-Max-Age'' ''86400'']"

definition cors_headers :: "'db handler \<Rightarrow> 'db handler" where
  "cors_headers next r app = before cors_ops (next r app)"

definition cors_preflight :: "'db handler" where
  "cors_preflight r app = (respond_with (cors_ops @ [WriteHeader 204]), app)"

lemma CORS_cases:
  "CORS next r = (if rq_Method r = ''OPTIONS'' then cors_preflight r else cors_headers next r)"
  by (auto simp: fun_eq_iff CORS_def cors_headers_def cors_preflight_def cors_ops_def Let_def)

lemma chain_CORS:
  "Recovery (RequestID (Tracing route (Logging (MetricsMiddleware (CORS next))))) r
   = Recovery (RequestID (Tracing route (Logging (MetricsMiddleware
       (if rq_Method r = ''OPTIONS'' then cors_preflight else cors_headers next))))) r"
  by (simp add: fun_eq_iff Recovery_def RequestID_def Tracing_def Logging_def MetricsMiddleware_def CORS_cases Let_def)

text \<open>The ways in which the program answers.\<close>

lemma document_forms:
  "writeError code name message = document code (Text (error_text name message))"
  "answer code doc = document code (Encoded doc)"
  by (simp_all add: writeError_def answer_def document_def)

lemma writeError_json [simp]:
  "json_status code \<Longrightarrow> 400 \<le> code \<Longrightarrow> list_all plain_char name \<Longrightarrow> list_all plain_char message \<Longrightarrow>
   json_answer (writeError code name message)"
  by (simp add: document_forms good_error_text)

declare plain_char_def [simp]

lemma json_respond [simp]: "json_answer ops \<Longrightarrow> documented (respond_with ops)"
  by (simp add: documented_def respond_with_def)

lemma json_answer_forms [simp]:
  "json_status code \<Longrightarrow> code < 400 \<Longrightarrow> json_answer (writeJSON code data)"
  "json_status code \<Longrightarrow> code < 400 \<Longrightarrow> json_answer (writeJSONWithMeta code data meta)"
  "json_status code \<Longrightarrow> 400 \<le> code \<Longrightarrow> json_answer (h_writeError code name message)"
  by (simp_all add: writeJSON_def writeJSONWithMeta_def h_writeError_def document_forms good_success good_failure)

lemma json_status_numeral [simp]: "json_status (numeral n) \<longleftrightarrow> numeral n \<in> ({200..<600} - {204, 304} :: int set)"
  by (auto simp: json_status_def)

lemma mapDomainError_json [simp]: "json_answer (mapDomainError err)"
  by (simp add: mapDomainError_def)

lemma fail_documented [simp]: "documented (fail err)"
  by (auto simp: fail_def documented_def respond_with_def split: option.splits)

lemma unauthenticated_documented [simp]: "documented unauthenticated"
  by (simp add: unauthenticated_def)

lemma ensureMerchantID_documented: "ensureMerchantID m i = Some sv \<Longrightarrow> documented sv"
  by (auto simp: ensureMerchantID_def split: if_splits)

section \<open>The responses kept in Redis\<close>

definition stored_ok :: "redis_hash \<Rightarrow> bool" where
  "stored_ok h \<longleftrightarrow> (rh_state h = Some ''completed'' \<longrightarrow>
     (\<exists>code doc. rh_status_code h = Some (show_int code) \<and> 200 \<le> code \<and> code < 300 \<and> code \<noteq> 204
        \<and> rh_response_body h = Some [doc] \<and> good_document code doc))"

definition redis_ok :: "keyspace \<Rightarrow> bool" where
  "redis_ok ks \<longleftrightarrow> (\<forall>k h e. ks k = Some (h, e) \<longrightarrow> stored_ok h)"

lemma redis_ok_HMGET: "redis_ok ks \<Longrightarrow> stored_ok (HMGET t k ks)"
proof (cases "lookup_key t ks k")
  case None
  then show ?thesis by (simp add: HMGET_def stored_ok_def no_hash_def)
next
  case (Some e)
  assume "redis_ok ks"
  then show ?thesis using Some by (cases e) (auto simp: redis_ok_def HMGET_def lookup_key_def split: option.splits if_splits)
qed

lemma redis_ok_HSET: "redis_ok ks \<Longrightarrow> (\<And>h. stored_ok h \<Longrightarrow> stored_ok (f h)) \<Longrightarrow> redis_ok (HSET t k f ks)"
  using redis_ok_HMGET [of ks t k]
  by (auto simp: redis_ok_def HSET_def HMGET_def lookup_key_def split: option.splits if_splits)

lemma redis_ok_EXPIRE: "redis_ok ks \<Longrightarrow> redis_ok (EXPIRE t k d ks)"
  by (auto simp: redis_ok_def EXPIRE_def lookup_key_def split: option.splits if_splits)

lemma redis_ok_commands:
  assumes "redis_ok ks"
  shows "redis_ok (snd (idempotency_check k t ks))" and "redis_ok (snd (rate_limit_script k rate burst t ks))" and "redis_ok (DEL k ks)"
  using assms
  by (auto simp: idempotency_check_def rate_limit_script_def Let_def intro!: redis_ok_EXPIRE redis_ok_HSET)
    (auto simp: stored_ok_def redis_ok_def DEL_def split: if_splits)

lemma redis_ok_store:
  assumes "redis_ok ks" and "200 \<le> code" and "code < 300" and "code \<noteq> 204" and "good_document code doc"
  shows "redis_ok (snd (store_pipeline k code [doc] t ks))"
  using assms by (auto simp: store_pipeline_def stored_ok_def intro!: redis_ok_EXPIRE redis_ok_HSET)

lemma idempotency_check_stored:
  assumes "redis_ok ks" and "idempotency_check k t ks = ((''COMPLETED'', v), ks')"
  shows "\<exists>code doc. v = Some (show_int code, [doc]) \<and> 200 \<le> code \<and> code < 300 \<and> code \<noteq> 204 \<and> good_document code doc"
  using redis_ok_HMGET [OF assms(1), of t k] assms(2)
  by (auto simp: idempotency_check_def Let_def stored_ok_def split: if_splits)

section \<open>The contract\<close>

definition app_ok :: "('db world \<Rightarrow> bool) \<Rightarrow> 'db app \<Rightarrow> bool" where
  "app_ok W app \<longleftrightarrow> W (ap_world app) \<and> redis_ok (rd_keys (ap_redis app))"

text \<open>From a good state: the state stays good, the world changes as it may, the response is a good one.\<close>

definition safe :: "('db world \<Rightarrow> bool) \<Rightarrow> ('db world \<Rightarrow> 'db world \<Rightarrow> bool) \<Rightarrow> 'db app \<Rightarrow> 'db app \<Rightarrow> bool" where
  "safe W S app app' \<longleftrightarrow> app_ok W app' \<and> S (ap_world app) (ap_world app')"

definition serves ::
  "('db world \<Rightarrow> bool) \<Rightarrow> ('db world \<Rightarrow> 'db world \<Rightarrow> bool) \<Rightarrow> (served \<Rightarrow> bool) \<Rightarrow> 'db handler \<Rightarrow> bool" where
  "serves W S A h \<longleftrightarrow> (\<forall>r app sv app'. app_ok W app \<longrightarrow> h r app = (sv, app') \<longrightarrow> safe W S app app' \<and> A sv)"

text \<open>A call of the service that keeps the condition.\<close>

definition keeps :: "('db world \<Rightarrow> bool) \<Rightarrow> ('db world \<Rightarrow> 'db world \<Rightarrow> bool) \<Rightarrow> ('db world \<Rightarrow> 'r \<times> 'db world) \<Rightarrow> bool" where
  "keeps W S f \<longleftrightarrow> (\<forall>w r w'. W w \<longrightarrow> f w = (r, w') \<longrightarrow> W w' \<and> S w w')"

lemma servesI:
  assumes "\<And>r app sv app'. app_ok W app \<Longrightarrow> h r app = (sv, app') \<Longrightarrow> safe W S app app' \<and> A sv"
  shows "serves W S A h"
  using assms by (auto simp: serves_def)

lemma servesD: "serves W S A h \<Longrightarrow> app_ok W app \<Longrightarrow> h r app = (sv, app') \<Longrightarrow> safe W S app app' \<and> A sv"
  by (auto simp: serves_def)

lemma safeD: "safe W S app app' \<Longrightarrow> app_ok W app' \<and> S (ap_world app) (ap_world app')"
  by (simp add: safe_def)

lemma keeps_in_world: "keeps W S f \<Longrightarrow> app_ok W app \<Longrightarrow> in_world f app = (r, app') \<Longrightarrow> safe W S app app'"
  by (auto simp: keeps_def in_world_def app_ok_def safe_def split: prod.splits)

locale world_contract =
  fixes W :: "'db world \<Rightarrow> bool" and S :: "'db world \<Rightarrow> 'db world \<Rightarrow> bool"
  assumes S_refl: "S w w" and S_trans: "S w w1 \<Longrightarrow> S w1 w2 \<Longrightarrow> S w w2"
    and keeps_tick: "keeps W S (\<lambda>w. ((), w\<lparr>wenv := tick (wenv w)\<rparr>))"
begin

lemma safe_refl: "app_ok W app \<Longrightarrow> safe W S app app"
  by (simp add: safe_def S_refl)

lemma safe_trans: "safe W S app app1 \<Longrightarrow> safe W S app1 app2 \<Longrightarrow> safe W S app app2"
  by (auto simp: safe_def intro: S_trans)

text \<open>The limiter, the metrics and the log are not looked at.\<close>

lemma safe_aside [simp]:
  "safe W S app (app'\<lparr>ap_limiter := x\<rparr>) = safe W S app app'"
  "safe W S app (app'\<lparr>ap_log := l\<rparr>) = safe W S app app'"
  "safe W S app (measure_app f app') = safe W S app app'"
  "safe W S (measure_app f app) app' = safe W S app app'"
  "app_ok W (measure_app f app) = app_ok W app"
  by (simp_all add: safe_def app_ok_def measure_app_def)

lemma safe_rd_call:
  assumes "app_ok W app" and "rd_call cmd ctx app = (r, app')" and "\<And>ks. redis_ok ks \<Longrightarrow> redis_ok (snd (cmd (ap_now app) ks))"
  shows "safe W S app app'"
proof -
  have "redis_ok (rd_keys (ap_redis app'))"
    using rd_call_keeps [where P = redis_ok, OF assms(3) _ assms(2)] assms(1) by (simp add: app_ok_def)
  moreover have "W (ap_world app') \<and> S (ap_world app) (ap_world app')"
    using assms(1,2) keeps_tick by (auto simp: rd_call_def keeps_def app_ok_def split: prod.splits)
  ultimately show ?thesis by (simp add: safe_def app_ok_def)
qed

section \<open>Middleware\<close>

lemma serves_RequestID:
  assumes "serves W S A next"
  shows "serves W S (\<lambda>sv. \<exists>i. i \<noteq> [] \<and> hd (sv_ops sv) = SetHeader ''X-Request-Id'' i \<and> sv_ops sv \<noteq> [] \<and> A (sv\<lparr>sv_ops := tl (sv_ops sv)\<rparr>)) (RequestID next)"
proof (rule servesI, goal_cases)
  case (1 r app sv app')
  let ?i = "if Header_Get r ''X-Request-Id'' = [] then ''req_'' @ show_int (ap_now app) else Header_Get r ''X-Request-Id''"
  obtain sv1 where n: "next (r\<lparr>rq_RequestID := Some ?i\<rparr>) app = (sv1, app')" and sv: "sv = sv1\<lparr>sv_ops := SetHeader ''X-Request-Id'' ?i # sv_ops sv1\<rparr>"
    using 1(2) by (cases "next (r\<lparr>rq_RequestID := Some ?i\<rparr>) app") (simp add: RequestID_def Let_def before_def)
  from servesD [OF assms 1(1) n] sv show ?case by (intro conjI exI [of _ ?i]) auto
qed

lemma serves_Tracing: "serves W S A next \<Longrightarrow> serves W S A (Tracing route next)"
  by (rule servesI) (auto simp: Tracing_def Let_def dest: servesD split: prod.splits if_splits)

lemma serves_Logging: "serves W S A next \<Longrightarrow> serves W S A (Logging next)"
  by (rule servesI) (auto simp: Logging_def Let_def dest: servesD split: prod.splits if_splits)

lemma serves_Metrics: "serves W S A next \<Longrightarrow> serves W S A (MetricsMiddleware next)"
proof (rule servesI, goal_cases)
  case (1 r app sv app')
  obtain sv1 app1 where n: "next r (measure_app IncrementActive app) = (sv1, app1)" by (cases "next r (measure_app IncrementActive app)")
  from servesD [OF 1(1) _ n] 1(2,3) n show ?case by (auto simp: MetricsMiddleware_def split: if_splits)
qed

lemma serves_cors:
  "serves W S documented next \<Longrightarrow> serves W S documented (cors_headers next)"
  "serves W S preflighted cors_preflight"
proof -
  assume n: "serves W S documented next"
  show "serves W S documented (cors_headers next)"
  proof (rule servesI, goal_cases)
    case (1 r app sv app')
    obtain sv1 where sv1: "next r app = (sv1, app')" and sv: "sv = fst (before cors_ops (sv1, app'))"
      using 1(2) by (cases "next r app") (auto simp: cors_headers_def before_def)
    from servesD [OF n 1(1) sv1] documented_before [of "(sv1, app')" cors_ops] show ?case by (simp add: sv cors_ops_def)
  qed
next
  show "serves W S preflighted cors_preflight"
    by (rule servesI) (auto simp: cors_preflight_def preflighted_def preflight_def respond_with_def cors_ops_def safe_refl
        intro: exI [of _ cors_ops])
qed

lemma serves_RateLimit:
  assumes "serves W S documented next"
    and "\<And>allow ctx key app r app'. lm = Some allow \<Longrightarrow> app_ok W app \<Longrightarrow> allow ctx key app = (r, app') \<Longrightarrow> safe W S app app'"
  shows "serves W S documented (RateLimit lm next)"
proof (rule servesI, goal_cases)
  case (1 r app sv app')
  show ?case
  proof (cases lm)
    case None
    then show ?thesis using servesD [OF assms(1) 1(1)] 1(2) by (simp add: RateLimit_def)
  next
    case (Some allow)
    obtain x app1 where a: "allow (rq_Context r) (clientIDFromRequest r) app = (x, app1)"
      by (cases "allow (rq_Context r) (clientIDFromRequest r) app")
    have s: "safe W S app app1" by (rule assms(2) [OF Some 1(1) a])
    then have n: "next r app1 = (sv, app') \<Longrightarrow> safe W S app app' \<and> documented sv"
      using servesD [OF assms(1)] safe_trans by (meson safeD)
    have "documented (respond_with (SetHeader ''Retry-After'' ''1'' # writeError 429 ''RATE_LIMITED'' ''too many requests''))"
      using json_answer_header [of "writeError 429 ''RATE_LIMITED'' ''too many requests''" "[SetHeader ''Retry-After'' ''1'']"] by simp
    then show ?thesis using 1(2) Some a s n by (auto simp: RateLimit_def split: sum.splits bool.splits)
  qed
qed

lemma serves_weaken: "serves W S A h \<Longrightarrow> (\<And>sv. A sv \<Longrightarrow> B sv) \<Longrightarrow> serves W S B h"
  by (auto simp: serves_def)

text \<open>Behind \<open>Recovery\<close> nothing panics any more.\<close>

lemma serves_Recovery:
  assumes "serves W S (\<lambda>sv. \<exists>i. P i \<and> hd (sv_ops sv) = SetHeader ''X-Request-Id'' i \<and> sv_ops sv \<noteq> [] \<and> A (sv\<lparr>sv_ops := tl (sv_ops sv)\<rparr>)) next"
    and A: "\<And>sv. A sv \<Longrightarrow> case sv_panic sv of None \<Rightarrow> B (sv_ops sv) | Some _ \<Rightarrow> list_all is_header (sv_ops sv)"
    and B: "\<And>ops sv. A sv \<Longrightarrow> sv_panic sv \<noteq> None \<Longrightarrow> json_answer ops \<Longrightarrow> B ops"
  shows "serves W S (\<lambda>sv. sv_panic sv = None \<and> (\<exists>i ops. P i \<and> sv_ops sv = SetHeader ''X-Request-Id'' i # ops \<and> B ops))
    (Recovery next)"
proof (rule servesI, goal_cases)
  case (1 r app sv app')
  obtain sv1 app1 where n: "next r app = (sv1, app1)" by (cases "next r app")
  from servesD [OF assms(1) 1(1) n] obtain i ops where s: "safe W S app app1" and i: "P i"
    and ops: "sv_ops sv1 = SetHeader ''X-Request-Id'' i # ops" and a: "A (sv1\<lparr>sv_ops := ops\<rparr>)"
    by (metis list.exhaust_sel)
  show ?case
  proof (cases "sv_panic sv1")
    case None
    then show ?thesis using 1(2) n s i ops A [OF a] by (auto simp: Recovery_def)
  next
    case (Some err)
    then have "json_answer (ops @ writeError 500 ''INTERNAL_ERROR'' ''an unexpected error occurred'')"
      using A [OF a] json_answer_header by auto
    then have "B (ops @ writeError 500 ''INTERNAL_ERROR'' ''an unexpected error occurred'')" using B [OF a] Some by simp
    then show ?thesis using 1(2) n s i ops Some by (auto simp: Recovery_def respond_with_def)
  qed
qed

lemma serves_APIKeyAuth:
  assumes "serves W S documented next" and "\<And>ctx k. keeps W S (rcall (MR_GetByAPIKey MR OnDB ctx k))"
  shows "serves W S documented (APIKeyAuth MR next)"
proof (rule servesI, goal_cases)
  case (1 r app sv app')
  let ?parts = "SplitN2 (CHR '' '') (Header_Get r ''Authorization'')"
  obtain x app1 where a: "in_world (rcall (MR_GetByAPIKey MR OnDB (rq_Context r) (?parts ! 1))) app = (x, app1)"
    by (cases "in_world (rcall (MR_GetByAPIKey MR OnDB (rq_Context r) (?parts ! 1))) app")
  have s: "safe W S app app1" by (rule keeps_in_world [OF assms(2) 1(1) a])
  then have n: "next r' app1 = (sv, app') \<Longrightarrow> safe W S app app' \<and> documented sv" for r'
    using servesD [OF assms(1)] safe_trans by (meson safeD)
  show ?case using 1(2) a s n safe_refl [OF 1(1)] by (auto simp: APIKeyAuth_def Let_def split: if_splits sum.splits)
qed

subsection \<open>Idempotency\<close>

lemma Check_safe:
  assumes "app_ok W app" and "Check store ctx m k app = (x, app1)"
  shows "safe W S app app1"
proof (cases "disabled store m k")
  case True
  then show ?thesis using assms safe_refl by (simp add: Check_def)
next
  case False
  then obtain y where "rd_call (idempotency_check (idempotencyRedisKey m k)) ctx app = (y, app1)"
    using assms(2) by (auto simp: Check_def Let_def split: prod.splits sum.splits if_splits option.splits)
  from safe_rd_call [OF assms(1) this] show ?thesis using redis_ok_commands(1) by blast
qed

lemma Check_completed:
  assumes ok: "app_ok W app" and run: "Check store ctx m k app = (Inr result, app1)" and d: "ir_Decision result = IdempotencyCompleted"
  shows "\<exists>code doc. result = \<lparr>ir_Decision = IdempotencyCompleted, ir_StatusCode = code, ir_Body = [doc]\<rparr>
    \<and> 200 \<le> code \<and> code < 300 \<and> code \<noteq> 204 \<and> good_document code doc"
proof -
  have nd: "\<not> disabled store m k"
    using run d by (auto simp: Check_def proceed_result_def IdempotencyProceed_def IdempotencyCompleted_def)
  from run nd obtain v where c: "rd_call (idempotency_check (idempotencyRedisKey m k)) ctx app = (Inr (''COMPLETED'', v), app1)"
    and res: "result = (case v of None \<Rightarrow> \<lparr>ir_Decision = IdempotencyCompleted, ir_StatusCode = 0, ir_Body = []\<rparr>
      | Some (status, body) \<Rightarrow> \<lparr>ir_Decision = IdempotencyCompleted,
          ir_StatusCode = (case Atoi status of (n, None) \<Rightarrow> sint n | (_, Some _) \<Rightarrow> 0), ir_Body = body\<rparr>)"
    using d by (auto simp: Check_def Let_def IdempotencyCompleted_def split: prod.splits sum.splits if_splits option.splits)
  then obtain rd where rc: "redis_call (idempotency_check (idempotencyRedisKey m k)) ctx (ap_now app) (ap_redis app) = (Inr (''COMPLETED'', v), rd)"
    by (auto simp: rd_call_def split: prod.splits)
  from redis_call_Inr [OF rc] obtain n where
    n: "((''COMPLETED'', v), rd_keys rd) = idempotency_check (idempotencyRedisKey m k) (ap_now app)
          (executed n (idempotency_check (idempotencyRedisKey m k)) (ap_now app) (rd_keys (ap_redis app)))" by blast
  have "redis_ok (executed n (idempotency_check (idempotencyRedisKey m k)) (ap_now app) (rd_keys (ap_redis app)))"
    using ok redis_ok_commands(1) by (intro executed_keeps [where P = redis_ok]) (auto simp: app_ok_def)
  from idempotency_check_stored [OF this n [symmetric]] obtain code doc where
    v: "v = Some (show_int code, [doc])" "200 \<le> code" "code < 300" "code \<noteq> 204" "good_document code doc" by blast
  with res Atoi_show_code [OF v(2,3)] show ?thesis by (auto split: prod.splits option.splits)
qed

lemma idem_enter_safe:
  assumes ok: "app_ok W app" and run: "idem_enter store r app = (x, app1)"
  shows "safe W S app app1 \<and> (\<forall>sv. x = Replied sv \<longrightarrow> documented sv)"
proof (cases "idempotency_key r = [] \<or> GetMerchant r = None")
  case True
  then show ?thesis using run safe_refl [OF ok] by (auto simp: idem_enter_def Let_def split: option.splits if_splits)
next
  case False
  then obtain m where m: "GetMerchant r = Some m" and k: "idempotency_key r \<noteq> []" by auto
  obtain y app2 where c: "Check store (rq_Context r) (m_ID m) (idempotency_key r) app = (y, app2)"
    by (cases "Check store (rq_Context r) (m_ID m) (idempotency_key r) app")
  have a: "app2 = app1" using run m k c by (auto simp: idem_enter_def Let_def split: sum.splits if_splits)
  have "documented (replay result)" if "y = Inr result" "ir_Decision result = IdempotencyCompleted" for result
  proof -
    from Check_completed [OF ok c [unfolded that(1)] that(2)] obtain code doc where
      R: "result = \<lparr>ir_Decision = IdempotencyCompleted, ir_StatusCode = code, ir_Body = [doc]\<rparr>"
      and d: "200 \<le> code" "code < 300" "code \<noteq> 204" "good_document code doc" by blast
    have "replay result = respond_with (document code doc)"
      using d good_nonempty [OF d(4)] by (simp add: R replay_def Let_def valid_code_def bytes_empty_def document_def)
    then show ?thesis using d by (simp add: json_status_def)
  qed
  then show ?thesis
    using run m k c Check_safe [OF ok c] by (auto simp: idem_enter_def Let_def a split: sum.splits if_splits)
qed

lemma json_recorded:
  assumes "json_answer ops"
  shows "\<exists>code doc. recorded_status 200 ops = code \<and> recorded_body ops = [doc] \<and> json_status code \<and> good_document code doc"
proof -
  obtain hs code doc where ops: "ops = hs @ document code doc" and hs: "list_all is_header hs"
    and d: "json_status code" "good_document code doc" using assms by (auto simp: json_answer_def)
  have "recorded_status c (hs @ document code doc) = code \<and> recorded_body (hs @ document code doc) = [doc]" for c
    using hs
  proof (induction hs)
    case (Cons h hs)
    then show ?case by (cases h) auto
  qed (simp add: document_def)
  then show ?thesis using ops d by blast
qed

lemma result_safe:
  assumes "app_ok W app" and "result_err (rd_call cmd ctx app) = (x, app1)" and "\<And>ks. redis_ok ks \<Longrightarrow> redis_ok (snd (cmd (ap_now app) ks))"
  shows "safe W S app app1"
proof -
  obtain y where "rd_call cmd ctx app = (y, app1)" using assms(2) by (cases "rd_call cmd ctx app") (auto simp: result_err_def split: sum.splits)
  from safe_rd_call [OF assms(1) this] show ?thesis using assms(3) by blast
qed

lemma Release_safe:
  assumes "app_ok W app" and "Release store ctx m k app = (x, app1)"
  shows "safe W S app app1"
proof (cases "disabled store m k")
  case True
  then show ?thesis using assms safe_refl by (simp add: Release_def)
next
  case False
  then have "result_err (rd_call (\<lambda>t ks. ((), DEL (idempotencyRedisKey m k) ks)) ctx app) = (x, app1)" using assms(2) by (simp add: Release_def)
  from result_safe [OF assms(1) this] show ?thesis using redis_ok_commands(3) by simp
qed

lemma StoreCompleted_safe:
  assumes "app_ok W app" and "StoreCompleted store ctx m k code [doc] app = (x, app1)"
    and "200 \<le> code" and "code < 300" and "code \<noteq> 204" and "good_document code doc"
  shows "safe W S app app1"
proof (cases "disabled store m k")
  case True
  then show ?thesis using assms safe_refl by (simp add: StoreCompleted_def)
next
  case False
  then have "result_err (rd_call (store_pipeline (idempotencyRedisKey m k) code [doc]) ctx app) = (x, app1)"
    using assms(2) by (simp add: StoreCompleted_def)
  from result_safe [OF assms(1) this] show ?thesis using redis_ok_store [OF _ assms(3-6)] by blast
qed

lemma idem_leave_safe:
  assumes ok: "app_ok W app" and sv: "documented sv"
  shows "safe W S app (idem_leave store ctx m k sv app)"
proof (cases "sv_panic sv")
  case (Some err)
  then show ?thesis using safe_refl [OF ok] by (simp add: idem_leave_def)
next
  case None
  with sv obtain code doc where c: "recorded_status 200 (sv_ops sv) = code" "recorded_body (sv_ops sv) = [doc]"
    "json_status code" "good_document code doc" using json_recorded [of "sv_ops sv"] by (auto simp: documented_def)
  obtain x app1 where s: "StoreCompleted store ctx m k code [doc] app = (x, app1)" by (cases "StoreCompleted store ctx m k code [doc] app")
  have rel: "safe W S a (snd (Release store ctx m k a))" if "app_ok W a" for a
    using Release_safe [OF that] by (cases "Release store ctx m k a") simp
  show ?thesis
  proof (cases "200 \<le> code \<and> code < 300")
    case True
    then have "safe W S app app1" using StoreCompleted_safe [OF ok s] c(3,4) by (simp add: json_status_def)
    moreover from this have "safe W S app (snd (Release store ctx m k app1))" using rel safe_trans safeD by blast
    ultimately show ?thesis using None c s True by (auto simp: idem_leave_def Let_def split: option.splits)
  next
    case False
    then have "idem_leave store ctx m k sv app = snd (Release store ctx m k app)" using None c by (auto simp: idem_leave_def Let_def)
    then show ?thesis using rel [OF ok] by simp
  qed
qed

lemma serves_Idempotency:
  assumes "serves W S documented next"
  shows "serves W S documented (Idempotency store next)"
proof (rule servesI, goal_cases)
  case (1 r app sv app')
  obtain x app1 where e: "idem_enter store r app = (x, app1)" by (cases "idem_enter store r app")
  note E = idem_enter_safe [OF 1(1) e]
  have ok1: "app_ok W app1" using E safeD by blast
  show ?case
  proof (cases x)
    case (Bypass r1)
    then have "next r1 app1 = (sv, app')" using 1(2) e by (simp add: Idempotency_def)
    from servesD [OF assms ok1 this] E safe_trans show ?thesis by blast
  next
    case (Replied sv1)
    then show ?thesis using 1(2) e E by (auto simp: Idempotency_def)
  next
    case (Claimed r1 m k)
    obtain app2 where n: "next r1 app1 = (sv, app2)" and l: "app' = idem_leave store (rq_Context r) m k sv app2"
      using 1(2) e Claimed by (cases "next r1 app1") (auto simp: Idempotency_def)
    from servesD [OF assms ok1 n] have n2: "safe W S app1 app2" "documented sv" by auto
    have "safe W S app2 app'" unfolding l using n2 safeD by (intro idem_leave_safe) blast+
    then show ?thesis using E n2 safe_trans by blast
  qed
qed

section \<open>Limiters\<close>

lemma in_memory_limiter_safe: "app_ok W app \<Longrightarrow> in_memory_limiter ctx key app = (r, app') \<Longrightarrow> safe W S app app'"
  using safe_refl [of app] by (auto simp: in_memory_limiter_def split: prod.splits)

lemma Redis_Allow_safe:
  assumes ok: "app_ok W app" and run: "Redis_Allow rl ctx key app = (r, app')"
  shows "safe W S app app'"
proof (cases "rl = None \<or> (\<exists>l. rl = Some l \<and> \<not> rr_client l)")
  case True
  then show ?thesis using run safe_refl [OF ok] by (auto simp: Redis_Allow_def)
next
  case False
  then obtain l where l: "rl = Some l" "rr_client l" by auto
  obtain x app1 where c: "rd_call (rate_limit_script (rateLimitRedisKey key) (rr_rate l) (rr_burst l)) ctx app = (x, app1)" by fastforce
  have "app' = app1" using run l c by (auto simp: Redis_Allow_def split: sum.splits)
  then show ?thesis using safe_rd_call [OF ok c] redis_ok_commands(2) by blast
qed

section \<open>Handlers\<close>

text \<open>A handler that calls the service once and turns the result into a document.\<close>

lemma serves_call:
  assumes "keeps W S f" and "app_ok W app" and "(case in_world f app of (x, app1) \<Rightarrow> (g x, app1)) = (sv, app')" and "\<And>x. documented (g x)"
  shows "safe W S app app' \<and> documented sv"
  using keeps_in_world [OF assms(1,2)] assms(3,4) by (cases "in_world f app") auto

lemma serves_Create:
  assumes "\<And>ctx input. keeps W S (CreateTransaction svc ctx input)"
  shows "serves W S documented (Create svc)"
proof (rule servesI, goal_cases)
  case (1 r app sv app')
  obtain req ok where d: "decode_create (rq_Body r) = (req, ok)" by (cases "decode_create (rq_Body r)")
  show ?case
  proof (cases "ok \<and> 0 < sint (cr_AmountCents req) \<and> rq_Merchant r \<noteq> None")
    case False
    then show ?thesis using 1(2) d safe_refl [OF 1(1)]
      by (auto simp: Create_def merchantFromContext_def not_less split: bool.splits option.splits if_splits)
  next
    case True
    then obtain m where m: "rq_Merchant r = Some m" by auto
    let ?in = "\<lparr>in_MerchantID = m_ID m, in_AmountCents = cr_AmountCents req,
        in_Currency = (if cr_Currency req = [] then m_Currency m else cr_Currency req),
        in_IdempotencyKey = Header_Get r ''X-Idempotency-Key'', in_Description = cr_Description req\<rparr>"
    let ?g = "\<lambda>(tx, e). case e of Some err \<Rightarrow> fail err | None \<Rightarrow> respond_with (writeJSON 201 (map_option DTransaction tx))"
    have "(case in_world (CreateTransaction svc (rq_Context r) ?in) app of (x, app1) \<Rightarrow> (?g x, app1)) = (sv, app')"
      using 1(2) d True m by (auto simp: Create_def merchantFromContext_def Let_def not_le split: prod.splits option.splits)
    then show ?thesis by (rule serves_call [OF assms 1(1)]) (auto split: option.splits)
  qed
qed

lemma serves_lookup:
  assumes "\<And>r m app. rq_Merchant r = Some m \<Longrightarrow> G r m = None \<Longrightarrow>
      h r app = (case in_world (f r m) app of (x, app1) \<Rightarrow> (case x of Inl err \<Rightarrow> fail err | Inr v \<Rightarrow> respond_with (g r v), app1))"
    and "\<And>r app. rq_Merchant r = None \<Longrightarrow> h r app = (unauthenticated, app)"
    and "\<And>r m app sv. rq_Merchant r = Some m \<Longrightarrow> G r m = Some sv \<Longrightarrow> h r app = (sv, app) \<and> documented sv"
    and "\<And>r m. keeps W S (f r m)" and "\<And>r v. json_answer (g r v)"
  shows "serves W S documented h"
proof (rule servesI, goal_cases)
  case (1 r app sv app')
  show ?case
  proof (cases "rq_Merchant r")
    case None
    then show ?thesis using 1(2) assms(2) safe_refl [OF 1(1)] by auto
  next
    case (Some m)
    show ?thesis
    proof (cases "G r m")
      case None
      have "(case in_world (f r m) app of (x, app1) \<Rightarrow> (case x of Inl err \<Rightarrow> fail err | Inr v \<Rightarrow> respond_with (g r v), app1)) = (sv, app')"
        using 1(2) assms(1) [OF Some None, of app] by simp
      then show ?thesis by (rule serves_call [OF assms(4) 1(1)]) (auto simp: assms(5) split: sum.splits)
    next
      case (Some sv1)
      then show ?thesis using 1(2) assms(3) \<open>rq_Merchant r = Some m\<close> safe_refl [OF 1(1)] by fastforce
    qed
  qed
qed

lemma serves_GetByID:
  "(\<And>ctx m i. keeps W S (GetTransaction svc ctx m i)) \<Longrightarrow> serves W S documented (GetByID svc)"
  by (rule serves_lookup [where G = "\<lambda>_ _. None" and f = "\<lambda>r m. GetTransaction svc (rq_Context r) (m_ID m) (rq_URLParam r)"
        and g = "\<lambda>r v. writeJSON 200 (Some (DTransaction v))"])
    (auto simp: GetByID_def merchantFromContext_def split: sum.splits prod.splits)

lemma serves_Refund:
  "(\<And>ctx m i reason. keeps W S (RefundTransaction svc ctx m i reason)) \<Longrightarrow> serves W S documented (Refund svc)"
  by (rule serves_lookup [where G = "\<lambda>_ _. None" and g = "\<lambda>r v. writeJSON 200 (Some (DTransaction v))"
        and f = "\<lambda>r m. RefundTransaction svc (rq_Context r) (m_ID m) (rq_URLParam r) (decode_reason (rq_Body r))"])
    (auto simp: Refund_def merchantFromContext_def split: sum.splits prod.splits)

lemma serves_GetEvents:
  "(\<And>ctx m i. keeps W S (GetTransactionHistory svc ctx m i)) \<Longrightarrow> serves W S documented (GetEvents svc)"
  by (rule serves_lookup [where G = "\<lambda>_ _. None" and f = "\<lambda>r m. GetTransactionHistory svc (rq_Context r) (m_ID m) (rq_URLParam r)"
        and g = "\<lambda>r v. writeJSON 200 (Some (DEvents v))"])
    (auto simp: GetEvents_def merchantFromContext_def split: sum.splits prod.splits)

abbreviation list_params :: "Request \<Rightarrow> ListParams" where
  "list_params r \<equiv> NewListParams (fst (Atoi (rq_Query r ''limit''))) (fst (Atoi (rq_Query r ''offset'')))"

lemma serves_ListByMerchant:
  "(\<And>ctx m params. keeps W S (ListTransactions svc ctx m params)) \<Longrightarrow> serves W S documented (ListByMerchant svc)"
  by (rule serves_lookup [where G = "\<lambda>r m. ensureMerchantID m (rq_URLParam r)"
        and f = "\<lambda>r m. ListTransactions svc (rq_Context r) (rq_URLParam r) (list_params r)"
        and g = "\<lambda>r (txns, n). writeJSONWithMeta 200 (Some (DTransactions txns))
          \<lparr>am_Total = int n, am_Limit = sint (Limit (list_params r)), am_Offset = sint (Offset (list_params r))\<rparr>"])
    (auto simp: ListByMerchant_def merchantFromContext_def Let_def dest: ensureMerchantID_documented split: sum.splits prod.splits)

lemma serves_GetBalance:
  "(\<And>ctx m. keeps W S (GetMerchantBalance svc ctx m)) \<Longrightarrow> serves W S documented (GetBalance svc)"
  by (rule serves_lookup [where G = "\<lambda>r m. ensureMerchantID m (rq_URLParam r)"
        and f = "\<lambda>r m. GetMerchantBalance svc (rq_Context r) (rq_URLParam r)"
        and g = "\<lambda>r m. writeJSON 200 (Some (DBalance (m_ID m) (m_Name m) (m_BalanceCents m) (m_Currency m)))"])
    (auto simp: GetBalance_def merchantFromContext_def dest: ensureMerchantID_documented split: sum.splits prod.splits)

lemma health_json: "json_status code \<Longrightarrow> good_document code doc \<Longrightarrow>
  documented (respond_with [SetHeader ''Content-Type'' ''application/json'', WriteHeader code, Write [doc]])"
  using json_answer_document [of code doc] by (simp add: document_def)

lemma serves_Health:
  assumes "\<And>chk ctx. hh_check h = Some chk \<Longrightarrow> keeps W S (chk ctx)"
  shows "serves W S documented (Health_Check h)" and "serves W S documented Health_Ready"
proof -
  show "serves W S documented (Health_Check h)"
  proof (rule servesI, goal_cases)
    case (1 r app sv app')
    let ?c = "case hh_check h of None \<Rightarrow> (None, app) | Some chk \<Rightarrow> in_world (chk (rq_Context r)) app"
    have "app' = snd ?c" using 1(2) by (cases ?c) (auto simp: Health_Check_def Let_def)
    moreover have "safe W S app (snd ?c)"
    proof (cases "hh_check h")
      case (Some chk)
      then show ?thesis using keeps_in_world [OF assms [OF Some, of "rq_Context r"] 1(1)]
        by (cases "in_world (chk (rq_Context r)) app") simp
    qed (use safe_refl [OF 1(1)] in simp)
    moreover have "documented sv" using 1(2) by (cases ?c) (auto simp: Health_Check_def Let_def health_json good_health split: option.splits)
    ultimately show ?case by simp
  qed
  show "serves W S documented Health_Ready"
    by (rule servesI) (auto simp: Health_Ready_def health_json good_health safe_refl)
qed

end

end
