(* ===== verification/Payflow_Postgres.thy ===== *)
theory Payflow_Postgres
  imports Payflow_Repository
begin

text \<open>
  The PostgreSQL repositories (\<open>internal/repository/postgres/merchant.go\<close>, \<open>transaction.go\<close>,
  \<open>events.go\<close>) and \<open>database/sql\<close> transactions. Each SQL statement of the source is a function on
  tables (lists of rows) under the constraints of \<open>migrations/*.sql\<close>. What the network and the
  server may do is a fault schedule: every round trip consumes its head and may fail before or
  after the statement took effect. The repositories interpret \<open>transactional_repositories\<close>
  (interpretation \<open>pg\<close>), for every schedule.
\<close>

section \<open>Tables\<close>

record tx_row =
  r_id :: string
  r_merchant_id :: string
  r_amount_cents :: int64
  r_currency :: string
  r_status :: string
  r_idempotency_key :: "string option"
  r_description :: "string option"
  r_metadata :: json
  r_created_at :: int
  r_updated_at :: int

record event_row =
  e_id :: int64
  e_transaction_id :: string
  e_event_type :: string
  e_from_status :: "string option"
  e_to_status :: "string option"
  e_payload :: "json option"
  e_created_at :: int

record outbox_row =
  o_id :: int64
  o_event_type :: string
  o_payload :: json
  o_published :: bool
  o_published_at :: "int option"
  o_created_at :: int

record tables =
  t_merchants :: "Merchant list"
  t_transactions :: "tx_row list"
  t_events :: "event_row list"
  t_outbox :: "outbox_row list"

text \<open>
  The database as one client session sees it: the committed tables, the tables inside the open
  transaction with the time it began (which \<open>NOW()\<close> reports there), the two \<open>BIGSERIAL\<close> sequences
  (which do not roll back) and the fault schedule.
\<close>

datatype fault = NoFault | FailBefore string | FailAfter string

record pgdb =
  pg_committed :: tables
  pg_tx :: "(int \<times> tables) option"
  pg_event_seq :: int64
  pg_outbox_seq :: int64
  pg_faults :: "fault list"

definition next_fault :: "pgdb \<Rightarrow> fault \<times> pgdb" where
  "next_fault d = (case pg_faults d of [] \<Rightarrow> (NoFault, d) | f # fs \<Rightarrow> (f, d\<lparr>pg_faults := fs\<rparr>))"

definition tables_on :: "DBTX \<Rightarrow> pgdb \<Rightarrow> tables option" where
  "tables_on c d = (case c of OnDB \<Rightarrow> Some (pg_committed d) | OnTx \<Rightarrow> map_option snd (pg_tx d))"

definition put_tables :: "DBTX \<Rightarrow> tables \<Rightarrow> pgdb \<Rightarrow> pgdb" where
  "put_tables c tb d =
     (case c of
        OnDB \<Rightarrow> d\<lparr>pg_committed := tb\<rparr>
      | OnTx \<Rightarrow> d\<lparr>pg_tx := map_option (\<lambda>(t0, _). (t0, tb)) (pg_tx d)\<rparr>)"

text \<open>
  \<open>NOW()\<close> is the time the transaction began. The server's clock is taken to be the program's; that it counts in
  microseconds is left out, as no result depends on it.
\<close>

definition NOW :: "DBTX \<Rightarrow> int \<Rightarrow> pgdb \<Rightarrow> int" where
  "NOW c t d = (case c of OnDB \<Rightarrow> t | OnTx \<Rightarrow> (case pg_tx d of None \<Rightarrow> t | Some (t0, _) \<Rightarrow> t0))"

text \<open>
  \<open>ExecContext\<close>, \<open>QueryContext\<close> and \<open>QueryRowContext\<close>: a done context or a fault before the statement
  leaves the tables alone; a statement that violates a constraint has no effect; after a fault
  that loses the answer the effect stays.
\<close>

definition run_stmt :: "DBTX \<Rightarrow> go_context \<Rightarrow> (tables \<Rightarrow> go_error + ('r \<times> tables)) \<Rightarrow> (pgdb, go_error + 'r) dbop" where
  "run_stmt c ctx stmt t d =
     (case ctx_Err ctx t of
        Some err \<Rightarrow> (Inl err, d)
      | None \<Rightarrow>
          (case next_fault d of
             (FailBefore m, d1) \<Rightarrow> (Inl (New m), d1)
           | (f, d1) \<Rightarrow>
               (case tables_on c d1 of
                  None \<Rightarrow> (Inl (Sentinel ErrTxDone), d1)
                | Some tb \<Rightarrow>
                    (case stmt tb of
                       Inl err \<Rightarrow> (Inl err, d1)
                     | Inr (r, tb') \<Rightarrow>
                         ((case f of FailAfter m \<Rightarrow> Inl (New m) | _ \<Rightarrow> Inr r), put_tables c tb' d1)))))"

text \<open>\<open>rows.Err()\<close> after the iteration: the connection may fail while rows are fetched.\<close>

definition rows_Err :: "pgdb \<Rightarrow> go_error option \<times> pgdb" where
  "rows_Err d =
     (case next_fault d of
        (NoFault, d1) \<Rightarrow> (None, d1)
      | (FailBefore m, d1) \<Rightarrow> (Some (New m), d1)
      | (FailAfter m, d1) \<Rightarrow> (Some (New m), d1))"

text \<open>A constraint violation, as the driver reports it.\<close>

definition violates :: "string \<Rightarrow> go_error" where
  "violates name = New (''pq: violates constraint '' @ name)"

definition nullif :: "string \<Rightarrow> string option" where
  "nullif s = (if s = [] then None else Some s)"

text \<open>Reading a nullable column through \<open>sql.NullString\<close> or \<open>COALESCE(..., '')\<close>.\<close>

definition null_string :: "string option \<Rightarrow> string" where
  "null_string v = (case v of None \<Rightarrow> [] | Some s \<Rightarrow> s)"

definition valid_status :: "string \<Rightarrow> bool" where
  "valid_status s \<longleftrightarrow> s \<in> set [''PENDING'', ''PROCESSING'', ''COMPLETED'', ''FAILED'', ''REFUNDED'']"

section \<open>Merchants\<close>

definition select_merchant :: "string \<Rightarrow> tables \<Rightarrow> go_error + (Merchant option \<times> tables)" where
  "select_merchant i tb = Inr (find (\<lambda>m. m_ID m = i) (t_merchants tb), tb)"

definition pg_Merchant_GetByID :: "DBTX \<Rightarrow> go_context \<Rightarrow> string \<Rightarrow> (pgdb, go_error + Merchant) dbop" where
  "pg_Merchant_GetByID c ctx i t d =
     (case run_stmt c ctx (select_merchant i) t d of
        (Inr None, d1) \<Rightarrow> (Inl (Sentinel ErrMerchantNotFound), d1)
      | (Inl err, d1) \<Rightarrow> (Inl (wrapf (''query merchant '' @ i @ '': '') err), d1)
      | (Inr (Some m), d1) \<Rightarrow> (Inr m, d1))"

definition select_api_key :: "string \<Rightarrow> tables \<Rightarrow> go_error + (Merchant option \<times> tables)" where
  "select_api_key k tb = Inr (find (\<lambda>m. m_APIKey m = k \<and> m_Status m = ''ACTIVE'') (t_merchants tb), tb)"

definition pg_GetByAPIKey :: "DBTX \<Rightarrow> go_context \<Rightarrow> string \<Rightarrow> (pgdb, go_error + Merchant) dbop" where
  "pg_GetByAPIKey c ctx apiKey t d =
     (case run_stmt c ctx (select_api_key apiKey) t d of
        (Inr None, d1) \<Rightarrow> (Inl (Sentinel ErrMerchantNotFound), d1)
      | (Inl err, d1) \<Rightarrow> (Inl (wrapf ''query merchant by api_key: '' err), d1)
      | (Inr (Some m), d1) \<Rightarrow> (Inr m, d1))"

text \<open>
  \<open>UPDATE merchants SET balance_cents = balance_cents + $1 WHERE id = $2 AND balance_cents + $1 >= 0\<close>:
  a sum outside \<open>BIGINT\<close> is an error of the statement, unlike in Go.
\<close>

definition update_balance :: "int64 \<Rightarrow> string \<Rightarrow> int \<Rightarrow> tables \<Rightarrow> go_error + (nat \<times> tables)" where
  "update_balance delta i ts tb =
     (case find (\<lambda>m. m_ID m = i) (t_merchants tb) of
        None \<Rightarrow> Inr (0, tb)
      | Some m \<Rightarrow>
          (let sum = sint (m_BalanceCents m) + sint delta
           in if \<not> in_int64 sum then Inl (New ''pq: bigint out of range'')
              else if sum < 0 then Inr (0, tb)
              else Inr (1, tb\<lparr>t_merchants := update_where (\<lambda>m. m_ID m = i)
                     (\<lambda>m. m\<lparr>m_BalanceCents := m_BalanceCents m + delta, m_UpdatedAt := ts\<rparr>)
                     (t_merchants tb)\<rparr>)))"

definition pg_UpdateBalance :: "DBTX \<Rightarrow> go_context \<Rightarrow> string \<Rightarrow> int64 \<Rightarrow> (pgdb, go_error option) dbop" where
  "pg_UpdateBalance c ctx i delta t d =
     (case run_stmt c ctx (update_balance delta i (NOW c t d)) t d of
        (Inl err, d1) \<Rightarrow> (Some (wrapf (''update balance for '' @ i @ '': '') err), d1)
      | (Inr rows, d1) \<Rightarrow>
          if rows = 0 then
            (case pg_Merchant_GetByID c ctx i t d1 of
               (Inl lookupErr, d2) \<Rightarrow> (Some lookupErr, d2)
             | (Inr _, d2) \<Rightarrow> (Some (Sentinel ErrInsufficientFunds), d2))
          else (None, d1))"

text \<open>
  A time in a \<open>TIMESTAMPTZ\<close> column: the driver sends the nanoseconds in the text of the literal, PostgreSQL
  keeps the nearest microsecond (of two equally near ones the even one; its input routine computes the
  fraction in floating point). Times are instants: the zone in which a read time is expressed is left
  out. A \<open>JSONB\<close> column keeps the normal form of its document.
\<close>

definition pg_timestamp :: "int \<Rightarrow> int" where
  "pg_timestamp t =
     (let q = (t + 500) div 1000
      in 1000 * (if (t + 500) mod 1000 = 0 \<and> odd q then q - 1 else q))"

section \<open>Transactions\<close>

definition tx_row_of :: "Transaction \<Rightarrow> tx_row" where
  "tx_row_of x = \<lparr>r_id = tx_ID x, r_merchant_id = tx_MerchantID x, r_amount_cents = tx_AmountCents x,
     r_currency = tx_Currency x, r_status = tx_Status x, r_idempotency_key = nullif (tx_IdempotencyKey x),
     r_description = nullif (tx_Description x),
     r_metadata = normal_json (case tx_Metadata x of None \<Rightarrow> JObject [] | Some j \<Rightarrow> j),
     r_created_at = pg_timestamp (tx_CreatedAt x), r_updated_at = pg_timestamp (tx_UpdatedAt x)\<rparr>"

definition scan_tx :: "tx_row \<Rightarrow> Transaction" where
  "scan_tx r = \<lparr>tx_ID = r_id r, tx_MerchantID = r_merchant_id r, tx_AmountCents = r_amount_cents r,
     tx_Currency = r_currency r, tx_Status = r_status r,
     tx_IdempotencyKey = null_string (r_idempotency_key r),
     tx_Description = null_string (r_description r), tx_Metadata = Some (r_metadata r),
     tx_CreatedAt = r_created_at r, tx_UpdatedAt = r_updated_at r\<rparr>"

text \<open>\<open>INSERT INTO transactions\<close> under the constraints of migrations 0002 and 0006.\<close>

definition insert_transaction :: "tx_row \<Rightarrow> tables \<Rightarrow> go_error + (unit \<times> tables)" where
  "insert_transaction r tb =
     (if \<not> 0 < sint (r_amount_cents r) then Inl (violates ''transactions_amount_cents_check'')
      else if r_currency r \<notin> set [''CAD'', ''USD''] then Inl (violates ''transactions_currency_check'')
      else if \<not> valid_status (r_status r) then Inl (violates ''transactions_status_check'')
      else if \<exists>q \<in> set (t_transactions tb). r_id q = r_id r then Inl (violates ''transactions_pkey'')
      else if r_idempotency_key r \<noteq> None \<and>
              (\<exists>q \<in> set (t_transactions tb). r_idempotency_key q = r_idempotency_key r)
           then Inl (violates ''uq_transactions_idempotency_key'')
      else if \<not> (\<exists>m \<in> set (t_merchants tb). m_ID m = r_merchant_id r)
           then Inl (violates ''transactions_merchant_id_fkey'')
      else Inr ((), tb\<lparr>t_transactions := t_transactions tb @ [r]\<rparr>))"

definition pg_Transaction_Create :: "DBTX \<Rightarrow> go_context \<Rightarrow> Transaction \<Rightarrow> (pgdb, go_error option) dbop" where
  "pg_Transaction_Create c ctx x t d =
     (case run_stmt c ctx (insert_transaction (tx_row_of x)) t d of
        (Inl err, d1) \<Rightarrow> (Some (wrapf ''insert transaction: '' err), d1)
      | (Inr _, d1) \<Rightarrow> (None, d1))"

definition select_transaction :: "(tx_row \<Rightarrow> bool) \<Rightarrow> tables \<Rightarrow> go_error + (tx_row option \<times> tables)" where
  "select_transaction P tb = Inr (find P (t_transactions tb), tb)"

definition pg_Transaction_GetByID :: "DBTX \<Rightarrow> go_context \<Rightarrow> string \<Rightarrow> (pgdb, go_error + Transaction) dbop" where
  "pg_Transaction_GetByID c ctx i t d =
     (case run_stmt c ctx (select_transaction (\<lambda>r. r_id r = i)) t d of
        (Inr None, d1) \<Rightarrow> (Inl (Sentinel ErrTransactionNotFound), d1)
      | (Inl err, d1) \<Rightarrow> (Inl (wrapf (''query transaction '' @ i @ '': '') err), d1)
      | (Inr (Some r), d1) \<Rightarrow> (Inr (scan_tx r), d1))"

definition pg_GetByIdempotencyKey :: "DBTX \<Rightarrow> go_context \<Rightarrow> string \<Rightarrow> (pgdb, go_error + Transaction option) dbop" where
  "pg_GetByIdempotencyKey c ctx key t d =
     (case run_stmt c ctx (select_transaction (\<lambda>r. r_idempotency_key r = Some key)) t d of
        (Inr None, d1) \<Rightarrow> (Inr None, d1)
      | (Inl err, d1) \<Rightarrow> (Inl (wrapf ''query by idempotency key: '' err), d1)
      | (Inr (Some r), d1) \<Rightarrow> (Inr (Some (scan_tx r)), d1))"

definition update_status :: "TransactionStatus \<Rightarrow> string \<Rightarrow> int \<Rightarrow> tables \<Rightarrow> go_error + (nat \<times> tables)" where
  "update_status status i ts tb =
     (if (\<exists>r \<in> set (t_transactions tb). r_id r = i) \<and> \<not> valid_status status
      then Inl (violates ''transactions_status_check'')
      else Inr (count_where (\<lambda>r. r_id r = i) (t_transactions tb),
                tb\<lparr>t_transactions := update_where (\<lambda>r. r_id r = i)
                     (\<lambda>r. r\<lparr>r_status := status, r_updated_at := ts\<rparr>) (t_transactions tb)\<rparr>))"

definition pg_UpdateStatus :: "DBTX \<Rightarrow> go_context \<Rightarrow> string \<Rightarrow> TransactionStatus \<Rightarrow> (pgdb, go_error option) dbop" where
  "pg_UpdateStatus c ctx i status t d =
     (case run_stmt c ctx (update_status status i (NOW c t d)) t d of
        (Inl err, d1) \<Rightarrow> (Some (wrapf ''update transaction status: '' err), d1)
      | (Inr rows, d1) \<Rightarrow> if rows = 0 then (Some (Sentinel ErrTransactionNotFound), d1) else (None, d1))"

text \<open>
  The query orders by \<open>created_at\<close> only, so the server may list rows of equal time in any order; here they
  come in the order of their insertion.
\<close>

definition select_page :: "string \<Rightarrow> ListParams \<Rightarrow> tables \<Rightarrow> go_error + (tx_row list \<times> tables)" where
  "select_page merchantID params tb =
     (if sint (Limit params) < 0 then Inl (New ''pq: LIMIT must not be negative'')
      else if sint (Offset params) < 0 then Inl (New ''pq: OFFSET must not be negative'')
      else Inr (take (nat (sint (Limit params))) (drop (nat (sint (Offset params)))
             (sort_key (\<lambda>r. - r_created_at r)
                (filter (\<lambda>r. r_merchant_id r = merchantID) (t_transactions tb)))), tb))"

definition pg_ListByMerchant :: "DBTX \<Rightarrow> go_context \<Rightarrow> string \<Rightarrow> ListParams \<Rightarrow> (pgdb, go_error + (Transaction list \<times> nat)) dbop" where
  "pg_ListByMerchant c ctx merchantID params t d =
     (case run_stmt c ctx (\<lambda>tb. Inr (count_where (\<lambda>r. r_merchant_id r = merchantID) (t_transactions tb), tb)) t d of
        (Inl err, d1) \<Rightarrow> (Inl (wrapf ''count transactions: '' err), d1)
      | (Inr n, d1) \<Rightarrow>
          (case run_stmt c ctx (select_page merchantID params) t d1 of
             (Inl err, d2) \<Rightarrow> (Inl (wrapf ''list transactions: '' err), d2)
           | (Inr rows, d2) \<Rightarrow>
               (case rows_Err d2 of
                  (Some err, d3) \<Rightarrow> (Inl (wrapf ''iterate transactions: '' err), d3)
                | (None, d3) \<Rightarrow> (Inr (map scan_tx rows, n), d3))))"

section \<open>Events\<close>

text \<open>
  A nil payload is \<open>NULL\<close> in the column (the driver sends a nil slice as \<open>NULL\<close>). \<open>Scan\<close> cannot store
  \<open>NULL\<close> into a \<open>json.RawMessage\<close>: reading back the rows of a transaction ends at the first such row
  with \<open>scan event: ...\<close>. A connection that fails while the rows are fetched may do so before any row
  arrived (\<open>FailBefore\<close>) or after the last one; \<open>rows.Err()\<close> reports it unless a row could not be scanned.
\<close>

definition scan_null_payload :: go_error where
  "scan_null_payload = New (''sql: Scan error on column index 5, name \"payload\": unsupported Scan, '' @
     ''storing driver.Value type <nil> into type *json.RawMessage'')"

definition event_row_of :: "int64 \<Rightarrow> TransactionEvent \<Rightarrow> event_row" where
  "event_row_of n e = \<lparr>e_id = n, e_transaction_id = ev_TransactionID e, e_event_type = ev_EventType e,
     e_from_status = nullif (ev_FromStatus e), e_to_status = nullif (ev_ToStatus e),
     e_payload = map_option normal_json (ev_Payload e), e_created_at = pg_timestamp (ev_CreatedAt e)\<rparr>"

definition scan_event :: "event_row \<Rightarrow> TransactionEvent" where
  "scan_event r = \<lparr>ev_ID = e_id r, ev_TransactionID = e_transaction_id r, ev_EventType = e_event_type r,
     ev_FromStatus = null_string (e_from_status r), ev_ToStatus = null_string (e_to_status r),
     ev_Payload = e_payload r, ev_CreatedAt = e_created_at r\<rparr>"

definition scan_events :: "event_row list \<Rightarrow> go_error + TransactionEvent list" where
  "scan_events rows =
     (if \<exists>r \<in> set rows. e_payload r = None then Inl (wrapf ''scan event: '' scan_null_payload)
      else Inr (map scan_event rows))"

definition insert_event :: "event_row \<Rightarrow> tables \<Rightarrow> go_error + (unit \<times> tables)" where
  "insert_event r tb =
     (if \<not> (\<exists>q \<in> set (t_transactions tb). r_id q = e_transaction_id r)
      then Inl (violates ''transaction_events_transaction_id_fkey'')
      else Inr ((), tb\<lparr>t_events := t_events tb @ [r]\<rparr>))"

definition pg_Event_Create :: "DBTX \<Rightarrow> go_context \<Rightarrow> TransactionEvent \<Rightarrow> (pgdb, go_error option) dbop" where
  "pg_Event_Create c ctx e t d =
     (case run_stmt c ctx (insert_event (event_row_of (pg_event_seq d) e)) t
             (d\<lparr>pg_event_seq := pg_event_seq d + 1\<rparr>) of
        (Inl err, d1) \<Rightarrow> (Some (wrapf ''insert event: '' err), d1)
      | (Inr _, d1) \<Rightarrow> (None, d1))"

definition pg_ListByTransaction :: "DBTX \<Rightarrow> go_context \<Rightarrow> string \<Rightarrow> (pgdb, go_error + TransactionEvent list) dbop" where
  "pg_ListByTransaction c ctx txID t d =
     (case run_stmt c ctx (\<lambda>tb. Inr (sort_key e_created_at
             (filter (\<lambda>r. e_transaction_id r = txID) (t_events tb)), tb)) t d of
        (Inl err, d1) \<Rightarrow> (Inl (wrapf (''list events for tx '' @ txID @ '': '') err), d1)
      | (Inr rows, d1) \<Rightarrow>
          (case next_fault d1 of
             (FailBefore m, d2) \<Rightarrow> (Inl (New m), d2)
           | (f, d2) \<Rightarrow>
               (case scan_events rows of
                  Inl err \<Rightarrow> (Inl err, d2)
                | Inr events \<Rightarrow> (case f of FailAfter m \<Rightarrow> Inl (New m) | _ \<Rightarrow> Inr events, d2))))"

section \<open>Outbox\<close>

definition outboxClaimLease :: int where "outboxClaimLease = 30 * 1000000000"

definition scan_outbox :: "outbox_row \<Rightarrow> OutboxEvent" where
  "scan_outbox r = \<lparr>ob_ID = o_id r, ob_EventType = o_event_type r, ob_Payload = Some (o_payload r),
     ob_Published = o_published r, ob_CreatedAt = o_created_at r\<rparr>"

definition insert_outbox :: "int64 \<Rightarrow> OutboxEvent \<Rightarrow> tables \<Rightarrow> go_error + (unit \<times> tables)" where
  "insert_outbox n x tb =
     (case ob_Payload x of
        None \<Rightarrow> Inl (violates ''outbox_payload_not_null'')
      | Some j \<Rightarrow> Inr ((), tb\<lparr>t_outbox := t_outbox tb @
          [\<lparr>o_id = n, o_event_type = ob_EventType x, o_payload = normal_json j, o_published = False,
            o_published_at = None, o_created_at = pg_timestamp (ob_CreatedAt x)\<rparr>]\<rparr>))"

definition pg_Outbox_Create :: "DBTX \<Rightarrow> go_context \<Rightarrow> OutboxEvent \<Rightarrow> (pgdb, go_error option) dbop" where
  "pg_Outbox_Create c ctx x t d =
     (case run_stmt c ctx (insert_outbox (pg_outbox_seq d) x) t (d\<lparr>pg_outbox_seq := pg_outbox_seq d + 1\<rparr>) of
        (Inl err, d1) \<Rightarrow> (Some (wrapf ''insert outbox event: '' err), d1)
      | (Inr _, d1) \<Rightarrow> (None, d1))"

definition claimable :: "int \<Rightarrow> outbox_row \<Rightarrow> bool" where
  "claimable ts r \<longleftrightarrow> \<not> o_published r \<and>
     (case o_published_at r of None \<Rightarrow> True | Some p \<Rightarrow> p \<le> ts)"

text \<open>
  The claim: the oldest claimable rows get a lease in \<open>published_at\<close>. Under \<open>SKIP LOCKED\<close> rows that
  another session is claiming at the same time are not candidates; here the session is alone.
\<close>

definition claim_outbox :: "int64 \<Rightarrow> int \<Rightarrow> tables \<Rightarrow> go_error + (outbox_row list \<times> tables)" where
  "claim_outbox limit ts tb =
     (if sint limit < 0 then Inl (New ''pq: LIMIT must not be negative'')
      else (let rows = take (nat (sint limit)) (sort_key o_created_at (filter (claimable ts) (t_outbox tb)));
                ids = map o_id rows;
                lease = (\<lambda>r. r\<lparr>o_published_at := Some (ts + outboxClaimLease)\<rparr>)
            in Inr (map lease rows,
                    tb\<lparr>t_outbox := update_where (\<lambda>r. o_id r \<in> set ids) lease (t_outbox tb)\<rparr>)))"

definition pg_FetchUnpublished :: "DBTX \<Rightarrow> go_context \<Rightarrow> int64 \<Rightarrow> (pgdb, go_error + OutboxEvent list) dbop" where
  "pg_FetchUnpublished c ctx limit t d =
     (case run_stmt c ctx (claim_outbox limit (NOW c t d)) t d of
        (Inl err, d1) \<Rightarrow> (Inl (wrapf ''claim unpublished: '' err), d1)
      | (Inr rows, d1) \<Rightarrow>
          (case rows_Err d1 of
             (Some err, d2) \<Rightarrow> (Inl err, d2)
           | (None, d2) \<Rightarrow> (Inr (map scan_outbox rows), d2)))"

definition mark_published :: "int64 \<Rightarrow> int \<Rightarrow> tables \<Rightarrow> go_error + (unit \<times> tables)" where
  "mark_published i ts tb =
     Inr ((), tb\<lparr>t_outbox := update_where (\<lambda>r. o_id r = i)
                  (\<lambda>r. r\<lparr>o_published := True, o_published_at := Some ts\<rparr>) (t_outbox tb)\<rparr>)"

definition pg_MarkPublished :: "DBTX \<Rightarrow> go_context \<Rightarrow> int64 \<Rightarrow> (pgdb, go_error option) dbop" where
  "pg_MarkPublished c ctx i t d =
     (case run_stmt c ctx (mark_published i (NOW c t d)) t d of
        (Inl err, d1) \<Rightarrow> (Some (wrapf (''mark published '' @ show_int (sint i) @ '': '') err), d1)
      | (Inr _, d1) \<Rightarrow> (None, d1))"

section \<open>Transactions of \<open>database/sql\<close>\<close>

definition pg_BeginTx :: "go_context \<Rightarrow> (pgdb, go_error option) dbop" where
  "pg_BeginTx ctx t d =
     (case ctx_Err ctx t of
        Some err \<Rightarrow> (Some err, d)
      | None \<Rightarrow>
          (case next_fault d of
             (NoFault, d1) \<Rightarrow> (None, d1\<lparr>pg_tx := Some (t, pg_committed d1)\<rparr>)
           | (FailBefore m, d1) \<Rightarrow> (Some (New m), d1)
           | (FailAfter m, d1) \<Rightarrow> (Some (New m), d1)))"

definition pg_Commit :: "go_context \<Rightarrow> (pgdb, go_error option) dbop" where
  "pg_Commit ctx t d =
     (case pg_tx d of
        None \<Rightarrow> (Some (Sentinel ErrTxDone), d)
      | Some (_, tb) \<Rightarrow>
          (case ctx_Err ctx t of
             Some err \<Rightarrow> (Some err, d\<lparr>pg_tx := None\<rparr>)
           | None \<Rightarrow>
               (case next_fault d of
                  (NoFault, d1) \<Rightarrow> (None, d1\<lparr>pg_committed := tb, pg_tx := None\<rparr>)
                | (FailBefore m, d1) \<Rightarrow> (Some (New m), d1\<lparr>pg_tx := None\<rparr>)
                | (FailAfter m, d1) \<Rightarrow> (Some (New m), d1\<lparr>pg_committed := tb, pg_tx := None\<rparr>))))"

definition pg_Rollback :: "(pgdb, go_error option) dbop" where
  "pg_Rollback t d =
     (case pg_tx d of
        None \<Rightarrow> (Some (Sentinel ErrTxDone), d)
      | Some _ \<Rightarrow>
          (case next_fault d of
             (NoFault, d1) \<Rightarrow> (None, d1\<lparr>pg_tx := None\<rparr>)
           | (FailBefore m, d1) \<Rightarrow> (Some (New m), d1\<lparr>pg_tx := None\<rparr>)
           | (FailAfter m, d1) \<Rightarrow> (Some (New m), d1\<lparr>pg_tx := None\<rparr>)))"

section \<open>The repositories\<close>

definition pg_MerchantRepo :: "pgdb MerchantRepository" where
  "pg_MerchantRepo = \<lparr>MR_GetByID = pg_Merchant_GetByID, MR_GetByAPIKey = pg_GetByAPIKey,
     MR_UpdateBalance = pg_UpdateBalance\<rparr>"

definition pg_TransactionRepo :: "pgdb TransactionRepository" where
  "pg_TransactionRepo = \<lparr>TR_Create = pg_Transaction_Create, TR_GetByID = pg_Transaction_GetByID,
     TR_GetByIdempotencyKey = pg_GetByIdempotencyKey, TR_UpdateStatus = pg_UpdateStatus,
     TR_ListByMerchant = pg_ListByMerchant\<rparr>"

definition pg_EventRepo :: "pgdb EventRepository" where
  "pg_EventRepo = \<lparr>ER_Create = pg_Event_Create, ER_ListByTransaction = pg_ListByTransaction\<rparr>"

definition pg_OutboxRepo :: "pgdb OutboxRepository" where
  "pg_OutboxRepo = \<lparr>OR_Create = pg_Outbox_Create, OR_FetchUnpublished = pg_FetchUnpublished,
     OR_MarkPublished = pg_MarkPublished\<rparr>"

definition pg_sqlDB :: "pgdb sqlDB" where
  "pg_sqlDB = \<lparr>BeginTx = pg_BeginTx, Commit = pg_Commit, Rollback = pg_Rollback\<rparr>"

section \<open>The contract\<close>

definition tables_book :: "tables \<Rightarrow> book" where
  "tables_book tb = \<lparr>bk_txns = map (\<lambda>r. (r_id r, core (scan_tx r))) (t_transactions tb),
     bk_bal = (\<lambda>i. map_option (\<lambda>m. sint (m_BalanceCents m)) (find (\<lambda>m. m_ID m = i) (t_merchants tb))),
     bk_events = map (\<lambda>r. core_event (scan_event r)) (t_events tb),
     bk_outbox = map (\<lambda>r. core_outbox (scan_outbox r)) (t_outbox tb)\<rparr>"

definition pg_view :: "DBTX \<Rightarrow> pgdb \<Rightarrow> book" where
  "pg_view c d = (case tables_on c d of None \<Rightarrow> empty_book | Some tb \<Rightarrow> tables_book tb)"

definition pg_live :: "DBTX \<Rightarrow> pgdb \<Rightarrow> bool" where
  "pg_live c d \<longleftrightarrow> tables_on c d \<noteq> None"

text \<open>Tables in which the constraints of the migrations hold.\<close>

definition tables_ok :: "tables \<Rightarrow> bool" where
  "tables_ok tb \<longleftrightarrow> book_ok (tables_book tb) \<and> distinct (map m_ID (t_merchants tb))
     \<and> distinct (filter (\<lambda>k. k \<noteq> None) (map r_idempotency_key (t_transactions tb)))"

definition pg_ok :: "pgdb \<Rightarrow> bool" where
  "pg_ok d \<longleftrightarrow> tables_ok (pg_committed d) \<and> (\<forall>t0 tb. pg_tx d = Some (t0, tb) \<longrightarrow> tables_ok tb)"

text \<open>Reading back what was written.\<close>

lemma null_string_nullif [simp]: "null_string (nullif s) = s"
  by (simp add: null_string_def nullif_def)

lemma core_scan_tx [simp]: "core (scan_tx (tx_row_of x)) = core x"
  by (simp add: core_def scan_tx_def tx_row_of_def)

lemma tx_row_of_id [simp]: "r_id (tx_row_of x) = tx_ID x" "r_amount_cents (tx_row_of x) = tx_AmountCents x"
  by (simp_all add: tx_row_of_def)

lemma core_scan_event [simp]: "core_event (scan_event (event_row_of n e)) = core_event e"
  by (simp add: core_event_def scan_event_def event_row_of_def option.map_comp comp_def)

lemma tables_book_get: "bk_get (tables_book tb) i = map_option (\<lambda>r. core (scan_tx r)) (find (\<lambda>r. r_id r = i) (t_transactions tb))"
proof -
  have "map_of (map (\<lambda>r. (r_id r, core (scan_tx r))) rs) i = map_option (\<lambda>r. core (scan_tx r)) (find (\<lambda>r. r_id r = i) rs)" for rs
    by (induction rs) auto
  then show ?thesis by (simp add: bk_get_def tables_book_def)
qed

lemma find_update_where_key:
  assumes "\<And>r. k (f r) = k r"
  shows "find (\<lambda>r. k r = j) (update_where (\<lambda>r. k r = i) f rows)
    = (if j = i then map_option f (find (\<lambda>r. k r = j) rows) else find (\<lambda>r. k r = j) rows)"
  using assms by (induction rows) auto

text \<open>What each statement does to the book.\<close>

lemma book_insert_transaction:
  "insert_transaction (tx_row_of x) tb = Inr (r, tb') \<Longrightarrow> tables_book tb' = bk_put x (tables_book tb)"
  by (auto simp: insert_transaction_def tables_book_def bk_put_def split: if_splits)

lemma fresh_insert_transaction:
  "insert_transaction (tx_row_of x) tb = Inr (r, tb') \<Longrightarrow> bk_get (tables_book tb) (tx_ID x) = None"
  by (auto simp: insert_transaction_def tables_book_get tx_row_of_def find_None_iff split: if_splits)

lemma book_update_status:
  "update_status st i ts tb = Inr (n, tb') \<Longrightarrow> tables_book tb' = bk_set i st (tables_book tb)"
  by (auto simp: update_status_def tables_book_def bk_set_def update_where_def scan_tx_def core_def
      split: if_splits)

lemma rows_update_status:
  "update_status st i ts tb = Inr (n, tb') \<Longrightarrow> n = 0 \<longleftrightarrow> bk_get (tables_book tb) i = None"
  by (auto simp: update_status_def tables_book_get find_None_iff split: if_splits)

lemma book_insert_event:
  "insert_event (event_row_of n e) tb = Inr (r, tb') \<Longrightarrow> tables_book tb' = bk_log e (tables_book tb)"
  by (auto simp: insert_event_def tables_book_def bk_log_def split: if_splits)

lemma book_insert_outbox:
  "insert_outbox n x tb = Inr (r, tb') \<Longrightarrow> tables_book tb' = bk_emit x (tables_book tb)"
  by (auto simp: insert_outbox_def tables_book_def bk_emit_def scan_outbox_def core_outbox_def
      split: option.splits)

lemma book_update_balance:
  assumes "update_balance delta i ts tb = Inr (n, tb')"
  shows "n = 0 \<longrightarrow> tb' = tb"
    and "n \<noteq> 0 \<longrightarrow> bk_can_add i (sint delta) (tables_book tb)
           \<and> tables_book tb' = bk_add i (sint delta) (tables_book tb)"
  using assms
  by (auto simp: update_balance_def tables_book_def bk_can_add_def bk_add_def Let_def fun_eq_iff
      find_update_where_key sint_add_exact in_int64_def split: option.splits if_splits)

text \<open>Statements keep the constraints.\<close>

lemma tables_ok_insert_transaction:
  assumes "tables_ok tb" and "insert_transaction (tx_row_of x) tb = Inr (r, tb')"
  shows "tables_ok tb'"
proof -
  have "book_ok (tables_book tb')"
    using assms fresh_insert_transaction [OF assms(2)]
    by (auto simp: book_insert_transaction [OF assms(2)] tables_ok_def insert_transaction_def
        intro!: book_ok_put split: if_splits)
  then show ?thesis
    using assms by (auto simp: tables_ok_def insert_transaction_def split: if_splits)
qed

lemma tables_ok_update_status:
  assumes "tables_ok tb" and "update_status st i ts tb = Inr (n, tb')"
  shows "tables_ok tb'"
proof -
  have "book_ok (tables_book tb')"
    using assms(1) by (simp add: book_update_status [OF assms(2)] tables_ok_def book_ok_set)
  moreover have keys: "map r_idempotency_key (update_where (\<lambda>r. r_id r = i)
      (\<lambda>r. r\<lparr>r_status := st, r_updated_at := ts\<rparr>) rows) = map r_idempotency_key rows" for rows
    by (rule map_update_where_key) simp
  ultimately show ?thesis
    using assms by (auto simp: tables_ok_def update_status_def keys split: if_splits)
qed

lemma tables_ok_update_balance:
  assumes "tables_ok tb" and "update_balance delta i ts tb = Inr (n, tb')"
  shows "tables_ok tb'"
proof (cases "n = 0")
  case True
  with assms book_update_balance(1) [OF assms(2)] show ?thesis by simp
next
  case False
  then have "book_ok (tables_book tb')"
    using assms(1) book_update_balance(2) [OF assms(2)] by (simp add: tables_ok_def book_ok_add)
  moreover have keys: "map m_ID (update_where (\<lambda>m. m_ID m = i)
      (\<lambda>m. m\<lparr>m_BalanceCents := m_BalanceCents m + delta, m_UpdatedAt := ts\<rparr>) rows) = map m_ID rows" for rows
    by (rule map_update_where_key) simp
  ultimately show ?thesis
    using assms False by (auto simp: tables_ok_def update_balance_def Let_def keys split: option.splits if_splits)
qed

lemma tables_ok_append:
  "tables_ok tb \<Longrightarrow> insert_event (event_row_of n e) tb = Inr (r, tb') \<Longrightarrow> tables_ok tb'"
  "tables_ok tb \<Longrightarrow> insert_outbox n x tb = Inr (r, tb') \<Longrightarrow> tables_ok tb'"
  using book_insert_event [of n e tb r tb'] book_insert_outbox [of n x tb r tb']
  by (auto simp: tables_ok_def insert_event_def insert_outbox_def split: option.splits if_splits)

text \<open>The sessions seen through \<open>run_stmt\<close>.\<close>

definition same_data :: "pgdb \<Rightarrow> pgdb \<Rightarrow> bool" where
  "same_data d d' \<longleftrightarrow> pg_committed d' = pg_committed d \<and> pg_tx d' = pg_tx d"

lemma same_dataD:
  assumes "same_data d d'"
  shows "tables_on c d' = tables_on c d" "pg_view c d' = pg_view c d" "pg_live c d' = pg_live c d"
    "pg_ok d' = pg_ok d"
  using assms by (auto simp: same_data_def tables_on_def pg_view_def pg_live_def pg_ok_def split: DBTX.splits)

lemma same_data_refl [simp, intro]: "same_data d d"
  by (simp add: same_data_def)

lemma same_data_next_fault [simp]: "same_data d (snd (next_fault d))"
  by (auto simp: same_data_def next_fault_def split: list.splits)

lemma run_stmt_cases:
  assumes "run_stmt c ctx stmt t d = (res, d')" and "pg_live c d"
  shows "(\<exists>err. res = Inl err \<and> same_data d d')
    \<or> (\<exists>d1 tb r tb'. same_data d d1 \<and> tables_on c d = Some tb \<and> stmt tb = Inr (r, tb')
         \<and> d' = put_tables c tb' d1 \<and> (res = Inr r \<or> (\<exists>m. res = Inl (New m))))"
proof -
  obtain f d1 where nf: "next_fault d = (f, d1)" by (cases "next_fault d")
  then have sd: "same_data d d1" using same_data_next_fault [of d] by simp
  show ?thesis
    using assms nf sd same_dataD(1) [OF sd, of c]
    by (auto simp: run_stmt_def pg_live_def split: option.splits fault.splits sum.splits)
qed

text \<open>Putting tables that satisfy the constraints on a live connection changes that connection only.\<close>

lemma put_tables_view:
  assumes "pg_live c d" and "pg_ok d" and "tables_ok tb"
  shows "pg_ok (put_tables c tb d)" "pg_live c' (put_tables c tb d) = pg_live c' d"
    "pg_view c' (put_tables c tb d) = (if c' = c then tables_book tb else pg_view c' d)"
  using assms
  by (cases c; cases c'; auto simp: pg_ok_def pg_live_def pg_view_def put_tables_def tables_on_def)+

lemma pg_ok_tables: "pg_ok d \<Longrightarrow> tables_on c d = Some tb \<Longrightarrow> tables_ok tb"
  by (cases c) (auto simp: pg_ok_def tables_on_def)

lemma pg_view_tables: "tables_on c d = Some tb \<Longrightarrow> pg_view c d = tables_book tb"
  by (simp add: pg_view_def)

lemma stmt_effect:
  assumes "same_data d d1" "tables_on c d = Some tb" "d' = put_tables c tb' d1" "pg_ok d" "tables_ok tb'"
  shows "pg_ok d'" "pg_live c' d' = pg_live c' d"
    "pg_view c' d' = (if c' = c then tables_book tb' else pg_view c' d)"
  using assms put_tables_view [of c d1 tb'] same_dataD [OF assms(1)]
  by (auto simp: pg_live_def)

text \<open>A statement whose success is an effect on the book, as an outcome of the operation.\<close>

lemma run_stmt_outcome:
  assumes run: "run_stmt c ctx stmt t d0 = (res, d')" and d0: "same_data d d0"
    and ok: "pg_ok d" and live: "pg_live c d"
    and keep: "\<And>tb r tb'. tables_ok tb \<Longrightarrow> stmt tb = Inr (r, tb') \<Longrightarrow> tables_ok tb'"
    and eff: "\<And>tb r tb'. stmt tb = Inr (r, tb') \<Longrightarrow> G (tables_book tb) \<and> tables_book tb' = F (tables_book tb)"
    and r: "r = None \<longrightarrow> (\<exists>x. res = Inr x)"
  shows "pg_ok d' \<and> outcome pg_view pg_live c G F d (r, d')"
proof -
  have live0: "pg_live c d0" and ok0: "pg_ok d0" using same_dataD [OF d0] ok live by simp_all
  from run_stmt_cases [OF run live0] show ?thesis
  proof (rule disjE)
    assume "\<exists>err. res = Inl err \<and> same_data d0 d'"
    then show ?thesis using same_dataD [OF d0] same_dataD [of d0 d'] ok r by (auto simp: outcome_def)
  next
    assume "\<exists>d1 tb r tb'. same_data d0 d1 \<and> tables_on c d0 = Some tb \<and> stmt tb = Inr (r, tb')
      \<and> d' = put_tables c tb' d1 \<and> (res = Inr r \<or> (\<exists>m. res = Inl (New m)))"
    then obtain d1 tb x tb' where sd: "same_data d0 d1" and tb: "tables_on c d0 = Some tb"
      and st: "stmt tb = Inr (x, tb')" and d': "d' = put_tables c tb' d1" by blast
    have "tables_ok tb'" using keep st pg_ok_tables [OF ok0 tb] by blast
    from stmt_effect [OF sd tb d' ok0 this] show ?thesis
      using eff [OF st] pg_view_tables [OF tb] same_dataD [OF d0] by (auto simp: outcome_def)
  qed
qed

text \<open>A query leaves every connection as it was.\<close>

lemma run_query:
  assumes run: "run_stmt c ctx stmt t d = (res, d')" and live: "pg_live c d"
    and query: "\<And>tb r tb'. stmt tb = Inr (r, tb') \<Longrightarrow> tb' = tb"
  shows "same_data d d' \<and> (\<forall>x. res = Inr x \<longrightarrow> (\<exists>tb. tables_on c d = Some tb \<and> stmt tb = Inr (x, tb)))"
  using run_stmt_cases [OF run live] query
  by (cases c) (fastforce simp: same_data_def put_tables_def tables_on_def)+

lemma reads_same_data: "same_data d d' \<Longrightarrow> reads pg_view pg_live d d'"
  by (simp add: reads_def same_dataD)

lemma pg_merchant_get:
  assumes "pg_ok d" and live: "pg_live c d" and get: "pg_Merchant_GetByID c ctx i t d = (res, d')"
  shows "same_data d d'"
    and "res = Inr m \<Longrightarrow> m_ID m = i \<and> bk_bal (pg_view c d) i = Some (sint (m_BalanceCents m))"
proof -
  obtain q d1 where q: "run_stmt c ctx (select_merchant i) t d = (q, d1)"
    by (cases "run_stmt c ctx (select_merchant i) t d")
  from run_query [OF q live] have "same_data d d1"
    and found: "\<And>x. q = Inr x \<Longrightarrow> \<exists>tb. tables_on c d = Some tb \<and> find (\<lambda>m. m_ID m = i) (t_merchants tb) = x"
    by (auto simp: select_merchant_def)
  moreover have "d' = d1" and "res = Inr m \<longrightarrow> q = Inr (Some m)" for m
    using get q by (auto simp: pg_Merchant_GetByID_def split: sum.splits option.splits)
  ultimately show "same_data d d'"
    and "res = Inr m \<Longrightarrow> m_ID m = i \<and> bk_bal (pg_view c d) i = Some (sint (m_BalanceCents m))"
    by (auto simp: tables_book_def pg_view_tables dest!: found dest: find_SomeD)
qed

lemma pg_transaction_select:
  assumes live: "pg_live c d" and q: "run_stmt c ctx (select_transaction P) t d = (res, d')"
  shows "same_data d d'"
    and "res = Inr x \<Longrightarrow> \<exists>tb. tables_on c d = Some tb \<and> find P (t_transactions tb) = x"
  using run_query [OF q live] by (auto simp: select_transaction_def)

lemma pg_transaction_get:
  assumes "pg_ok d" and live: "pg_live c d" and get: "pg_Transaction_GetByID c ctx i t d = (res, d')"
  shows "same_data d d'"
    and "res = Inr x \<Longrightarrow> tx_ID x = i \<and> bk_get (pg_view c d) i = Some (core x)"
proof -
  obtain q d1 where q: "run_stmt c ctx (select_transaction (\<lambda>r. r_id r = i)) t d = (q, d1)"
    by (cases "run_stmt c ctx (select_transaction (\<lambda>r. r_id r = i)) t d")
  have "d' = d1" and "res = Inr x \<Longrightarrow> \<exists>r. q = Inr (Some r) \<and> x = scan_tx r" for x
    using get q by (auto simp: pg_Transaction_GetByID_def split: sum.splits option.splits)
  with pg_transaction_select [OF live q] show "same_data d d'"
    and "res = Inr x \<Longrightarrow> tx_ID x = i \<and> bk_get (pg_view c d) i = Some (core x)"
    by (fastforce simp: pg_view_tables tables_book_get scan_tx_def dest: find_SomeD)+
qed

lemma find_unique_row:
  assumes "tables_ok tb" and "r \<in> set (t_transactions tb)"
  shows "find (\<lambda>q. r_id q = r_id r) (t_transactions tb) = Some r"
proof -
  have "distinct (map r_id (t_transactions tb))"
    using assms(1) by (simp add: tables_ok_def book_ok_def tables_book_def comp_def)
  then show ?thesis using assms(2) by (rule find_unique_key)
qed

lemma pg_transaction_by_key:
  assumes ok: "pg_ok d" and live: "pg_live c d" and get: "pg_GetByIdempotencyKey c ctx k t d = (res, d')"
  shows "same_data d d'"
    and "res = Inr (Some x) \<Longrightarrow> tx_IdempotencyKey x = k \<and> bk_get (pg_view c d) (tx_ID x) = Some (core x)"
proof -
  obtain q d1 where q: "run_stmt c ctx (select_transaction (\<lambda>r. r_idempotency_key r = Some k)) t d = (q, d1)"
    by (cases "run_stmt c ctx (select_transaction (\<lambda>r. r_idempotency_key r = Some k)) t d")
  have d': "d' = d1" and res: "res = Inr (Some x) \<Longrightarrow> \<exists>r. q = Inr (Some r) \<and> x = scan_tx r" for x
    using get q by (auto simp: pg_GetByIdempotencyKey_def split: sum.splits option.splits)
  from pg_transaction_select(1) [OF live q] d' show "same_data d d'" by simp
  assume "res = Inr (Some x)"
  then obtain r where r: "q = Inr (Some r)" "x = scan_tx r" using res by blast
  then obtain tb where tb: "tables_on c d = Some tb"
    and f: "find (\<lambda>r. r_idempotency_key r = Some k) (t_transactions tb) = Some r"
    using pg_transaction_select(2) [OF live q] by blast
  from find_SomeD [OF f] have "r \<in> set (t_transactions tb)" and key: "r_idempotency_key r = Some k" by auto
  with find_unique_row [OF pg_ok_tables [OF ok tb]]
  have "find (\<lambda>q. r_id q = r_id r) (t_transactions tb) = Some r" by blast
  then show "tx_IdempotencyKey x = k \<and> bk_get (pg_view c d) (tx_ID x) = Some (core x)"
    using r key tb by (simp add: scan_tx_def null_string_def pg_view_tables tables_book_get)
qed

text \<open>The two updates report whether a row was affected.\<close>

lemma pg_balance_outcome:
  assumes ok: "pg_ok d" and live: "pg_live c d"
  shows "pg_ok (snd (pg_UpdateBalance c ctx i delta t d))
    \<and> outcome pg_view pg_live c (bk_can_add i (sint delta)) (bk_add i (sint delta)) d (pg_UpdateBalance c ctx i delta t d)"
proof -
  obtain q d1 where q: "run_stmt c ctx (update_balance delta i (NOW c t d)) t d = (q, d1)"
    by (cases "run_stmt c ctx (update_balance delta i (NOW c t d)) t d")
  obtain r d' where r: "pg_UpdateBalance c ctx i delta t d = (r, d')" by (cases "pg_UpdateBalance c ctx i delta t d")
  have none: "pg_ok d' \<and> outcome pg_view pg_live c G F d (r, d')" if "same_data d d'" "r \<noteq> None" for G F
    using that same_dataD [OF that(1)] ok by (auto simp: outcome_def)
  have get: "same_data d1 d'" "r \<noteq> None" if "q = Inr 0" "pg_ok d1" "pg_live c d1"
    using r q that pg_merchant_get(1) [of d1 c ctx i t]
    by (auto simp: pg_UpdateBalance_def split: prod.splits sum.splits)
  have other: "d' = d1" "r = None \<longleftrightarrow> (\<exists>n. q = Inr n)" if "q \<noteq> Inr 0"
    using r q that by (auto simp: pg_UpdateBalance_def split: sum.splits)
  from run_stmt_cases [OF q live] have "pg_ok d' \<and> outcome pg_view pg_live c
      (bk_can_add i (sint delta)) (bk_add i (sint delta)) d (r, d')"
  proof (rule disjE)
    assume "\<exists>err. q = Inl err \<and> same_data d d1"
    then show ?thesis using other none by auto
  next
    assume "\<exists>d0 tb n tb'. same_data d d0 \<and> tables_on c d = Some tb \<and> update_balance delta i (NOW c t d) tb = Inr (n, tb')
      \<and> d1 = put_tables c tb' d0 \<and> (q = Inr n \<or> (\<exists>m. q = Inl (New m)))"
    then obtain d0 tb n tb' where sd: "same_data d d0" and tb: "tables_on c d = Some tb"
      and st: "update_balance delta i (NOW c t d) tb = Inr (n, tb')" and d1: "d1 = put_tables c tb' d0"
      and qn: "q = Inr n \<or> (\<exists>m. q = Inl (New m))" by blast
    note eff = stmt_effect [OF sd tb d1 ok tables_ok_update_balance [OF pg_ok_tables [OF ok tb] st]]
    show ?thesis
    proof (cases "n = 0")
      case True
      then have "same_data d d1" using sd tb d1 book_update_balance(1) [OF st]
        by (cases c) (auto simp: same_data_def put_tables_def tables_on_def)
      then have "same_data d d' \<and> r \<noteq> None" using True qn get other eff live same_dataD [of d d1]
        by (auto simp: same_data_def)
      then show ?thesis using none by blast
    next
      case False
      with qn have "q \<noteq> Inr 0" by auto
      then show ?thesis
        using other eff book_update_balance(2) [OF st] False pg_view_tables [OF tb] by (auto simp: outcome_def)
    qed
  qed
  then show ?thesis by (simp add: r)
qed

lemma pg_status_outcome:
  assumes ok: "pg_ok d" and live: "pg_live c d"
  shows "pg_ok (snd (pg_UpdateStatus c ctx i st t d))
    \<and> outcome pg_view pg_live c (\<lambda>b. bk_get b i \<noteq> None) (bk_set i st) d (pg_UpdateStatus c ctx i st t d)"
proof -
  obtain q d1 where q: "run_stmt c ctx (update_status st i (NOW c t d)) t d = (q, d1)"
    by (cases "run_stmt c ctx (update_status st i (NOW c t d)) t d")
  define r where "r = fst (pg_UpdateStatus c ctx i st t d)"
  have r: "pg_UpdateStatus c ctx i st t d = (r, d1)" "r = None \<longleftrightarrow> (\<exists>n. q = Inr n \<and> n \<noteq> 0)"
    using q unfolding r_def by (cases q; auto simp: pg_UpdateStatus_def)+
  from run_stmt_cases [OF q live] have "pg_ok d1 \<and> outcome pg_view pg_live c
      (\<lambda>b. bk_get b i \<noteq> None) (bk_set i st) d (r, d1)"
  proof (rule disjE)
    assume "\<exists>err. q = Inl err \<and> same_data d d1"
    then show ?thesis using r ok same_dataD [of d d1] by (auto simp: outcome_def)
  next
    assume "\<exists>d0 tb n tb'. same_data d d0 \<and> tables_on c d = Some tb \<and> update_status st i (NOW c t d) tb = Inr (n, tb')
      \<and> d1 = put_tables c tb' d0 \<and> (q = Inr n \<or> (\<exists>m. q = Inl (New m)))"
    then obtain d0 tb n tb' where sd: "same_data d d0" and tb: "tables_on c d = Some tb"
      and st: "update_status st i (NOW c t d) tb = Inr (n, tb')" and d1: "d1 = put_tables c tb' d0"
      and qn: "q = Inr n \<or> (\<exists>m. q = Inl (New m))" by blast
    note eff = stmt_effect [OF sd tb d1 ok tables_ok_update_status [OF pg_ok_tables [OF ok tb] st]]
    have "bk_set i st (tables_book tb) = tables_book tb" if "bk_get (tables_book tb) i = None"
    proof -
      have "map (\<lambda>(k, t). (k, if k = i then t\<lparr>tx_Status := st\<rparr> else t)) (bk_txns (tables_book tb)) = bk_txns (tables_book tb)"
        using that by (intro map_idI) (force simp: bk_get_def map_of_eq_None_iff image_iff split: prod.splits)
      then show ?thesis by (simp add: bk_set_def)
    qed
    then show ?thesis
      using r qn eff book_update_status [OF st] rows_update_status [OF st] pg_view_tables [OF tb]
      by (auto simp: outcome_def)
  qed
  then show ?thesis by (simp add: r(1))
qed

text \<open>The three inserts.\<close>

lemma same_data_seq [simp]:
  "same_data d (d\<lparr>pg_event_seq := n\<rparr>)" "same_data d (d\<lparr>pg_outbox_seq := n\<rparr>)"
  by (simp_all add: same_data_def)

lemma pg_create_outcome:
  assumes "pg_ok d" and "pg_live c d"
  shows "pg_ok (snd (pg_Transaction_Create c ctx x t d))
    \<and> outcome pg_view pg_live c (\<lambda>b. bk_get b (tx_ID x) = None) (bk_put x) d (pg_Transaction_Create c ctx x t d)"
proof (cases "run_stmt c ctx (insert_transaction (tx_row_of x)) t d")
  case (Pair q d1)
  have "pg_ok d1 \<and> outcome pg_view pg_live c (\<lambda>b. bk_get b (tx_ID x) = None) (bk_put x) d (r, d1)"
    if "r = None \<longrightarrow> (\<exists>x. q = Inr x)" for r
    by (rule run_stmt_outcome [OF Pair same_data_refl assms _ _ that])
      (blast intro: tables_ok_insert_transaction book_insert_transaction fresh_insert_transaction)+
  from this [of "fst (pg_Transaction_Create c ctx x t d)"] show ?thesis by (cases q) (simp_all add: pg_Transaction_Create_def Pair)
qed

lemma pg_event_outcome:
  assumes "pg_ok d" and "pg_live c d"
  shows "pg_ok (snd (pg_Event_Create c ctx e t d))
    \<and> outcome pg_view pg_live c (\<lambda>_. True) (bk_log e) d (pg_Event_Create c ctx e t d)"
proof (cases "run_stmt c ctx (insert_event (event_row_of (pg_event_seq d) e)) t (d\<lparr>pg_event_seq := pg_event_seq d + 1\<rparr>)")
  case (Pair q d1)
  have "pg_ok d1 \<and> outcome pg_view pg_live c (\<lambda>_. True) (bk_log e) d (r, d1)"
    if "r = None \<longrightarrow> (\<exists>x. q = Inr x)" for r
    by (rule run_stmt_outcome [OF Pair same_data_seq(1) assms _ _ that])
      (blast intro: tables_ok_append(1) book_insert_event)+
  from this [of "fst (pg_Event_Create c ctx e t d)"] show ?thesis by (cases q) (simp_all add: pg_Event_Create_def Pair)
qed

lemma pg_outbox_outcome:
  assumes "pg_ok d" and "pg_live c d"
  shows "pg_ok (snd (pg_Outbox_Create c ctx x t d))
    \<and> outcome pg_view pg_live c (\<lambda>_. True) (bk_emit x) d (pg_Outbox_Create c ctx x t d)"
proof (cases "run_stmt c ctx (insert_outbox (pg_outbox_seq d) x) t (d\<lparr>pg_outbox_seq := pg_outbox_seq d + 1\<rparr>)")
  case (Pair q d1)
  have "pg_ok d1 \<and> outcome pg_view pg_live c (\<lambda>_. True) (bk_emit x) d (r, d1)"
    if "r = None \<longrightarrow> (\<exists>x. q = Inr x)" for r
    by (rule run_stmt_outcome [OF Pair same_data_seq(2) assms _ _ that])
      (blast intro: tables_ok_append(2) book_insert_outbox)+
  from this [of "fst (pg_Outbox_Create c ctx x t d)"] show ?thesis by (cases q) (simp_all add: pg_Outbox_Create_def Pair)
qed

text \<open>Transaction brackets.\<close>

lemma next_fault_data:
  assumes "next_fault d = (f, d1)"
  shows "pg_committed d1 = pg_committed d" "pg_tx d1 = pg_tx d"
  using assms same_data_next_fault [of d] by (simp_all add: same_data_def)

lemma pg_begin:
  assumes "pg_ok d" and "pg_BeginTx ctx t d = (r, d')"
  shows "pg_ok d' \<and> pg_view OnDB d' = pg_view OnDB d
    \<and> (r = None \<longrightarrow> pg_live OnTx d' \<and> pg_view OnTx d' = pg_view OnDB d)"
proof (cases "next_fault d")
  case (Pair f d1)
  with assms next_fault_data [OF Pair] show ?thesis
    by (cases "ctx_Err ctx t")
      (auto simp: pg_BeginTx_def pg_ok_def pg_view_def pg_live_def tables_on_def split: fault.splits)
qed

lemma pg_commit:
  assumes "pg_ok d" and "pg_live OnTx d" and "pg_Commit ctx t d = (r, d')"
  shows "pg_ok d' \<and> (pg_view OnDB d' = pg_view OnDB d \<or> pg_view OnDB d' = pg_view OnTx d)
    \<and> (r = None \<longrightarrow> pg_view OnDB d' = pg_view OnTx d)"
proof (cases "next_fault d")
  case (Pair f d1)
  with assms next_fault_data [OF Pair] show ?thesis
    by (auto simp: pg_Commit_def pg_ok_def pg_view_def pg_live_def tables_on_def
        split: option.splits fault.splits)
qed

lemma pg_rollback:
  assumes "pg_ok d" and "pg_Rollback t d = (r, d')"
  shows "pg_ok d' \<and> pg_view OnDB d' = pg_view OnDB d"
proof (cases "next_fault d")
  case (Pair f d1)
  with assms next_fault_data [OF Pair] show ?thesis
    by (auto simp: pg_Rollback_def pg_ok_def pg_view_def tables_on_def
        split: option.splits fault.splits)
qed

interpretation pg: transactional_repositories pg_MerchantRepo pg_TransactionRepo pg_EventRepo
  pg_OutboxRepo pg_view pg_live pg_ok True pg_sqlDB
proof (unfold_locales, goal_cases)
  case 1
  show ?case by (simp add: pg_live_def tables_on_def)
next
  case (2 d c)
  then obtain tb where "tables_on c d = Some tb" by (auto simp: pg_live_def)
  with 2 show ?case using pg_ok_tables [of d c tb] by (simp add: pg_view_tables tables_ok_def)
next
  case (3 d c ctx i t res d')
  then show ?case
    using pg_merchant_get [of d c ctx i t res d'] reads_same_data same_dataD(4)
    by (simp add: pg_MerchantRepo_def)
next
  case (6 d c ctx i t res d')
  then show ?case
    using pg_transaction_get [of d c ctx i t res d'] reads_same_data same_dataD(4)
    by (simp add: pg_TransactionRepo_def)
next
  case (7 d c ctx k t res d')
  then show ?case
    using pg_transaction_by_key [of d c ctx k t res d'] reads_same_data same_dataD(4)
    by (simp add: pg_TransactionRepo_def)
next
  case (4 d c ctx i delta t)
  then show ?case using pg_balance_outcome [of d c ctx i delta t] by (simp add: pg_MerchantRepo_def)
next
  case (5 d c x ctx t)
  then show ?case using pg_create_outcome [of d c ctx x t] by (simp add: pg_TransactionRepo_def)
next
  case (8 d c ctx i st t)
  then show ?case using pg_status_outcome [of d c ctx i st t] by (simp add: pg_TransactionRepo_def)
next
  case (9 d c ctx e t)
  then show ?case using pg_event_outcome [of d c ctx e t] by (simp add: pg_EventRepo_def)
next
  case (10 d c ctx x t)
  then show ?case using pg_outbox_outcome [of d c ctx x t] by (simp add: pg_OutboxRepo_def)
next
  case (11 d ctx t r d')
  then show ?case using pg_begin [of d ctx t r d'] by (simp add: pg_sqlDB_def)
next
  case (12 d ctx t r d')
  then show ?case using pg_commit [of d ctx t r d'] by (simp add: pg_sqlDB_def)
next
  case (13 d t r d')
  then show ?case using pg_rollback [of d t r d'] by (simp add: pg_sqlDB_def)
qed

section \<open>Properties\<close>

text \<open>A stored time is a whole number of microseconds at most half a microsecond off.\<close>

lemma pg_timestamp_near: "\<bar>pg_timestamp t - t\<bar> \<le> 500" "1000 dvd pg_timestamp t"
proof -
  have "1000 * ((t + 500) div 1000) = t + 500 - (t + 500) mod 1000" by (simp add: minus_mod_eq_mult_div)
  moreover have "0 \<le> (t + 500) mod 1000" "(t + 500) mod 1000 < 1000" by simp_all
  ultimately show "\<bar>pg_timestamp t - t\<bar> \<le> 500" by (auto simp: pg_timestamp_def Let_def algebra_simps)
qed (simp add: pg_timestamp_def Let_def)

lemma run_stmt_clean:
  assumes "ctx_Err ctx t = None" and "pg_faults d = []" and "tables_on c d = Some tb"
  shows "run_stmt c ctx stmt t d = (case stmt tb of Inl err \<Rightarrow> (Inl err, d) | Inr (r, tb') \<Rightarrow> (Inr r, put_tables c tb' d))"
  using assms by (simp add: run_stmt_def next_fault_def split: sum.split prod.split)

lemma run_stmt_Inr:
  assumes "run_stmt c ctx stmt t d = (Inr r, d')"
  shows "\<exists>tb tb'. tables_on c d = Some tb \<and> stmt tb = Inr (r, tb') \<and> tables_on c d' = Some tb'"
proof -
  obtain f d1 where f: "next_fault d = (f, d1)" by (cases "next_fault d")
  then have "pg_committed d1 = pg_committed d" "pg_tx d1 = pg_tx d"
    by (auto simp: next_fault_def split: list.splits)
  then show ?thesis using assms f
    by (cases c) (auto simp: run_stmt_def tables_on_def put_tables_def split: option.splits fault.splits sum.splits)
qed

text \<open>C39: what \<open>Create\<close> has stored is what \<open>GetByID\<close> and \<open>GetByIdempotencyKey\<close> read back, field by field, with
  two exceptions that the column types make: metadata is read in the normal form of \<open>JSONB\<close> (the empty
  object where it was absent), and times are rounded to microseconds, so each is off by at most 500
  nanoseconds and exact where it was a whole number of microseconds.\<close>

theorem pg_create_get_roundtrip:
  assumes "pg_Transaction_Create OnDB ctx x t d = (None, d1)" and "pg_faults d1 = []" and "ctx_Err ctx t' = None"
  shows "\<exists>y. fst (pg_Transaction_GetByID OnDB ctx (tx_ID x) t' d1) = Inr y
    \<and> (tx_IdempotencyKey x \<noteq> [] \<longrightarrow>
        fst (pg_GetByIdempotencyKey OnDB ctx (tx_IdempotencyKey x) t' d1) = Inr (Some y))
    \<and> y = x\<lparr>tx_Metadata := Some (normal_json (case tx_Metadata x of None \<Rightarrow> JObject [] | Some j \<Rightarrow> j)),
          tx_CreatedAt := tx_CreatedAt y, tx_UpdatedAt := tx_UpdatedAt y\<rparr>
    \<and> \<bar>tx_CreatedAt y - tx_CreatedAt x\<bar> \<le> 500 \<and> 1000 dvd tx_CreatedAt y
    \<and> \<bar>tx_UpdatedAt y - tx_UpdatedAt x\<bar> \<le> 500 \<and> 1000 dvd tx_UpdatedAt y"
proof -
  let ?y = "x\<lparr>tx_Metadata := Some (normal_json (case tx_Metadata x of None \<Rightarrow> JObject [] | Some j \<Rightarrow> j)),
    tx_CreatedAt := pg_timestamp (tx_CreatedAt x), tx_UpdatedAt := pg_timestamp (tx_UpdatedAt x)\<rparr>"
  have "run_stmt OnDB ctx (insert_transaction (tx_row_of x)) t d = (Inr (), d1)"
    using assms(1) by (auto simp: pg_Transaction_Create_def split: prod.splits sum.splits)
  from run_stmt_Inr [OF this] obtain tb tb' where tb: "insert_transaction (tx_row_of x) tb = Inr ((), tb')"
    "tables_on OnDB d1 = Some tb'" by blast
  have rows: "t_transactions tb' = t_transactions tb @ [tx_row_of x]" "\<forall>q \<in> set (t_transactions tb). r_id q \<noteq> tx_ID x"
    "tx_IdempotencyKey x \<noteq> [] \<longrightarrow> (\<forall>q \<in> set (t_transactions tb). r_idempotency_key q \<noteq> Some (tx_IdempotencyKey x))"
    using tb(1) by (auto simp: insert_transaction_def tx_row_of_def nullif_def split: if_splits)
  have find: "find P (xs @ [y]) = Some y" if "\<forall>q \<in> set xs. \<not> P q" "P y" for P :: "tx_row \<Rightarrow> bool" and xs y
    using that by (induction xs) auto
  have key: "r_idempotency_key (tx_row_of x) = nullif (tx_IdempotencyKey x)" by (simp add: tx_row_of_def)
  have scan: "scan_tx (tx_row_of x) = ?y" by (simp add: scan_tx_def tx_row_of_def)
  have "fst (pg_Transaction_GetByID OnDB ctx (tx_ID x) t' d1) = Inr ?y"
    "tx_IdempotencyKey x \<noteq> [] \<longrightarrow> fst (pg_GetByIdempotencyKey OnDB ctx (tx_IdempotencyKey x) t' d1) = Inr (Some ?y)"
    using rows
    by (auto simp: pg_Transaction_GetByID_def pg_GetByIdempotencyKey_def run_stmt_clean [OF assms(3,2) tb(2)]
        select_transaction_def find scan key nullif_def)
  then show ?thesis by (intro exI [of _ ?y]) (simp add: pg_timestamp_near)
qed

text \<open>A row whose payload is \<open>NULL\<close> makes the list of a transaction's events unreadable.\<close>

lemma pg_ListByTransaction_null:
  assumes "r \<in> set (t_events (pg_committed d))" and "e_transaction_id r = i" and "e_payload r = None"
  shows "\<exists>err. fst (pg_ListByTransaction OnDB ctx i t d) = Inl err"
    and "ctx_Err ctx t = None \<Longrightarrow> pg_faults d = [] \<Longrightarrow>
      fst (pg_ListByTransaction OnDB ctx i t d) = Inl (wrapf ''scan event: '' scan_null_payload)"
proof -
  let ?q = "\<lambda>tb. Inr (sort_key e_created_at (filter (\<lambda>r. e_transaction_id r = i) (t_events tb)), tb)
    :: go_error + (event_row list \<times> tables)"
  obtain q d1 where q: "run_stmt OnDB ctx ?q t d = (q, d1)" by (cases "run_stmt OnDB ctx ?q t d")
  have scan: "scan_events rows = Inl (wrapf ''scan event: '' scan_null_payload)" if "q = Inr rows" for rows
    using run_stmt_Inr [OF q [unfolded that]] assms by (auto simp: tables_on_def scan_events_def)
  then show "\<exists>err. fst (pg_ListByTransaction OnDB ctx i t d) = Inl err"
    using q by (fastforce simp: pg_ListByTransaction_def split: sum.split prod.split fault.split)
  assume "ctx_Err ctx t = None" "pg_faults d = []"
  then show "fst (pg_ListByTransaction OnDB ctx i t d) = Inl (wrapf ''scan event: '' scan_null_payload)"
    using q scan run_stmt_clean [of ctx t d OnDB "pg_committed d" ?q]
    by (auto simp: pg_ListByTransaction_def tables_on_def put_tables_def next_fault_def)
qed

lemma pg_GetByID_found:
  assumes "ctx_Err ctx t = None" and "pg_faults d = []" and "find (\<lambda>r. r_id r = i) (t_transactions (pg_committed d)) = Some q"
  shows "pg_Transaction_GetByID OnDB ctx i t d = (Inr (scan_tx q), d)"
proof -
  have "tables_on OnDB d = Some (pg_committed d)" by (simp add: tables_on_def)
  from run_stmt_clean [OF assms(1,2) this, of "select_transaction (\<lambda>r. r_id r = i)"] show ?thesis
    by (simp add: pg_Transaction_GetByID_def select_transaction_def put_tables_def assms(3))
qed

text \<open>A statement-level account of \<open>UpdateBalance\<close> on PostgreSQL without faults: it succeeds exactly when
  the new balance is not negative and fits 64 bits, and then adds exactly; below zero it is
  \<open>ErrInsufficientFunds\<close>, beyond 64 bits an error of the statement, and the tables are as before.\<close>

theorem pg_UpdateBalance_exact:
  assumes "ctx_Err ctx t = None" and "pg_faults d = []"
    and "find (\<lambda>m. m_ID m = i) (t_merchants (pg_committed d)) = Some m"
  shows "(let n = sint (m_BalanceCents m) + sint delta in
     if n < 0 \<and> in_int64 n then pg_UpdateBalance OnDB ctx i delta t d = (Some (Sentinel ErrInsufficientFunds), d)
     else if \<not> in_int64 n then \<exists>err. pg_UpdateBalance OnDB ctx i delta t d = (Some err, d) \<and> \<not> errors_Is err ErrInsufficientFunds
     else \<exists>d' m'. pg_UpdateBalance OnDB ctx i delta t d = (None, d')
        \<and> find (\<lambda>m. m_ID m = i) (t_merchants (pg_committed d')) = Some m' \<and> sint (m_BalanceCents m') = n
        \<and> t_transactions (pg_committed d') = t_transactions (pg_committed d))"
proof -
  have on: "tables_on OnDB d = Some (pg_committed d)" by (simp add: tables_on_def)
  have put: "put_tables OnDB (pg_committed d) d = d" by (simp add: put_tables_def)
  have "m_ID m = i" using find_SomeD [OF assms(3)] by simp
  then show ?thesis using assms(3)
    by (auto simp: Let_def pg_UpdateBalance_def pg_Merchant_GetByID_def select_merchant_def update_balance_def NOW_def
        run_stmt_clean [OF assms(1,2) on] put find_update_where_key sint_add_exact put_tables_def)
qed

text \<open>What a claim picks.\<close>

lemma claim_outbox_picks:
  assumes "claim_outbox n ts tb = Inr (rows, tb')"
  obtains picked where "set picked \<subseteq> {r \<in> set (t_outbox tb). claimable ts r}" "length picked \<le> nat (sint n)"
    "rows = map (\<lambda>r. r\<lparr>o_published_at := Some (ts + outboxClaimLease)\<rparr>) picked"
    "t_outbox tb' = update_where (\<lambda>r. o_id r \<in> set (map o_id picked))
        (\<lambda>r. r\<lparr>o_published_at := Some (ts + outboxClaimLease)\<rparr>) (t_outbox tb)"
proof
  let ?p = "take (nat (sint n)) (sort_key o_created_at (filter (claimable ts) (t_outbox tb)))"
  show "set ?p \<subseteq> {r \<in> set (t_outbox tb). claimable ts r}" using set_take_subset by fastforce
  show "length ?p \<le> nat (sint n)" by simp
  show "rows = map (\<lambda>r. r\<lparr>o_published_at := Some (ts + outboxClaimLease)\<rparr>) ?p"
    "t_outbox tb' = update_where (\<lambda>r. o_id r \<in> set (map o_id ?p))
        (\<lambda>r. r\<lparr>o_published_at := Some (ts + outboxClaimLease)\<rparr>) (t_outbox tb)"
    using assms by (auto simp: claim_outbox_def Let_def split: if_splits)
qed

lemma FetchUnpublished_claims:
  assumes "pg_FetchUnpublished OnDB ctx n t d = (Inr es, d1)"
  shows "\<exists>tb tb' rows. tables_on OnDB d = Some tb \<and> claim_outbox n t tb = Inr (rows, tb')
    \<and> tables_on OnDB d1 = Some tb' \<and> es = map scan_outbox rows"
proof -
  obtain q d0 where q: "run_stmt OnDB ctx (claim_outbox n t) t d = (q, d0)"
    by (cases "run_stmt OnDB ctx (claim_outbox n t) t d")
  obtain u d3 where u: "rows_Err d0 = (u, d3)" by (cases "rows_Err d0")
  obtain rows where r: "run_stmt OnDB ctx (claim_outbox n t) t d = (Inr rows, d0)" and "rows_Err d0 = (None, d1)"
    and es: "es = map scan_outbox rows"
    using assms q u by (cases q; cases u) (auto simp: pg_FetchUnpublished_def NOW_def)
  then have "pg_committed d1 = pg_committed d0"
    by (auto simp: rows_Err_def next_fault_def split: prod.splits list.splits fault.splits)
  then show ?thesis using run_stmt_Inr [OF r] es by (auto simp: tables_on_def)
qed

text \<open>C40: claimed outbox messages are leased: a second claim within the lease returns none of them, a claim
  returns at most as many messages as asked for, and only unpublished ones. This holds for every
  fault schedule.\<close>

theorem pg_outbox_lease:
  assumes "pg_FetchUnpublished OnDB ctx n t d = (Inr es, d1)" and "pg_FetchUnpublished OnDB ctx' n' t' d1 = (Inr es', d2)"
    and "t' < t + outboxClaimLease"
  shows "set (map ob_ID es) \<inter> set (map ob_ID es') = {} \<and> length es \<le> nat (sint n) \<and> (\<forall>e \<in> set es. \<not> ob_Published e)"
proof -
  obtain tb tb1 rows where c1: "claim_outbox n t tb = Inr (rows, tb1)" "tables_on OnDB d1 = Some tb1" "es = map scan_outbox rows"
    using FetchUnpublished_claims [OF assms(1)] by blast
  obtain tb2 rows' where c2: "claim_outbox n' t' tb1 = Inr (rows', tb2)" "es' = map scan_outbox rows'"
    using FetchUnpublished_claims [OF assms(2)] c1(2) by auto
  from claim_outbox_picks [OF c1(1)] obtain picked where
    p: "set picked \<subseteq> {r \<in> set (t_outbox tb). claimable t r}" "length picked \<le> nat (sint n)"
      "rows = map (\<lambda>r. r\<lparr>o_published_at := Some (t + outboxClaimLease)\<rparr>) picked"
      "t_outbox tb1 = update_where (\<lambda>r. o_id r \<in> set (map o_id picked))
        (\<lambda>r. r\<lparr>o_published_at := Some (t + outboxClaimLease)\<rparr>) (t_outbox tb)" .
  from claim_outbox_picks [OF c2(1)] obtain picked' where
    p': "set picked' \<subseteq> {r \<in> set (t_outbox tb1). claimable t' r}"
      "rows' = map (\<lambda>r. r\<lparr>o_published_at := Some (t' + outboxClaimLease)\<rparr>) picked'" .
  have free: "o_id r \<notin> set (map o_id picked)" if "r \<in> set (t_outbox tb1)" "claimable t' r" for r
    using that assms(3) by (auto simp: p(4) update_where_def claimable_def split: if_splits)
  have ids: "set (map ob_ID es) = set (map o_id picked)" "set (map ob_ID es') = set (map o_id picked')"
    by (simp_all add: c1(3) c2(2) p(3) p'(2) scan_outbox_def image_image)
  have "\<forall>e \<in> set es. \<not> ob_Published e" using p(1) by (auto simp: c1(3) p(3) scan_outbox_def claimable_def)
  moreover have "length es \<le> nat (sint n)" using p(2) by (simp add: c1(3) p(3))
  moreover have "\<forall>r \<in> set picked'. o_id r \<notin> set (map o_id picked)" using p'(1) free by blast
  then have "\<forall>k \<in> set (map o_id picked'). k \<notin> set (map o_id picked)" by simp
  then have "set (map ob_ID es) \<inter> set (map ob_ID es') = {}" unfolding ids by blast
  ultimately show ?thesis by blast
qed

text \<open>A database with one merchant and one completed transaction, for the instances below.\<close>

definition merchant_sample :: Merchant where
  "merchant_sample = \<lparr>m_ID = ''m_001'', m_Name = ''Maple Sports'', m_APIKey = ''sk_1'', m_BalanceCents = 10000,
     m_Currency = ''CAD'', m_Status = MerchantActive, m_CreatedAt = 0, m_UpdatedAt = 0\<rparr>"

definition completed_sample :: Transaction where
  "completed_sample = \<lparr>tx_ID = ''tx_1'', tx_MerchantID = ''m_001'', tx_AmountCents = 5000, tx_Currency = ''CAD'',
     tx_Status = TxStatusCompleted, tx_IdempotencyKey = ''k1'', tx_Description = ''lunch'',
     tx_Metadata = None, tx_CreatedAt = 0, tx_UpdatedAt = 0\<rparr>"

definition outbox_sample :: outbox_row where
  "outbox_sample = \<lparr>o_id = 1, o_event_type = ''transaction.created'', o_payload = JObject [], o_published = False,
     o_published_at = None, o_created_at = 0\<rparr>"

definition pg_sample :: "Transaction list \<Rightarrow> fault list \<Rightarrow> pgdb" where
  "pg_sample txs faults = \<lparr>pg_committed = \<lparr>t_merchants = [merchant_sample], t_transactions = map tx_row_of txs,
     t_events = [], t_outbox = [outbox_sample]\<rparr>, pg_tx = None, pg_event_seq = 1, pg_outbox_seq = 2, pg_faults = faults\<rparr>"

lemmas pg_sample_defs = pg_sample_def merchant_sample_def completed_sample_def outbox_sample_def tx_row_of_def nullif_def

lemma pg_sample_ok: "pg_ok (pg_sample [] faults)" "pg_ok (pg_sample [completed_sample] faults)"
  by (auto simp: pg_ok_def tables_ok_def book_ok_def tables_book_def core_def scan_tx_def pg_sample_defs split: if_splits)

definition stored_sample :: Transaction where
  "stored_sample = completed_sample\<lparr>tx_Metadata := Some (JObject [(''bb'', JNumber 1), (''a'', JNumber 2), (''bb'', JNumber 3)]),
     tx_CreatedAt := 1500, tx_UpdatedAt := 2499\<rparr>"

lemma pg_create_get_roundtrip_witness:
  "\<exists>y. fst (pg_Transaction_GetByID OnDB Background ''tx_1'' 5
      (snd (pg_Transaction_Create OnDB Background stored_sample 0 (pg_sample [] [])))) = Inr y
    \<and> tx_Metadata y = Some (JObject [(''a'', JNumber 2), (''bb'', JNumber 3)]) \<and> \<bar>tx_CreatedAt y - 1500\<bar> \<le> 500"
proof -
  let ?c = "pg_Transaction_Create OnDB Background stored_sample 0 (pg_sample [] [])"
  have c: "?c = (None, snd ?c)" and f: "pg_faults (snd ?c) = []" by code_simp+
  have "ctx_Err Background 5 = None" by simp
  from pg_create_get_roundtrip [OF c f this] obtain y where y: "fst (pg_Transaction_GetByID OnDB Background ''tx_1'' 5 (snd ?c)) = Inr y"
    "tx_Metadata y = Some (normal_json (JObject [(''bb'', JNumber 1), (''a'', JNumber 2), (''bb'', JNumber 3)]))"
    "\<bar>tx_CreatedAt y - 1500\<bar> \<le> 500"
    by (auto simp: stored_sample_def completed_sample_def dest: arg_cong [of _ _ tx_Metadata])
  have "normal_json (JObject [(''bb'', JNumber 1), (''a'', JNumber 2), (''bb'', JNumber 3)]) = JObject [(''a'', JNumber 2), (''bb'', JNumber 3)]"
    by code_simp
  then show ?thesis using y by auto
qed

lemma pg_UpdateBalance_exact_witness:
  "pg_UpdateBalance OnDB Background ''m_001'' (- 10001) 0 (pg_sample [] []) = (Some (Sentinel ErrInsufficientFunds), pg_sample [] [])"
proof -
  have "ctx_Err Background 0 = None" "pg_faults (pg_sample [] []) = []"
    "find (\<lambda>m. m_ID m = ''m_001'') (t_merchants (pg_committed (pg_sample [] []))) = Some merchant_sample"
    by (simp_all add: pg_sample_defs)
  from pg_UpdateBalance_exact [OF this, of "- 10001"] show ?thesis
    by (simp add: Let_def in_int64_def merchant_sample_def)
qed

lemma pg_outbox_lease_witness:
  "\<exists>es es' d1 d2. pg_FetchUnpublished OnDB Background 10 0 (pg_sample [] []) = (Inr es, d1) \<and> es \<noteq> []
     \<and> pg_FetchUnpublished OnDB Background 10 5 d1 = (Inr es', d2) \<and> set (map ob_ID es) \<inter> set (map ob_ID es') = {}"
proof -
  let ?f = "pg_FetchUnpublished OnDB Background 10 0 (pg_sample [] [])"
  let ?g = "pg_FetchUnpublished OnDB Background 10 5 (snd ?f)"
  have f: "?f = (Inr [scan_outbox outbox_sample], snd ?f)" and g: "?g = (Inr [], snd ?g)" by code_simp+
  have "(5::int) < 0 + outboxClaimLease" by (simp add: outboxClaimLease_def)
  from pg_outbox_lease [OF f g this] f g show ?thesis by blast
qed

end
