(* ===== verification/Payflow_Database.thy ===== *)
theory Payflow_Database
  imports Payflow_Payment Payflow_Postgres
begin

text \<open>
  The database connection and the migration runner (\<open>internal/repository/postgres/db.go\<close>). The runner
  works on a schema of any type: what PostgreSQL makes of the text of a migration is the parameter
  \<open>exec\<close>, the files are parameters too. The lemmas: the helper \<open>WithTransaction\<close> does what the one of the
  payment service does, and the schema is at all times the result of the recorded migrations, each
  executed once, whatever fails on the way.
\<close>

section \<open>Connection\<close>

definition pg_Ping :: "go_context \<Rightarrow> (pgdb, go_error option) dbop" where
  "pg_Ping ctx t d =
     (case run_stmt OnDB ctx (\<lambda>tb. Inr ((), tb)) t d of (Inl err, d1) \<Rightarrow> (Some err, d1) | (Inr _, d1) \<Rightarrow> (None, d1))"

text \<open>The settings of the connection pool; \<open>sql.Open\<close> may refuse the URL.\<close>

record DB =
  db_url :: string
  db_maxOpen :: int64
  db_maxIdle :: int64
  db_maxLife :: int

definition Connect ::
  "(string \<Rightarrow> go_error option) \<Rightarrow> go_context \<Rightarrow> string \<Rightarrow> int64 \<Rightarrow> int64 \<Rightarrow> int \<Rightarrow> pgdb world \<Rightarrow> (go_error + DB) \<times> pgdb world" where
  "Connect sql_Open ctx databaseURL maxOpen maxIdle maxLife w =
     (case sql_Open databaseURL of
        Some err \<Rightarrow> (Inl (wrapf ''open database: '' err), w)
      | None \<Rightarrow>
          (let pingCtx = WithTimeout ctx (5 * second) (now (wenv w)) in
           case rcall (pg_Ping pingCtx) w of
             (Some err, w1) \<Rightarrow> (Inl (wrapf ''ping database: '' err), w1)
           | (None, w1) \<Rightarrow> (Inr \<lparr>db_url = databaseURL, db_maxOpen = maxOpen, db_maxIdle = maxIdle, db_maxLife = maxLife\<rparr>, w1)))"

definition HealthCheck :: "go_context \<Rightarrow> pgdb world \<Rightarrow> go_error option \<times> pgdb world" where
  "HealthCheck ctx w = rcall (pg_Ping (WithTimeout ctx (2 * second) (now (wenv w)))) w"

section \<open>\<open>WithTransaction\<close>\<close>

definition WithTransaction :: "go_context \<Rightarrow> 'db sqlDB \<Rightarrow> 'db task \<Rightarrow> 'db task" where
  "WithTransaction ctx db fn w =
     (case rcall (BeginTx db ctx) w of
        (Some err, w1) \<Rightarrow> (Some (wrapf ''begin transaction: '' err), w1)
      | (None, w1) \<Rightarrow>
          (case fn w1 of
             (Some err, w2) \<Rightarrow>
               if is_panic err then (Some err, w2)
               else (case rcall (Rollback db) w2 of
                   (Some rbErr, w3) \<Rightarrow> (Some (wrapf (''rollback failed ('' @ Error rbErr @ '') after error: '') err), w3)
                 | (None, w3) \<Rightarrow> (Some err, w3))
           | (None, w2) \<Rightarrow>
               (case rcall (Commit db ctx) w2 of
                  (Some err, w3) \<Rightarrow> (Some (wrapf ''commit transaction: '' err), w3)
                | (None, w3) \<Rightarrow> (None, w3))))"

section \<open>Migrations\<close>

text \<open>
  The schema and the names in \<open>schema_migrations\<close> (\<open>None\<close> if there is no such table), committed and in
  the open transaction.
\<close>

type_synonym 's schema = "'s \<times> string list option"

record 's migdb =
  md_committed :: "'s schema"
  md_tx :: "'s schema option"
  md_faults :: "fault list"

definition md_next :: "'s migdb \<Rightarrow> fault \<times> 's migdb" where
  "md_next d = (case md_faults d of [] \<Rightarrow> (NoFault, d) | f # fs \<Rightarrow> (f, d\<lparr>md_faults := fs\<rparr>))"

definition md_put :: "DBTX \<Rightarrow> 's schema \<Rightarrow> 's migdb \<Rightarrow> 's migdb" where
  "md_put c sc d = (case c of OnDB \<Rightarrow> d\<lparr>md_committed := sc\<rparr> | OnTx \<Rightarrow> d\<lparr>md_tx := Some sc\<rparr>)"

definition md_stmt :: "DBTX \<Rightarrow> go_context \<Rightarrow> ('s schema \<Rightarrow> go_error + ('r \<times> 's schema)) \<Rightarrow> ('s migdb, go_error + 'r) dbop" where
  "md_stmt c ctx stmt t d =
     (case ctx_Err ctx t of
        Some err \<Rightarrow> (Inl err, d)
      | None \<Rightarrow>
          (case md_next d of
             (FailBefore m, d1) \<Rightarrow> (Inl (New m), d1)
           | (f, d1) \<Rightarrow>
               (case (case c of OnDB \<Rightarrow> Some (md_committed d1) | OnTx \<Rightarrow> md_tx d1) of
                  None \<Rightarrow> (Inl (Sentinel ErrTxDone), d1)
                | Some sc \<Rightarrow>
                    (case stmt sc of
                       Inl err \<Rightarrow> (Inl err, d1)
                     | Inr (r, sc') \<Rightarrow>
                         ((case f of FailAfter m \<Rightarrow> Inl (New m) | _ \<Rightarrow> Inr r), md_put c sc' d1)))))"

definition md_Begin :: "go_context \<Rightarrow> ('s migdb, go_error option) dbop" where
  "md_Begin ctx t d =
     (case ctx_Err ctx t of
        Some err \<Rightarrow> (Some err, d)
      | None \<Rightarrow>
          (case md_next d of
             (NoFault, d1) \<Rightarrow> (None, d1\<lparr>md_tx := Some (md_committed d1)\<rparr>)
           | (FailBefore m, d1) \<Rightarrow> (Some (New m), d1)
           | (FailAfter m, d1) \<Rightarrow> (Some (New m), d1)))"

definition md_Commit :: "go_context \<Rightarrow> ('s migdb, go_error option) dbop" where
  "md_Commit ctx t d =
     (case md_tx d of
        None \<Rightarrow> (Some (Sentinel ErrTxDone), d)
      | Some sc \<Rightarrow>
          (case ctx_Err ctx t of
             Some err \<Rightarrow> (Some err, d\<lparr>md_tx := None\<rparr>)
           | None \<Rightarrow>
               (case md_next d of
                  (NoFault, d1) \<Rightarrow> (None, d1\<lparr>md_committed := sc, md_tx := None\<rparr>)
                | (FailBefore m, d1) \<Rightarrow> (Some (New m), d1\<lparr>md_tx := None\<rparr>)
                | (FailAfter m, d1) \<Rightarrow> (Some (New m), d1\<lparr>md_committed := sc, md_tx := None\<rparr>))))"

definition md_Rollback :: "('s migdb, go_error option) dbop" where
  "md_Rollback t d =
     (case md_tx d of
        None \<Rightarrow> (Some (Sentinel ErrTxDone), d)
      | Some _ \<Rightarrow>
          (case md_next d of
             (NoFault, d1) \<Rightarrow> (None, d1\<lparr>md_tx := None\<rparr>)
           | (FailBefore m, d1) \<Rightarrow> (Some (New m), d1\<lparr>md_tx := None\<rparr>)
           | (FailAfter m, d1) \<Rightarrow> (Some (New m), d1\<lparr>md_tx := None\<rparr>)))"

text \<open>The statements of the runner.\<close>

definition create_migrations_table :: "'s schema \<Rightarrow> go_error + (unit \<times> 's schema)" where
  "create_migrations_table sc = Inr ((), (fst sc, case snd sc of None \<Rightarrow> Some [] | Some l \<Rightarrow> Some l))"

definition migration_exists :: "string \<Rightarrow> 's schema \<Rightarrow> go_error + (bool \<times> 's schema)" where
  "migration_exists filename sc =
     (case snd sc of None \<Rightarrow> Inl (New ''relation does not exist'') | Some l \<Rightarrow> Inr (filename \<in> set l, sc))"

definition exec_migration :: "(string \<Rightarrow> 's \<Rightarrow> go_error + 's) \<Rightarrow> string \<Rightarrow> 's schema \<Rightarrow> go_error + (unit \<times> 's schema)" where
  "exec_migration exec content sc = (case exec content (fst sc) of Inl err \<Rightarrow> Inl err | Inr s \<Rightarrow> Inr ((), (s, snd sc)))"

definition insert_migration :: "string \<Rightarrow> 's schema \<Rightarrow> go_error + (unit \<times> 's schema)" where
  "insert_migration filename sc =
     (case snd sc of
        None \<Rightarrow> Inl (New ''relation does not exist'')
      | Some l \<Rightarrow>
          if 255 < length filename then Inl (New ''value too long'')
          else if filename \<in> set l then Inl (New ''duplicate key'')
          else Inr ((), (fst sc, Some (l @ [filename]))))"

text \<open>\<open>filepath.Base\<close>.\<close>

definition Base :: "string \<Rightarrow> string" where
  "Base path =
     (if path = [] then ''.''
      else (let p = rev (dropWhile (\<lambda>c. c = CHR ''/'') (rev path));
                b = rev (takeWhile (\<lambda>c. c \<noteq> CHR ''/'') (rev p))
            in if b = [] then ''/'' else b))"

text \<open>What the file system answers: the names that match the pattern, and the content of each file.\<close>

record files =
  fs_glob :: "go_error + string list"
  fs_read :: "string \<Rightarrow> go_error + string"

text \<open>The body of the loop; the result of \<open>Rollback\<close> is ignored.\<close>

definition apply_migration ::
  "(string \<Rightarrow> 's \<Rightarrow> go_error + 's) \<Rightarrow> go_context \<Rightarrow> string \<Rightarrow> string \<Rightarrow> 's migdb task" where
  "apply_migration exec ctx filename content w =
     (case rcall (md_Begin ctx) w of
        (Some err, w1) \<Rightarrow> (Some (wrapf (''begin tx for '' @ filename @ '': '') err), w1)
      | (None, w1) \<Rightarrow>
          (case rcall (md_stmt OnTx ctx (exec_migration exec content)) w1 of
             (Inl err, w2) \<Rightarrow> (Some (wrapf (''execute '' @ filename @ '': '') err), snd (rcall md_Rollback w2))
           | (Inr _, w2) \<Rightarrow>
               (case rcall (md_stmt OnTx ctx (insert_migration filename)) w2 of
                  (Inl err, w3) \<Rightarrow> (Some (wrapf (''record '' @ filename @ '': '') err), snd (rcall md_Rollback w3))
                | (Inr _, w3) \<Rightarrow>
                    (case rcall (md_Commit ctx) w3 of
                       (Some err, w4) \<Rightarrow> (Some (wrapf (''commit '' @ filename @ '': '') err), w4)
                     | (None, w4) \<Rightarrow> (None, w4)))))"

definition migrate_file ::
  "(string \<Rightarrow> 's \<Rightarrow> go_error + 's) \<Rightarrow> files \<Rightarrow> go_context \<Rightarrow> string \<Rightarrow> 's migdb task" where
  "migrate_file exec fs ctx file w =
     (let filename = Base file in
      case rcall (md_stmt OnDB ctx (migration_exists filename)) w of
        (Inl err, w1) \<Rightarrow> (Some (wrapf (''check migration '' @ filename @ '': '') err), w1)
      | (Inr True, w1) \<Rightarrow> (None, w1)
      | (Inr False, w1) \<Rightarrow>
          (case fs_read fs file of
             Inl err \<Rightarrow> (Some (wrapf (''read '' @ filename @ '': '') err), w1)
           | Inr content \<Rightarrow> apply_migration exec ctx filename content w1))"

fun migrate_files ::
  "(string \<Rightarrow> 's \<Rightarrow> go_error + 's) \<Rightarrow> files \<Rightarrow> go_context \<Rightarrow> string list \<Rightarrow> 's migdb task" where
  "migrate_files exec fs ctx [] w = (None, w)"
| "migrate_files exec fs ctx (file # rest) w =
     (case migrate_file exec fs ctx file w of
        (Some err, w1) \<Rightarrow> (Some err, w1)
      | (None, w1) \<Rightarrow> migrate_files exec fs ctx rest w1)"

definition RunMigrations :: "(string \<Rightarrow> 's \<Rightarrow> go_error + 's) \<Rightarrow> files \<Rightarrow> go_context \<Rightarrow> 's migdb task" where
  "RunMigrations exec fs ctx w =
     (case rcall (md_stmt OnDB ctx create_migrations_table) w of
        (Inl err, w1) \<Rightarrow> (Some (wrapf ''create migrations table: '' err), w1)
      | (Inr _, w1) \<Rightarrow>
          (case fs_glob fs of
             Inl err \<Rightarrow> (Some (wrapf ''read migration files: '' err), w1)
           | Inr names \<Rightarrow> migrate_files exec fs ctx (sort names) w1))"

section \<open>Facts\<close>

lemma pg_Ping_same_data: "pg_Ping ctx t d = (r, d') \<Longrightarrow> same_data d d'"
proof -
  assume run: "pg_Ping ctx t d = (r, d')"
  obtain x where "run_stmt OnDB ctx (\<lambda>tb. Inr ((), tb)) t d = (x, d')"
    using run by (auto simp: pg_Ping_def split: prod.splits sum.splits)
  from run_query [OF this] show ?thesis by (auto simp: pg_live_def tables_on_def)
qed

text \<open>The same outcome under both helpers, up to the text around the error.\<close>

definition same_error :: "go_error option \<Rightarrow> go_error option \<Rightarrow> bool" where
  "same_error e e' \<longleftrightarrow> (e = None \<longleftrightarrow> e' = None) \<and> (\<forall>s. err_is e s \<longleftrightarrow> err_is e' s)"

text \<open>C37: the transaction helper of the repository package and the one of the payment service are
  equivalent: on any database and body they leave the same state and fail for the same reason (the
  same sentinel errors in the chain), whatever fails on the way; only the text around the error differs.\<close>

theorem WithTransaction_equivalent:
  "snd (WithTransaction ctx db fn w) = snd (withTransaction ctx db fn w)
   \<and> same_error (fst (WithTransaction ctx db fn w)) (fst (withTransaction ctx db fn w))"
  by (auto simp: WithTransaction_def withTransaction_def same_error_def split: prod.splits option.splits)

section \<open>Each migration once\<close>

text \<open>The recorded migrations, executed one after the other on the schema \<open>s0\<close>; \<open>text\<close> is what the files say.\<close>

fun run_all :: "(string \<Rightarrow> 's \<Rightarrow> go_error + 's) \<Rightarrow> (string \<Rightarrow> string) \<Rightarrow> string list \<Rightarrow> 's \<Rightarrow> 's option" where
  "run_all exec content [] s = Some s"
| "run_all exec content (f # fs) s = (case exec (content f) s of Inl _ \<Rightarrow> None | Inr s' \<Rightarrow> run_all exec content fs s')"

definition migrated :: "(string \<Rightarrow> 's \<Rightarrow> go_error + 's) \<Rightarrow> (string \<Rightarrow> string) \<Rightarrow> 's \<Rightarrow> 's schema \<Rightarrow> bool" where
  "migrated exec content s0 sc \<longleftrightarrow>
     (case snd sc of None \<Rightarrow> fst sc = s0 | Some l \<Rightarrow> distinct l \<and> run_all exec content l s0 = Some (fst sc))"

lemma run_all_snoc:
  "run_all exec content l s = Some s1 \<Longrightarrow> exec (content f) s1 = Inr s2 \<Longrightarrow> run_all exec content (l @ [f]) s = Some s2"
  by (induction l arbitrary: s) (auto split: sum.splits)

lemma md_stmt_OnTx:
  assumes "md_stmt OnTx ctx stmt t d = (r, d')"
  shows "md_committed d' = md_committed d \<and> (\<forall>x. r = Inr x \<longrightarrow> (\<exists>sc sc'. md_tx d = Some sc \<and> stmt sc = Inr (x, sc') \<and> md_tx d' = Some sc'))"
  using assms
  by (auto simp: md_stmt_def md_next_def md_put_def split: option.splits list.splits fault.splits sum.splits prod.splits)

lemma md_stmt_OnDB:
  assumes "md_stmt OnDB ctx stmt t d = (r, d')"
  shows "(md_committed d' = md_committed d \<or> (\<exists>x. stmt (md_committed d) = Inr (x, md_committed d')))
    \<and> (\<forall>x. r = Inr x \<longrightarrow> stmt (md_committed d) = Inr (x, md_committed d'))"
  using assms
  by (auto simp: md_stmt_def md_next_def md_put_def split: option.splits list.splits fault.splits sum.splits prod.splits)

lemma md_tx_ends:
  "md_Begin ctx t d = (e, d') \<Longrightarrow> md_committed d' = md_committed d \<and> (e = None \<longrightarrow> md_tx d' = Some (md_committed d))"
  "md_Commit ctx t d = (e, d') \<Longrightarrow> (e \<noteq> None \<and> md_committed d' = md_committed d) \<or> md_tx d = Some (md_committed d')"
  "md_Rollback t d = (e, d') \<Longrightarrow> md_committed d' = md_committed d"
  by (auto simp: md_Begin_def md_Commit_def md_Rollback_def md_next_def split: option.splits list.splits fault.splits dest: sym)

abbreviation mig_state :: "'s migdb world \<Rightarrow> 's schema" where
  "mig_state w \<equiv> md_committed (wdb w)"

lemma rcall_run: "rcall op w = (r, w') \<Longrightarrow> op (now (wenv w)) (wdb w) = (r, wdb w')"
  by (auto simp: rcall_def split: prod.splits)

lemma apply_migration_outcome:
  assumes run: "apply_migration exec ctx f content w = (e, w')"
  shows "e \<noteq> None \<and> mig_state w' = mig_state w
    \<or> (\<exists>s l. exec content (fst (mig_state w)) = Inr s \<and> snd (mig_state w) = Some l \<and> f \<notin> set l \<and> mig_state w' = (s, Some (l @ [f])))"
proof -
  obtain e1 w1 where b: "rcall (md_Begin ctx) w = (e1, w1)" by fastforce
  obtain r2 w2 where x: "rcall (md_stmt OnTx ctx (exec_migration exec content)) w1 = (r2, w2)" by fastforce
  obtain r3 w3 where i: "rcall (md_stmt OnTx ctx (insert_migration f)) w2 = (r3, w3)" by fastforce
  obtain e4 w4 where c: "rcall (md_Commit ctx) w3 = (e4, w4)" by fastforce
  have rb: "mig_state (snd (rcall md_Rollback v)) = mig_state v" for v :: "'a migdb world"
    by (rule md_tx_ends(3) [OF rcall_run [OF prod.collapse [symmetric]]])
  note B = md_tx_ends(1) [OF rcall_run [OF b]] and X = md_stmt_OnTx [OF rcall_run [OF x]]
    and I = md_stmt_OnTx [OF rcall_run [OF i]] and C = md_tx_ends(2) [OF rcall_run [OF c]]
  have fail: "e \<noteq> None \<and> mig_state w' = mig_state w" if "\<not> (e1 = None \<and> isl r2 = False \<and> isl r3 = False)"
  proof -
    consider err where "e1 = Some err" | err where "e1 = None" "r2 = Inl err" | u err where "e1 = None" "r2 = Inr u" "r3 = Inl err"
      using \<open>\<not> (e1 = None \<and> isl r2 = False \<and> isl r3 = False)\<close> by (cases e1; cases r2; cases r3) auto
    then show ?thesis
    proof cases
      case 1
      then show ?thesis using run b B by (auto simp: apply_migration_def)
    next
      case 2
      then show ?thesis using run b x B X rb by (auto simp: apply_migration_def)
    next
      case 3
      then show ?thesis using run b x i B X I rb by (auto simp: apply_migration_def)
    qed
  qed
  show ?thesis
  proof (cases "e1 = None \<and> isl r2 = False \<and> isl r3 = False")
    case False
    then show ?thesis using fail by blast
  next
    case True
    then have e: "e1 = None" "r2 = Inr ()" "r3 = Inr ()" by (cases r2; cases r3; simp)+
    have tx1: "md_tx (wdb w1) = Some (mig_state w)" using B e(1) by blast
    from X e(2) obtain sc1 sc where "md_tx (wdb w1) = Some sc1" "exec_migration exec content sc1 = Inr ((), sc)" "md_tx (wdb w2) = Some sc" by blast
    with tx1 have ex: "exec_migration exec content (mig_state w) = Inr ((), sc)" and tx2: "md_tx (wdb w2) = Some sc" by simp_all
    from I e(3) obtain sc2 sc' where "md_tx (wdb w2) = Some sc2" "insert_migration f sc2 = Inr ((), sc')" "md_tx (wdb w3) = Some sc'" by blast
    with tx2 have ins: "insert_migration f sc = Inr ((), sc')" and tx: "md_tx (wdb w3) = Some sc'" by simp_all
    have same: "mig_state w3 = mig_state w" using B X I by simp
    have res: "w' = w4 \<and> (e = None \<longleftrightarrow> e4 = None)" using run b x i c e by (auto simp: apply_migration_def split: option.splits)
    from ex ins have "\<exists>s l. exec content (fst (mig_state w)) = Inr s \<and> snd (mig_state w) = Some l \<and> f \<notin> set l \<and> sc' = (s, Some (l @ [f]))"
      by (auto simp: exec_migration_def insert_migration_def split: sum.splits option.splits if_splits)
    then show ?thesis using C tx res same by auto
  qed
qed

definition consistent :: "(string \<Rightarrow> string) \<Rightarrow> files \<Rightarrow> bool" where
  "consistent content fs \<longleftrightarrow> (\<forall>f c. fs_read fs f = Inr c \<longrightarrow> c = content (Base f))"

text \<open>Recorded names are never forgotten.\<close>

definition extends :: "'s schema \<Rightarrow> 's schema \<Rightarrow> bool" where
  "extends sc sc' \<longleftrightarrow> (\<forall>l. snd sc = Some l \<longrightarrow> (\<exists>l'. snd sc' = Some (l @ l')))"

definition has :: "'s schema \<Rightarrow> string \<Rightarrow> bool" where
  "has sc f \<longleftrightarrow> (\<exists>l. snd sc = Some l \<and> f \<in> set l)"

lemma extends_refl [simp]: "extends sc sc"
  by (simp add: extends_def)

lemma extends_trans: "extends a b \<Longrightarrow> extends b c \<Longrightarrow> extends a c"
  by (fastforce simp: extends_def)

lemma extends_has: "extends a b \<Longrightarrow> has a f \<Longrightarrow> has b f"
  by (fastforce simp: extends_def has_def)

lemma migrate_file_outcome:
  assumes run: "migrate_file exec fs ctx f w = (e, w')" and m: "migrated exec content s0 (mig_state w)" and fs: "consistent content fs"
  shows "migrated exec content s0 (mig_state w') \<and> extends (mig_state w) (mig_state w') \<and> (e = None \<longrightarrow> has (mig_state w') (Base f))"
proof -
  obtain r w1 where q: "rcall (md_stmt OnDB ctx (migration_exists (Base f))) w = (r, w1)" by fastforce
  note Q = md_stmt_OnDB [OF rcall_run [OF q]]
  have same: "mig_state w1 = mig_state w" using Q by (auto simp: migration_exists_def split: option.splits)
  consider err where "r = Inl err" | "r = Inr True" | err where "r = Inr False" "fs_read fs f = Inl err"
    | c where "r = Inr False" "fs_read fs f = Inr c" by (cases r; cases "fs_read fs f") auto
  then show ?thesis
  proof cases
    case 1
    then show ?thesis using run q m same by (auto simp: migrate_file_def Let_def)
  next
    case 2
    then have "has (mig_state w) (Base f)" using Q by (auto simp: migration_exists_def has_def split: option.splits)
    then show ?thesis using 2 run q m same by (auto simp: migrate_file_def Let_def)
  next
    case 3
    then show ?thesis using run q m same by (auto simp: migrate_file_def Let_def)
  next
    case 4
    then have a: "apply_migration exec ctx (Base f) c w1 = (e, w')" using run q by (simp add: migrate_file_def Let_def)
    have c: "c = content (Base f)" using fs 4 by (simp add: consistent_def)
    from apply_migration_outcome [OF a] show ?thesis
    proof
      assume "e \<noteq> None \<and> mig_state w' = mig_state w1"
      then show ?thesis using m same by auto
    next
      assume "\<exists>s l. exec c (fst (mig_state w1)) = Inr s \<and> snd (mig_state w1) = Some l \<and> Base f \<notin> set l \<and> mig_state w' = (s, Some (l @ [Base f]))"
      then show ?thesis using m run_all_snoc by (auto simp: same c migrated_def extends_def has_def)
    qed
  qed
qed

lemma migrate_files_outcome:
  assumes "migrate_files exec fs ctx names w = (e, w')" and "migrated exec content s0 (mig_state w)" and "consistent content fs"
  shows "migrated exec content s0 (mig_state w') \<and> extends (mig_state w) (mig_state w')
    \<and> (e = None \<longrightarrow> (\<forall>f \<in> set names. has (mig_state w') (Base f)))"
  using assms(1,2)
proof (induction names arbitrary: w)
  case (Cons f names)
  obtain e1 w1 where f: "migrate_file exec fs ctx f w = (e1, w1)" by fastforce
  note F = migrate_file_outcome [OF f Cons.prems(2) assms(3)]
  show ?case
  proof (cases e1)
    case None
    then have "migrate_files exec fs ctx names w1 = (e, w')" using Cons.prems(1) f by simp
    from Cons.IH [OF this] F None show ?thesis using extends_trans extends_has by fastforce
  next
    case (Some err)
    then show ?thesis using Cons.prems(1) f F by auto
  qed
qed simp

lemma RunMigrations_outcome:
  assumes run: "RunMigrations exec fs ctx w = (e, w')" and m: "migrated exec content s0 (mig_state w)" and fs: "consistent content fs"
  shows "migrated exec content s0 (mig_state w')
    \<and> (e = None \<longrightarrow> (\<exists>names l. fs_glob fs = Inr names \<and> snd (mig_state w') = Some l \<and> Base ` set names \<subseteq> set l))"
proof -
  obtain r w1 where q: "rcall (md_stmt OnDB ctx create_migrations_table) w = (r, w1)" by fastforce
  note Q = md_stmt_OnDB [OF rcall_run [OF q]]
  have "migrated exec content s0 (fst (mig_state w), case snd (mig_state w) of None \<Rightarrow> Some [] | Some l \<Rightarrow> Some l)"
    using m by (auto simp: migrated_def split: option.splits)
  then have m1: "migrated exec content s0 (mig_state w1)" using Q m by (auto simp: create_migrations_table_def)
  show ?thesis
  proof (cases "\<exists>u names. r = Inr u \<and> fs_glob fs = Inr names")
    case False
    then show ?thesis using run q m1 by (auto simp: RunMigrations_def split: sum.splits)
  next
    case True
    then obtain u names where n: "r = Inr u" "fs_glob fs = Inr names" and "migrate_files exec fs ctx (sort names) w1 = (e, w')"
      using run q by (auto simp: RunMigrations_def)
    note F = migrate_files_outcome [OF this(3) m1 fs]
    have "create_migrations_table (mig_state w) = Inr (u, mig_state w1)" using Q n(1) by blast
    then have "mig_state w1 = (fst (mig_state w), case snd (mig_state w) of None \<Rightarrow> Some [] | Some l \<Rightarrow> Some l)"
      by (simp add: create_migrations_table_def)
    then obtain l where "snd (mig_state w1) = Some l" by (cases "snd (mig_state w)") auto
    then show ?thesis using F n(2) by (fastforce simp: extends_def has_def)
  qed
qed

text \<open>C36: migrations run exactly once: after any number of runs of the migration runner on a fresh database,
  each with its own failures (of statements, of commits whose answer is lost, of the file system, of
  the context), the schema is the result of executing the recorded migrations in the order in which they are
  recorded, each once; and after a run without an error every migration file is recorded.\<close>

theorem migrations_exactly_once:
  assumes "md_committed (wdb w) = (s0, None)" and "\<forall>run \<in> set runs. consistent content (fst run)"
    and "w' = fold (\<lambda>(fs, ctx) w. snd (RunMigrations exec fs ctx w)) runs w"
  shows "migrated exec content s0 (md_committed (wdb w'))
    \<and> (\<forall>fs ctx w''. consistent content fs \<longrightarrow> RunMigrations exec fs ctx w' = (None, w'') \<longrightarrow>
      (\<exists>names l. fs_glob fs = Inr names \<and> snd (md_committed (wdb w'')) = Some l \<and> Base ` set names \<subseteq> set l
        \<and> distinct l \<and> run_all exec content l s0 = Some (fst (md_committed (wdb w'')))))"
proof -
  have "migrated exec content s0 (mig_state (fold (\<lambda>(fs, ctx) w. snd (RunMigrations exec fs ctx w)) runs w))"
    if "migrated exec content s0 (mig_state w)" for w
    using assms(2) that
  proof (induction runs arbitrary: w)
    case (Cons run runs)
    obtain fs ctx where r: "run = (fs, ctx)" by (cases run)
    have "migrated exec content s0 (mig_state (snd (RunMigrations exec fs ctx w)))"
      using RunMigrations_outcome [OF prod.collapse [symmetric] Cons.prems(2)] Cons.prems(1) r by simp
    then show ?case using Cons r by simp
  qed simp
  from this [of w] have m: "migrated exec content s0 (mig_state w')" using assms(1,3) by (simp add: migrated_def)
  have "\<exists>names l. fs_glob fs = Inr names \<and> snd (mig_state w'') = Some l \<and> Base ` set names \<subseteq> set l
        \<and> distinct l \<and> run_all exec content l s0 = Some (fst (mig_state w''))"
    if "consistent content fs" "RunMigrations exec fs ctx w' = (None, w'')" for fs ctx w''
    using RunMigrations_outcome [OF that(2) m that(1)] by (auto simp: migrated_def)
  then show ?thesis using m by blast
qed

text \<open>
  Two files and a schema that is the list of what was executed on it: the first run loses the answer
  to the commit of the first file, the second run finishes.
\<close>

definition files_sample :: files where
  "files_sample = \<lparr>fs_glob = Inr [''m/2.sql'', ''m/1.sql''], fs_read = (\<lambda>f. Inr (CHR ''-'' # Base f))\<rparr>"

definition exec_sample :: "string \<Rightarrow> string list \<Rightarrow> go_error + string list" where
  "exec_sample content s = Inr (s @ [content])"

definition mig_world_sample :: "string list migdb world" where
  "mig_world_sample = \<lparr>wdb = \<lparr>md_committed = ([], None), md_tx = None,
       md_faults = [NoFault, NoFault, NoFault, NoFault, NoFault, FailAfter ''connection lost'']\<rparr>,
     wbreaker = NewCircuitBreaker 3 second, wenv = bank_env_sample\<rparr>"

lemma migrations_exactly_once_witness:
  "let w' = snd (RunMigrations exec_sample files_sample Background mig_world_sample) in
     fst (RunMigrations exec_sample files_sample Background mig_world_sample) \<noteq> None
   \<and> run_all exec_sample (\<lambda>n. CHR ''-'' # n) [''1.sql''] [] = Some (fst (md_committed (wdb w')))
   \<and> fst (md_committed (wdb (snd (RunMigrations exec_sample files_sample Background w')))) = [''-1.sql'', ''-2.sql'']"
proof -
  let ?w = "snd (RunMigrations exec_sample files_sample Background mig_world_sample)"
  have 1: "fst (RunMigrations exec_sample files_sample Background mig_world_sample) \<noteq> None"
    "snd (md_committed (wdb ?w)) = Some [''1.sql'']"
    "fst (RunMigrations exec_sample files_sample Background ?w) = None"
    "snd (md_committed (wdb (snd (RunMigrations exec_sample files_sample Background ?w)))) = Some [''1.sql'', ''2.sql'']"
    by code_simp+
  have c: "consistent (\<lambda>n. CHR ''-'' # n) files_sample" by (simp add: consistent_def files_sample_def)
  have f: "md_committed (wdb mig_world_sample) = ([], None)" by (simp add: mig_world_sample_def)
  have w: "?w = fold (\<lambda>(fs, ctx) w. snd (RunMigrations exec_sample fs ctx w)) [(files_sample, Background)] mig_world_sample" by simp
  note M = migrations_exactly_once [OF f _ w, where content = "\<lambda>n. CHR ''-'' # n"]
  have m: "migrated exec_sample (\<lambda>n. CHR ''-'' # n) [] (md_committed (wdb ?w))" using M c by simp
  have n: "\<exists>l. snd (md_committed (wdb w'')) = Some l \<and> run_all exec_sample (\<lambda>n. CHR ''-'' # n) l [] = Some (fst (md_committed (wdb w'')))"
    if "RunMigrations exec_sample files_sample Background ?w = (None, w'')" for w''
    using conjunct2 [OF M, THEN spec, THEN spec, THEN spec, THEN mp, OF _ c, THEN mp, OF _ that] c by auto
  have "RunMigrations exec_sample files_sample Background ?w = (None, snd (RunMigrations exec_sample files_sample Background ?w))"
    using 1(3) by (metis prod.collapse)
  from n [OF this] 1(4) have "fst (md_committed (wdb (snd (RunMigrations exec_sample files_sample Background ?w)))) = [''-1.sql'', ''-2.sql'']"
    by (simp add: exec_sample_def)
  then show ?thesis using 1(1,2) m by (simp add: Let_def migrated_def)
qed

end
