(* ===== verification/Payflow_Ledger.thy ===== *)
theory Payflow_Ledger
  imports Payflow_Payment
begin

text \<open>
  The abstract specification of the payment service: what a book may go through. Each rule of
  \<open>ledger_step\<close> is one visible change; crediting a merchant happens in the same step as completing
  the transaction, debiting in the same step as refunding it. The lemmas show what every path of
  such steps keeps: a merchant's balance less the amounts of its completed transactions, the
  identity of transactions, well-formedness.
\<close>

section \<open>Effects\<close>

definition emit_opt :: "OutboxEvent option \<Rightarrow> book \<Rightarrow> book" where
  "emit_opt ob b = (case ob of None \<Rightarrow> b | Some x \<Rightarrow> bk_emit x b)"

definition tx_payload :: "Transaction \<Rightarrow> (string \<times> json) list \<Rightarrow> RawMessage" where
  "tx_payload tx extra = (case transactionOutboxPayload tx extra of Inl _ \<Rightarrow> None | Inr p \<Rightarrow> p)"

text \<open>The outbox message of type \<open>ty\<close> about a transaction, if the service has an outbox.\<close>

definition message :: "bool \<Rightarrow> string \<Rightarrow> Transaction \<Rightarrow> OutboxEvent option" where
  "message has_outbox ty tx = (if has_outbox then Some (outbox_event ty (tx_payload tx []) 0) else None)"

definition create_effect :: "bool \<Rightarrow> Transaction \<Rightarrow> book \<Rightarrow> book" where
  "create_effect ob tx b =
     emit_opt (message ob ''transaction.created'' tx)
       (bk_log (tx_event (tx_ID tx) ''CREATED'' [] TxStatusPending None 0) (bk_put tx b))"

definition move_effect :: "bool \<Rightarrow> Transaction \<Rightarrow> TransactionStatus \<Rightarrow> book \<Rightarrow> book" where
  "move_effect ob tx to b =
     emit_opt (message (ob \<and> to = TxStatusFailed) ''transaction.failed'' (tx\<lparr>tx_Status := to\<rparr>))
       (bk_log (tx_event (tx_ID tx) (status_event to) (tx_Status tx) to None 0) (bk_set (tx_ID tx) to b))"

definition complete_effect :: "bool \<Rightarrow> Transaction \<Rightarrow> book \<Rightarrow> book" where
  "complete_effect ob tx b =
     emit_opt (message ob ''transaction.completed'' (tx\<lparr>tx_Status := TxStatusCompleted\<rparr>))
       (bk_log (tx_event (tx_ID tx) (status_event TxStatusCompleted) (tx_Status tx) TxStatusCompleted None 0)
         (bk_add (tx_MerchantID tx) (sint (tx_AmountCents tx)) (bk_set (tx_ID tx) TxStatusCompleted b)))"

definition refund_event :: "Transaction \<Rightarrow> string \<Rightarrow> TransactionEvent" where
  "refund_event tx reason = tx_event (tx_ID tx) ''REFUNDED'' TxStatusCompleted TxStatusRefunded
     (Some (JObject [(''reason'', JString reason)])) 0"

text \<open>
  The outbox message of a refund. Inside a database transaction its fields are those that
  \<open>refundInDBTransaction\<close> lists; on the in-memory store it is the general message with the reason added,
  if the service has an outbox.
\<close>

definition refund_message :: "bool \<Rightarrow> bool \<Rightarrow> Transaction \<Rightarrow> string \<Rightarrow> OutboxEvent option" where
  "refund_message on_db has_outbox tx reason =
     (if on_db then Some (outbox_event ''transaction.refunded''
        (Some (JObject
          [(''amount_cents'', JNumber (sint (tx_AmountCents tx))), (''merchant_id'', JString (tx_MerchantID tx)),
           (''reason'', JString reason), (''status'', JString ''REFUNDED''),
           (''transaction_id'', JString (tx_ID tx))])) 0)
      else if has_outbox then Some (outbox_event ''transaction.refunded''
        (tx_payload (tx\<lparr>tx_Status := TxStatusRefunded\<rparr>) [(''reason'', JString reason)]) 0)
      else None)"

definition refund_effect :: "bool \<Rightarrow> bool \<Rightarrow> Transaction \<Rightarrow> string \<Rightarrow> book \<Rightarrow> book" where
  "refund_effect on_db has_outbox tx reason b =
     emit_opt (refund_message on_db has_outbox tx reason) (bk_log (refund_event tx reason)
       (bk_add (tx_MerchantID tx) (- sint (tx_AmountCents tx)) (bk_set (tx_ID tx) TxStatusRefunded b)))"

section \<open>Steps\<close>

inductive ledger_step :: "book \<Rightarrow> book \<Rightarrow> bool" where
  create: "bk_get b (tx_ID x) = None \<Longrightarrow> 0 < sint (tx_AmountCents x) \<Longrightarrow> tx_Status x = TxStatusPending
    \<Longrightarrow> bk_bal b (tx_MerchantID x) \<noteq> None \<Longrightarrow> ledger_step b (create_effect ob x b)"
| move: "bk_get b i = Some t \<Longrightarrow> CanTransition (tx_Status t) to \<Longrightarrow> to \<in> {TxStatusProcessing, TxStatusFailed}
    \<Longrightarrow> ledger_step b (bk_set i to b)"
| undo: "bk_get b i = Some t \<Longrightarrow> CanTransition from (tx_Status t) \<Longrightarrow> tx_Status t \<in> {TxStatusProcessing, TxStatusFailed}
    \<Longrightarrow> ledger_step b (bk_set i from b)"
| log: "ledger_step b (bk_log e b)"
| emit: "ledger_step b (bk_emit x b)"
| complete: "bk_get b (tx_ID x) = Some (core x) \<Longrightarrow> tx_Status x = TxStatusProcessing
    \<Longrightarrow> bk_can_add (tx_MerchantID x) (sint (tx_AmountCents x)) b \<Longrightarrow> ledger_step b (complete_effect ob x b)"
| refund: "bk_get b (tx_ID x) = Some (core x) \<Longrightarrow> tx_Status x = TxStatusCompleted
    \<Longrightarrow> bk_can_add (tx_MerchantID x) (- sint (tx_AmountCents x)) b \<Longrightarrow> ledger_step b (refund_effect on_db ob x reason b)"

abbreviation ledger :: "book \<Rightarrow> book \<Rightarrow> bool" where
  "ledger \<equiv> ledger_step\<^sup>*\<^sup>*"

section \<open>Money\<close>

text \<open>What completed transactions have credited to a merchant.\<close>

definition credited :: "string \<Rightarrow> Transaction \<Rightarrow> int" where
  "credited i t = (if tx_MerchantID t = i \<and> tx_Status t = TxStatusCompleted then sint (tx_AmountCents t) else 0)"

definition bk_settled :: "string \<Rightarrow> book \<Rightarrow> int" where
  "bk_settled i b = sum_list (map (\<lambda>p. credited i (snd p)) (bk_txns b))"

text \<open>The part of a balance that does not stem from completed transactions.\<close>

definition bk_base :: "string \<Rightarrow> book \<Rightarrow> int option" where
  "bk_base i b = map_option (\<lambda>x. x - bk_settled i b) (bk_bal b i)"

text \<open>Balances cover the completed transactions, and the merchant of every transaction is known.\<close>

definition solvent :: "book \<Rightarrow> bool" where
  "solvent b \<longleftrightarrow> (\<forall>i x. bk_base i b = Some x \<longrightarrow> 0 \<le> x)
     \<and> (\<forall>(k, t) \<in> set (bk_txns b). bk_bal b (tx_MerchantID t) \<noteq> None)"

section \<open>Facts\<close>

lemma bk_emit_opt [simp]:
  "bk_txns (emit_opt ob b) = bk_txns b" "bk_bal (emit_opt ob b) = bk_bal b" "bk_events (emit_opt ob b) = bk_events b"
  "bk_get (emit_opt ob b) i = bk_get b i" "book_ok (emit_opt ob b) = book_ok b"
  by (auto simp: emit_opt_def bk_get_def split: option.splits)

lemma bk_settled_frame [simp]:
  "bk_settled i (bk_log e b) = bk_settled i b" "bk_settled i (bk_emit x b) = bk_settled i b"
  "bk_settled i (emit_opt ob b) = bk_settled i b" "bk_settled i (bk_add j n b) = bk_settled i b"
  by (simp_all add: bk_settled_def)

lemma credited_core [simp]: "credited i (core t) = credited i t"
  by (simp add: credited_def)

lemma bk_settled_put: "bk_settled i (bk_put x b) = bk_settled i b + credited i x"
  by (simp add: bk_settled_def bk_put_def)

lemma bk_set_update_where:
  "bk_txns (bk_set i st b) = update_where (\<lambda>p. fst p = i) (\<lambda>(k, t). (k, t\<lparr>tx_Status := st\<rparr>)) (bk_txns b)"
  by (auto simp: bk_set_def update_where_def)

lemma bk_settled_set:
  assumes "book_ok b" and "bk_get b i = Some t"
  shows "bk_settled j (bk_set i st b) = bk_settled j b - credited j t + credited j (t\<lparr>tx_Status := st\<rparr>)"
proof -
  have "(i, t) \<in> set (bk_txns b)" using assms(2) by (auto simp: bk_get_def dest: map_of_SomeD)
  moreover have "distinct (map fst (bk_txns b))" using assms(1) by (simp add: book_ok_def)
  ultimately show ?thesis
    using sum_list_update_where [of fst "bk_txns b" "(i, t)" "\<lambda>(k, t). (k, t\<lparr>tx_Status := st\<rparr>)" "\<lambda>p. credited j (snd p)"]
    by (auto simp: bk_settled_def bk_set_update_where)
qed

lemma bk_base_frame [simp]:
  "bk_base i (bk_log e b) = bk_base i b" "bk_base i (bk_emit x b) = bk_base i b" "bk_base i (emit_opt ob b) = bk_base i b"
  by (simp_all add: bk_base_def)

lemma bk_base_set:
  assumes "book_ok b" and "bk_get b i = Some t" and "tx_Status t \<noteq> TxStatusCompleted" and "st \<noteq> TxStatusCompleted"
  shows "bk_base j (bk_set i st b) = bk_base j b"
  using assms by (simp add: bk_base_def bk_settled_set credited_def)

text \<open>Moving a transaction across \<open>COMPLETED\<close> and its amount across the balance cancel out.\<close>

lemma bk_base_settle:
  assumes "book_ok b" and "bk_get b i = Some t" and "bk_can_add (tx_MerchantID t) n b"
    and "n = credited (tx_MerchantID t) (t\<lparr>tx_Status := st\<rparr>) - credited (tx_MerchantID t) t"
  shows "bk_base j (bk_add (tx_MerchantID t) n (bk_set i st b)) = bk_base j b"
proof -
  have "bk_can_add (tx_MerchantID t) n (bk_set i st b)" using assms(3) by (simp add: bk_can_add_def)
  from bk_bal_add [OF this] show ?thesis
    using assms(4) bk_settled_set [OF assms(1,2), of j st]
    by (auto simp: bk_base_def credited_def option.map_comp comp_def intro!: option.map_cong0)
qed

lemma ledger_step_ok: "ledger_step b b' \<Longrightarrow> book_ok b \<Longrightarrow> book_ok b'"
proof (induction rule: ledger_step.induct)
  case (create b x ob)
  then show ?case by (simp add: create_effect_def book_ok_put)
next
  case (complete b x ob)
  then show ?case by (auto simp: complete_effect_def bk_can_add_def intro!: book_ok_add book_ok_set)
next
  case (refund b x on_db ob reason)
  then show ?case by (auto simp: refund_effect_def bk_can_add_def intro!: book_ok_add book_ok_set)
qed (simp_all add: book_ok_set)

lemma ledger_step_base: "ledger_step b b' \<Longrightarrow> book_ok b \<Longrightarrow> bk_base i b' = bk_base i b"
proof (induction rule: ledger_step.induct)
  case (create b x ob)
  then show ?case by (simp add: create_effect_def bk_base_def bk_settled_put credited_def)
next
  case (move b j t st)
  have "tx_Status t \<noteq> TxStatusCompleted" "st \<noteq> TxStatusCompleted" using move(2) move(3) by (auto simp: CanTransition_iff)
  then show ?case using bk_base_set [OF move(4) move(1)] by simp
next
  case (undo b j t st)
  have "tx_Status t \<noteq> TxStatusCompleted" "st \<noteq> TxStatusCompleted" using undo(2) undo(3) by (auto simp: CanTransition_iff)
  then show ?case using bk_base_set [OF undo(4) undo(1)] by simp
next
  case (complete b x ob)
  have "sint (tx_AmountCents x) = credited (tx_MerchantID x) (core x\<lparr>tx_Status := TxStatusCompleted\<rparr>)
      - credited (tx_MerchantID x) (core x)"
    using complete(2) by (simp add: credited_def)
  from bk_base_settle [OF complete(4,1), unfolded core_simps, OF complete(3) this]
  show ?case by (simp only: complete_effect_def bk_base_frame)
next
  case (refund b x on_db ob reason)
  have "- sint (tx_AmountCents x) = credited (tx_MerchantID x) (core x\<lparr>tx_Status := TxStatusRefunded\<rparr>)
      - credited (tx_MerchantID x) (core x)"
    using refund(2) by (simp add: credited_def)
  from bk_base_settle [OF refund(4,1), unfolded core_simps, OF refund(3) this]
  show ?case by (simp only: refund_effect_def bk_base_frame)
qed simp_all

lemma ledger_ok: "ledger b b' \<Longrightarrow> book_ok b \<Longrightarrow> book_ok b'"
  by (induction rule: rtranclp_induct) (auto intro: ledger_step_ok)

lemma ledger_base: "ledger b b' \<Longrightarrow> book_ok b \<Longrightarrow> bk_base i b' = bk_base i b"
proof (induction rule: rtranclp_induct)
  case (step b1 b2)
  then show ?case using ledger_step_base [of b1 b2 i] ledger_ok [of b b1] by simp
qed simp

lemma ledger_step_backed:
  assumes "ledger_step b b'" and "\<forall>(k, t) \<in> set (bk_txns b). bk_bal b (tx_MerchantID t) \<noteq> None"
  shows "\<forall>(k, t) \<in> set (bk_txns b'). bk_bal b' (tx_MerchantID t) \<noteq> None"
proof -
  have set': "\<forall>(k, t) \<in> set (bk_txns (bk_set i st b)). bk_bal b (tx_MerchantID t) \<noteq> None"
    if "\<forall>(k, t) \<in> set (bk_txns b). bk_bal b (tx_MerchantID t) \<noteq> None" for i st b
    using that by (fastforce simp: bk_set_def)
  have mono: "bk_bal (bk_add j n b) i = None \<longleftrightarrow> bk_bal b i = None" for b i j n
    by (auto simp: bk_add_def split: option.splits)
  show ?thesis using assms
  proof (induction rule: ledger_step.induct)
    case (create b x ob)
    then show ?case by (auto simp: create_effect_def bk_put_def)
  next
    case (complete b x ob)
    from set' [OF complete(4), of "tx_ID x" TxStatusCompleted]
    show ?case unfolding complete_effect_def by (simp add: mono)
  next
    case (refund b x on_db ob reason)
    from set' [OF refund(4), of "tx_ID x" TxStatusRefunded]
    show ?case unfolding refund_effect_def by (simp add: mono)
  qed (use set' in \<open>simp_all add: mono\<close>)
qed

lemma solvent_ledger: "ledger b b' \<Longrightarrow> book_ok b \<Longrightarrow> solvent b \<Longrightarrow> solvent b'"
proof (induction rule: rtranclp_induct)
  case (step b1 b2)
  then have "book_ok b1" "solvent b1" by (simp_all add: ledger_ok)
  then show ?case unfolding solvent_def
    using ledger_step_backed [OF step(2)] ledger_step_base [OF step(2)] by simp
qed simp

text \<open>A recorded transaction stays recorded; only its status changes.\<close>

lemma ledger_step_get:
  assumes "ledger_step b b'" and "bk_get b i = Some t"
  shows "\<exists>st. bk_get b' i = Some (t\<lparr>tx_Status := st\<rparr>)"
proof -
  have same: "\<exists>st. bk_get b i = Some (t\<lparr>tx_Status := st\<rparr>)" using assms(2) by (intro exI [of _ "tx_Status t"]) simp
  show ?thesis using assms same
  proof (induction rule: ledger_step.induct)
    case (create b x ob)
    then show ?case by (auto simp: create_effect_def bk_get_put)
  qed (auto simp: complete_effect_def refund_effect_def bk_get_set)
qed

lemma ledger_get: "ledger b b' \<Longrightarrow> bk_get b i = Some t \<Longrightarrow> \<exists>st. bk_get b' i = Some (t\<lparr>tx_Status := st\<rparr>)"
proof (induction rule: rtranclp_induct)
  case base
  then show ?case by (intro exI [of _ "tx_Status t"]) simp
next
  case (step b1 b2)
  then obtain st where "bk_get b1 i = Some (t\<lparr>tx_Status := st\<rparr>)" by blast
  from ledger_step_get [OF step(2) this] show ?case by auto
qed

text \<open>The audit log and the outbox only grow.\<close>

lemma ledger_step_grows:
  "ledger_step b b' \<Longrightarrow> (\<exists>es. bk_events b' = bk_events b @ es) \<and> (\<exists>os. bk_outbox b' = bk_outbox b @ os)"
  by (induction rule: ledger_step.induct)
    (auto simp: create_effect_def complete_effect_def refund_effect_def bk_log_def bk_emit_def emit_opt_def bk_put_def
      bk_set_def bk_add_def split: option.splits)

lemma ledger_grows:
  "ledger b b' \<Longrightarrow> (\<exists>es. bk_events b' = bk_events b @ es) \<and> (\<exists>os. bk_outbox b' = bk_outbox b @ os)"
proof (induction rule: rtranclp_induct)
  case (step b1 b2)
  then show ?case using ledger_step_grows [of b1 b2] by auto
qed simp

text \<open>A transaction that was created on the way has an audit event without a payload.\<close>

lemma ledger_step_created:
  "ledger_step b b' \<Longrightarrow> bk_get b i = None \<Longrightarrow> bk_get b' i \<noteq> None \<Longrightarrow>
   \<exists>e \<in> set (bk_events b'). ev_TransactionID e = i \<and> ev_Payload e = None"
proof (induction rule: ledger_step.induct)
  case (create b x ob)
  then have "i = tx_ID x" by (auto simp: create_effect_def bk_get_put split: if_splits)
  then show ?case by (auto simp: create_effect_def bk_log_def core_event_def tx_event_def)
qed (auto simp: complete_effect_def refund_effect_def bk_get_set split: if_splits)

lemma ledger_created:
  "ledger b b' \<Longrightarrow> bk_get b i = None \<Longrightarrow> bk_get b' i \<noteq> None \<Longrightarrow>
   \<exists>e \<in> set (bk_events b'). ev_TransactionID e = i \<and> ev_Payload e = None"
proof (induction rule: rtranclp_induct)
  case (step b1 b2)
  then show ?case
  proof (cases "bk_get b1 i")
    case (Some t)
    then obtain e where "e \<in> set (bk_events b1)" "ev_TransactionID e = i \<and> ev_Payload e = None" using step by auto
    moreover from ledger_step_grows [OF step(2)] obtain es where "bk_events b2 = bk_events b1 @ es" by blast
    ultimately show ?thesis by auto
  qed (use step ledger_step_created [of b1 b2 i] in simp)
qed simp

lemma ledger_emit_opt: "ledger b (emit_opt ob b)"
  by (cases ob) (auto simp: emit_opt_def intro: ledger_step.emit)

lemma ledger_log_after: "ledger b b' \<Longrightarrow> ledger b (bk_log e b')"
  by (rule rtranclp.rtrancl_into_rtrancl) (auto intro: ledger_step.log)

lemma ledger_emit_after: "ledger b b' \<Longrightarrow> ledger b (emit_opt ob b')"
  by (rule rtranclp_trans [OF _ ledger_emit_opt])

lemma ledger_move:
  assumes "bk_get b (tx_ID x) = Some (core x)" and "CanTransition (tx_Status x) to" and "to \<in> {TxStatusProcessing, TxStatusFailed}"
  shows "ledger b (move_effect ob x to b)"
proof -
  have "ledger b (bk_set (tx_ID x) to b)" using assms by (auto intro!: ledger_step.move)
  then show ?thesis unfolding move_effect_def by (intro ledger_emit_after ledger_log_after)
qed

text \<open>A settled transaction: once \<open>COMPLETED\<close> it can only become \<open>REFUNDED\<close>, and that is final.\<close>

lemma ledger_step_settled:
  assumes "ledger_step b b'" and "bk_get b i = Some t" and "tx_Status t \<in> {TxStatusCompleted, TxStatusRefunded}"
  shows "bk_get b' i = Some t \<or> tx_Status t = TxStatusCompleted \<and> bk_get b' i = Some (t\<lparr>tx_Status := TxStatusRefunded\<rparr>)"
  using assms
proof (induction rule: ledger_step.induct)
  case (create b x ob)
  then show ?case by (auto simp: create_effect_def bk_get_put)
next
  case (move b j u to)
  then have "i \<noteq> j" by (auto simp: CanTransition_iff)
  with move show ?case by (simp add: bk_get_set)
next
  case (undo b j u f)
  then have "i \<noteq> j" by auto
  with undo show ?case by (simp add: bk_get_set)
next
  case (complete b x ob)
  then have "i \<noteq> tx_ID x" by auto
  with complete show ?case by (simp add: complete_effect_def bk_get_set)
next
  case (refund b x on_db ob reason)
  then show ?case by (cases "i = tx_ID x") (auto simp: refund_effect_def bk_get_set)
qed simp_all

lemma ledger_settled:
  "ledger b b' \<Longrightarrow> bk_get b i = Some t \<Longrightarrow> tx_Status t \<in> {TxStatusCompleted, TxStatusRefunded} \<Longrightarrow>
   bk_get b' i = Some t \<or> tx_Status t = TxStatusCompleted \<and> bk_get b' i = Some (t\<lparr>tx_Status := TxStatusRefunded\<rparr>)"
proof (induction rule: rtranclp_induct)
  case (step b1 b2)
  then show ?case using ledger_step_settled [OF step(2), of i t]
      ledger_step_settled [OF step(2), of i "t\<lparr>tx_Status := TxStatusRefunded\<rparr>"] by auto
qed simp

text \<open>The balances of a solvent book cover every refund.\<close>

lemma credited_nonneg: "book_ok b \<Longrightarrow> p \<in> set (bk_txns b) \<Longrightarrow> 0 \<le> credited i (snd p)"
  by (cases p) (auto simp: book_ok_def credited_def)

lemma credited_le_settled:
  assumes "book_ok b" and "bk_get b j = Some t"
  shows "credited i t \<le> bk_settled i b"
proof -
  have p: "(j, t) \<in> set (bk_txns b)" using assms(2) by (auto simp: bk_get_def dest: map_of_SomeD)
  have "\<forall>p \<in> set ps. 0 \<le> credited i (snd p) \<Longrightarrow> q \<in> set ps \<Longrightarrow> credited i (snd q) \<le> sum_list (map (\<lambda>p. credited i (snd p)) ps)" for q ps
  proof (induction ps)
    case (Cons a ps)
    then have "0 \<le> sum_list (map (\<lambda>p. credited i (snd p)) ps)" by (intro sum_list_nonneg) auto
    with Cons show ?case by auto
  qed simp
  from this [OF ballI [OF credited_nonneg [OF assms(1)]] p] show ?thesis by (simp add: bk_settled_def)
qed

lemma solvent_can_refund:
  assumes ok: "book_ok b" and "solvent b" and t: "bk_get b j = Some t" and "tx_Status t = TxStatusCompleted"
  shows "bk_can_add (tx_MerchantID t) (- sint (tx_AmountCents t)) b"
proof -
  have "(j, t) \<in> set (bk_txns b)" using t by (auto simp: bk_get_def dest: map_of_SomeD)
  then obtain x where bal: "bk_bal b (tx_MerchantID t) = Some x" using assms(2) by (auto simp: solvent_def)
  have "bk_settled (tx_MerchantID t) b \<le> x" using assms(2) bal by (fastforce simp: solvent_def bk_base_def)
  moreover have "sint (tx_AmountCents t) \<le> bk_settled (tx_MerchantID t) b"
    using credited_le_settled [OF ok t, of "tx_MerchantID t"] assms(4) by (simp add: credited_def)
  moreover have "0 < sint (tx_AmountCents t)" and "x < 2 ^ 63"
    using bk_get_ID [OF ok t] ok bal by (auto simp: book_ok_def)
  ultimately show ?thesis using bal by (simp add: bk_can_add_def)
qed

end
