(* ===== verification/Payflow_Mock.thy ===== *)
theory Payflow_Mock
  imports Payflow_Repository
begin

text \<open>
  The in-memory repositories (\<open>internal/repository/mock/repos.go\<close>). A Go map is an association list
  with distinct keys whose order stands for the order in which \<open>range\<close> visits the map; every
  operation holds the repository's mutex, so it is one step. The repositories interpret
  \<open>reliable_repositories\<close> (interpretation \<open>mock\<close>).
\<close>

section \<open>State\<close>

record mockdb =
  mk_Merchants :: "(string \<times> Merchant) list"
  mk_Transactions :: "(string \<times> Transaction) list"
  mk_order :: "string list"
  mk_Events :: "TransactionEvent list"
  mk_Outbox :: "OutboxEvent list"
  mk_nextID :: int64

text \<open>The zero \<open>time.Time\<close>, from which times are counted.\<close>

definition zero_time :: int where "zero_time = 0"

definition NewMerchantRepo :: "(string \<times> Merchant) list" where
  "NewMerchantRepo =
     [(''m_001'', \<lparr>m_ID = ''m_001'', m_Name = ''Maple Sports'', m_APIKey = ''sk_live_maple_001'',
        m_BalanceCents = 0, m_Currency = ''CAD'', m_Status = MerchantActive,
        m_CreatedAt = zero_time, m_UpdatedAt = zero_time\<rparr>),
      (''m_002'', \<lparr>m_ID = ''m_002'', m_Name = ''Northern Gaming'', m_APIKey = ''sk_live_northern_002'',
        m_BalanceCents = 50000, m_Currency = ''CAD'', m_Status = MerchantActive,
        m_CreatedAt = zero_time, m_UpdatedAt = zero_time\<rparr>)]"

text \<open>\<open>NewMerchantRepo\<close>, \<open>NewTransactionRepo\<close>, \<open>NewEventRepo\<close> and \<open>NewOutboxRepo\<close> together.\<close>

definition NewMockDB :: mockdb where
  "NewMockDB = \<lparr>mk_Merchants = NewMerchantRepo, mk_Transactions = [], mk_order = [], mk_Events = [],
     mk_Outbox = [], mk_nextID = 1\<rparr>"

section \<open>Merchants\<close>

definition mock_Merchant_GetByID :: "string \<Rightarrow> (mockdb, go_error + Merchant) dbop" where
  "mock_Merchant_GetByID i t d =
     (case map_of (mk_Merchants d) i of
        None \<Rightarrow> (Inl (Sentinel ErrMerchantNotFound), d)
      | Some m \<Rightarrow> (Inr m, d))"

definition mock_GetByAPIKey :: "string \<Rightarrow> (mockdb, go_error + Merchant) dbop" where
  "mock_GetByAPIKey apiKey t d =
     (case find (\<lambda>p. m_APIKey (snd p) = apiKey) (mk_Merchants d) of
        Some (_, m) \<Rightarrow> (Inr m, d)
      | None \<Rightarrow> (Inl (Sentinel ErrMerchantNotFound), d))"

definition mock_UpdateBalance :: "string \<Rightarrow> int64 \<Rightarrow> (mockdb, go_error option) dbop" where
  "mock_UpdateBalance i delta t d =
     (case map_of (mk_Merchants d) i of
        None \<Rightarrow> (Some (Sentinel ErrMerchantNotFound), d)
      | Some m \<Rightarrow>
          if sint (m_BalanceCents m + delta) < 0 then (Some (Sentinel ErrInsufficientFunds), d)
          else (None, d\<lparr>mk_Merchants := AList.map_entry i
                          (\<lambda>m. m\<lparr>m_BalanceCents := m_BalanceCents m + delta\<rparr>) (mk_Merchants d)\<rparr>))"

section \<open>Transactions\<close>

definition mock_Transaction_Create :: "Transaction \<Rightarrow> (mockdb, go_error option) dbop" where
  "mock_Transaction_Create x t d =
     (None, d\<lparr>mk_Transactions := AList.update (tx_ID x) x (mk_Transactions d),
              mk_order := mk_order d @ [tx_ID x]\<rparr>)"

definition mock_Transaction_GetByID :: "string \<Rightarrow> (mockdb, go_error + Transaction) dbop" where
  "mock_Transaction_GetByID i t d =
     (case map_of (mk_Transactions d) i of
        None \<Rightarrow> (Inl (Sentinel ErrTransactionNotFound), d)
      | Some x \<Rightarrow> (Inr x, d))"

definition mock_GetByIdempotencyKey :: "string \<Rightarrow> (mockdb, go_error + Transaction option) dbop" where
  "mock_GetByIdempotencyKey key t d =
     (case find (\<lambda>p. tx_IdempotencyKey (snd p) = key) (mk_Transactions d) of
        Some (_, x) \<Rightarrow> (Inr (Some x), d)
      | None \<Rightarrow> (Inr None, d))"

definition mock_UpdateStatus :: "string \<Rightarrow> TransactionStatus \<Rightarrow> (mockdb, go_error option) dbop" where
  "mock_UpdateStatus i status t d =
     (case map_of (mk_Transactions d) i of
        None \<Rightarrow> (Some (Sentinel ErrTransactionNotFound), d)
      | Some _ \<Rightarrow> (None, d\<lparr>mk_Transactions :=
                              AList.map_entry i (\<lambda>x. x\<lparr>tx_Status := status\<rparr>) (mk_Transactions d)\<rparr>))"

text \<open>The loop over \<open>r.order\<close> (given newest first); a missing entry is a nil dereference.\<close>

fun mock_filtered :: "(string \<Rightarrow> Transaction option) \<Rightarrow> string \<Rightarrow> string list \<Rightarrow> go_error + Transaction list" where
  "mock_filtered m merchantID [] = Inr []"
| "mock_filtered m merchantID (i # is) =
     (case m i of
        None \<Rightarrow> Inl (Panic ''nil pointer dereference'')
      | Some x \<Rightarrow>
          (case mock_filtered m merchantID is of
             Inl err \<Rightarrow> Inl err
           | Inr xs \<Rightarrow> Inr (if tx_MerchantID x = merchantID then x # xs else xs)))"

definition mock_ListByMerchant :: "string \<Rightarrow> ListParams \<Rightarrow> (mockdb, go_error + (Transaction list \<times> nat)) dbop" where
  "mock_ListByMerchant merchantID params t d =
     (case mock_filtered (map_of (mk_Transactions d)) merchantID (rev (mk_order d)) of
        Inl err \<Rightarrow> (Inl err, d)
      | Inr filtered \<Rightarrow>
          (let total = length filtered;
               start = (if int total < sint (Offset params) then of_nat total else Offset params);
               end' = start + Limit params;
               end' = (if int total < sint end' then of_nat total else end')
           in if sint start < 0 \<or> sint end' < sint start
              then (Inl (Panic ''slice bounds out of range''), d)
              else (Inr (take (nat (sint end' - sint start)) (drop (nat (sint start)) filtered), total), d)))"

section \<open>Events and outbox\<close>

definition mock_Event_Create :: "TransactionEvent \<Rightarrow> (mockdb, go_error option) dbop" where
  "mock_Event_Create e t d = (None, d\<lparr>mk_Events := mk_Events d @ [e]\<rparr>)"

definition mock_ListByTransaction :: "string \<Rightarrow> (mockdb, go_error + TransactionEvent list) dbop" where
  "mock_ListByTransaction txID t d = (Inr (filter (\<lambda>e. ev_TransactionID e = txID) (mk_Events d)), d)"

definition mock_Outbox_Create :: "OutboxEvent \<Rightarrow> (mockdb, go_error option) dbop" where
  "mock_Outbox_Create x t d =
     (None, d\<lparr>mk_Outbox := mk_Outbox d @ [x\<lparr>ob_ID := mk_nextID d\<rparr>], mk_nextID := mk_nextID d + 1\<rparr>)"

definition mock_FetchUnpublished :: "int64 \<Rightarrow> (mockdb, go_error + OutboxEvent list) dbop" where
  "mock_FetchUnpublished limit t d =
     (Inr (take (nat (sint limit)) (filter (\<lambda>e. \<not> ob_Published e) (mk_Outbox d))), d)"

fun mock_mark :: "int64 \<Rightarrow> OutboxEvent list \<Rightarrow> OutboxEvent list" where
  "mock_mark i [] = []"
| "mock_mark i (e # es) = (if ob_ID e = i then e\<lparr>ob_Published := True\<rparr> # es else e # mock_mark i es)"

definition mock_MarkPublished :: "int64 \<Rightarrow> (mockdb, go_error option) dbop" where
  "mock_MarkPublished i t d = (None, d\<lparr>mk_Outbox := mock_mark i (mk_Outbox d)\<rparr>)"

section \<open>The repositories\<close>

text \<open>\<open>WithTx\<close> returns the repository itself and contexts are ignored.\<close>

definition mock_MerchantRepo :: "mockdb MerchantRepository" where
  "mock_MerchantRepo = \<lparr>MR_GetByID = (\<lambda>_ _. mock_Merchant_GetByID),
     MR_GetByAPIKey = (\<lambda>_ _. mock_GetByAPIKey), MR_UpdateBalance = (\<lambda>_ _. mock_UpdateBalance)\<rparr>"

definition mock_TransactionRepo :: "mockdb TransactionRepository" where
  "mock_TransactionRepo = \<lparr>TR_Create = (\<lambda>_ _. mock_Transaction_Create),
     TR_GetByID = (\<lambda>_ _. mock_Transaction_GetByID),
     TR_GetByIdempotencyKey = (\<lambda>_ _. mock_GetByIdempotencyKey),
     TR_UpdateStatus = (\<lambda>_ _. mock_UpdateStatus), TR_ListByMerchant = (\<lambda>_ _. mock_ListByMerchant)\<rparr>"

definition mock_EventRepo :: "mockdb EventRepository" where
  "mock_EventRepo = \<lparr>ER_Create = (\<lambda>_ _. mock_Event_Create),
     ER_ListByTransaction = (\<lambda>_ _. mock_ListByTransaction)\<rparr>"

definition mock_OutboxRepo :: "mockdb OutboxRepository" where
  "mock_OutboxRepo = \<lparr>OR_Create = (\<lambda>_ _. mock_Outbox_Create),
     OR_FetchUnpublished = (\<lambda>_ _. mock_FetchUnpublished), OR_MarkPublished = (\<lambda>_ _. mock_MarkPublished)\<rparr>"

lemmas mock_repo_defs [mock_defs] = mock_MerchantRepo_def mock_TransactionRepo_def mock_EventRepo_def
  mock_OutboxRepo_def mock_Merchant_GetByID_def mock_GetByAPIKey_def mock_UpdateBalance_def
  mock_Transaction_Create_def mock_Transaction_GetByID_def mock_GetByIdempotencyKey_def
  mock_UpdateStatus_def mock_ListByMerchant_def mock_Event_Create_def mock_ListByTransaction_def
  mock_Outbox_Create_def mock_FetchUnpublished_def mock_MarkPublished_def

section \<open>The contract\<close>

definition mock_book :: "mockdb \<Rightarrow> book" where
  "mock_book d = \<lparr>bk_txns = map (\<lambda>(k, x). (k, core x)) (mk_Transactions d),
     bk_bal = (\<lambda>i. map_option (\<lambda>m. sint (m_BalanceCents m)) (map_of (mk_Merchants d) i)),
     bk_events = map core_event (mk_Events d), bk_outbox = map core_outbox (mk_Outbox d)\<rparr>"

definition mock_view :: "DBTX \<Rightarrow> mockdb \<Rightarrow> book" where
  "mock_view c d = (case c of OnDB \<Rightarrow> mock_book d | OnTx \<Rightarrow> empty_book)"

definition mock_live :: "DBTX \<Rightarrow> mockdb \<Rightarrow> bool" where
  "mock_live c d \<longleftrightarrow> c = OnDB"

definition mock_ok :: "mockdb \<Rightarrow> bool" where
  "mock_ok d \<longleftrightarrow> book_ok (mock_book d) \<and> (\<forall>(k, m) \<in> set (mk_Merchants d). m_ID m = k)"

lemma update_fresh: "k \<notin> fst ` set al \<Longrightarrow> AList.update k v al = al @ [(k, v)]"
  by (induction al) auto

lemma map_entry_distinct:
  "distinct (map fst al) \<Longrightarrow> AList.map_entry i f al = map (\<lambda>(k, v). (k, if k = i then f v else v)) al"
proof (induction al)
  case Nil
  then show ?case by simp
next
  case (Cons p al)
  have "map (\<lambda>(k, v). (k, if k = i then f v else v)) al = al" if "fst p = i"
    using Cons.prems that by (intro map_idI) (auto split: prod.splits simp: image_iff)
  with Cons show ?case by (cases p) auto
qed

lemma mock_book_simps [simp]:
  "bk_get (mock_book d) i = map_option core (map_of (mk_Transactions d) i)"
  "bk_bal (mock_book d) i = map_option (\<lambda>m. sint (m_BalanceCents m)) (map_of (mk_Merchants d) i)"
  "map fst (bk_txns (mock_book d)) = map fst (mk_Transactions d)"
  by (simp_all add: mock_book_def bk_get_def map_of_map_snd case_prod_beta comp_def)

lemma mock_okD:
  "mock_ok d \<Longrightarrow> distinct (map fst (mk_Transactions d))"
  "mock_ok d \<Longrightarrow> map_of (mk_Transactions d) i = Some x \<Longrightarrow> tx_ID x = i"
  "mock_ok d \<Longrightarrow> map_of (mk_Merchants d) i = Some m \<Longrightarrow> m_ID m = i \<and> 0 \<le> sint (m_BalanceCents m)"
proof -
  assume ok: "mock_ok d"
  then have b: "book_ok (mock_book d)" by (simp add: mock_ok_def)
  show "distinct (map fst (mk_Transactions d))" using b by (simp add: book_ok_def)
  show "tx_ID x = i" if "map_of (mk_Transactions d) i = Some x"
    using bk_get_ID [OF b, of i "core x"] that by simp
  show "m_ID m = i \<and> 0 \<le> sint (m_BalanceCents m)" if m: "map_of (mk_Merchants d) i = Some m"
  proof -
    have "bk_bal (mock_book d) i = Some (sint (m_BalanceCents m))" using m by simp
    then have "0 \<le> sint (m_BalanceCents m)" using b unfolding book_ok_def by blast
    moreover have "m_ID m = i" using ok m by (auto simp: mock_ok_def dest!: map_of_SomeD)
    ultimately show ?thesis by blast
  qed
qed

text \<open>The guard of \<open>UpdateBalance\<close> is exactly that the new balance stays in range.\<close>

lemma mock_guard:
  assumes "0 \<le> sint (b :: int64)"
  shows "sint (b + delta) < 0 \<longleftrightarrow> \<not> (0 \<le> sint b + sint delta \<and> sint b + sint delta < 2 ^ 63)"
    and "\<not> sint (b + delta) < 0 \<Longrightarrow> sint (b + delta) = sint b + sint delta"
proof -
  have exact: "sint (b + delta) = sint b + sint delta" if "in_int64 (sint b + sint delta)"
    using that by (rule sint_add_exact)
  have pos: "0 \<le> sint delta" if "\<not> in_int64 (sint b + sint delta)"
    using that assms sint_bounds [of b] sint_bounds [of delta] by (auto simp: in_int64_def)
  have neg: "sint (b + delta) < 0" if out: "\<not> in_int64 (sint b + sint delta)"
    using sint_add_nonneg_exact [OF assms pos [OF out]] out in_int64_sint [of "b + delta"] by (metis not_less)
  show "sint (b + delta) < 0 \<longleftrightarrow> \<not> (0 \<le> sint b + sint delta \<and> sint b + sint delta < 2 ^ 63)"
    using exact neg by (cases "in_int64 (sint b + sint delta)") (auto simp: in_int64_def)
  show "sint (b + delta) = sint b + sint delta" if "\<not> sint (b + delta) < 0"
    using exact neg that by blast
qed

lemma mock_book_update_balance:
  assumes "mock_ok d" and "mock_UpdateBalance i delta t d = (r, d')"
  shows "r = None \<longleftrightarrow> bk_can_add i (sint delta) (mock_book d)"
    and "mock_book d' = (if r = None then bk_add i (sint delta) (mock_book d) else mock_book d)"
  using assms mock_guard [OF mock_okD(3) [OF assms(1), THEN conjunct2], of i _ delta]
  by (auto simp: mock_UpdateBalance_def bk_can_add_def bk_add_def mock_book_def fun_eq_iff
        map_of_map_entry split: option.splits if_splits)

lemma mock_book_update_status:
  assumes "mock_ok d" and "mock_UpdateStatus i st t d = (r, d')"
  shows "r = None \<longleftrightarrow> bk_get (mock_book d) i \<noteq> None"
    and "mock_book d' = (if r = None then bk_set i st (mock_book d) else mock_book d)"
proof -
  show "r = None \<longleftrightarrow> bk_get (mock_book d) i \<noteq> None"
    using assms(2) by (auto simp: mock_UpdateStatus_def split: option.splits)
  show "mock_book d' = (if r = None then bk_set i st (mock_book d) else mock_book d)"
    using assms mock_okD(1) [OF assms(1)]
    by (auto simp: mock_UpdateStatus_def bk_set_def mock_book_def map_entry_distinct core_def
        split: option.splits)
qed

lemma mock_book_create:
  assumes "mock_Transaction_Create x t d = (r, d')" and "bk_get (mock_book d) (tx_ID x) = None"
  shows "r = None \<and> mock_book d' = bk_put x (mock_book d)"
proof -
  have "tx_ID x \<notin> fst ` set (mk_Transactions d)" using assms(2) by (simp add: map_of_eq_None_iff)
  then show ?thesis
    using assms(1) by (auto simp: mock_Transaction_Create_def mock_book_def bk_put_def update_fresh)
qed

lemma mock_book_append:
  "mock_book (snd (mock_Event_Create e t d)) = bk_log e (mock_book d)"
  "mock_book (snd (mock_Outbox_Create x t d)) = bk_emit x (mock_book d)"
  by (simp_all add: mock_Event_Create_def mock_Outbox_Create_def mock_book_def bk_log_def bk_emit_def
      core_outbox_def)

lemma mock_merchants_frame:
  "mk_Merchants (snd (mock_UpdateStatus i st t d)) = mk_Merchants d"
  "mk_Merchants (snd (mock_Transaction_Create x t d)) = mk_Merchants d"
  "mk_Merchants (snd (mock_Event_Create e t d)) = mk_Merchants d"
  "mk_Merchants (snd (mock_Outbox_Create y t d)) = mk_Merchants d"
  by (auto simp: mock_UpdateStatus_def mock_Transaction_Create_def mock_Event_Create_def
      mock_Outbox_Create_def split: option.splits)

lemma mock_view_live [simp]:
  "mock_view OnDB d = mock_book d" "mock_view OnTx d = empty_book" "mock_live c d = (c = OnDB)"
  by (simp_all add: mock_view_def mock_live_def)

text \<open>Every operation keeps the well-formedness of the store.\<close>

lemma mock_ok_update_balance: "mock_ok d \<Longrightarrow> mock_ok (snd (mock_UpdateBalance i delta t d))"
proof -
  assume ok: "mock_ok d"
  obtain r d' where eq: "mock_UpdateBalance i delta t d = (r, d')" by (cases "mock_UpdateBalance i delta t d")
  have "book_ok (mock_book d')"
    using ok mock_book_update_balance [OF ok eq] by (auto simp: mock_ok_def intro: book_ok_add)
  moreover have "\<forall>(k, m) \<in> set (mk_Merchants d'). m_ID m = k"
  proof -
    have "set (AList.map_entry i (\<lambda>m. m\<lparr>m_BalanceCents := m_BalanceCents m + delta\<rparr>) al)
        \<subseteq> set al \<union> {(i, m\<lparr>m_BalanceCents := m_BalanceCents m + delta\<rparr>) | m. (i, m) \<in> set al}" for al
      by (induction al) auto
    then show ?thesis
      using ok eq by (fastforce simp: mock_ok_def mock_UpdateBalance_def split: option.splits if_splits)
  qed
  ultimately show ?thesis by (simp add: eq mock_ok_def)
qed

lemma mock_ok_update_status: "mock_ok d \<Longrightarrow> mock_ok (snd (mock_UpdateStatus i st t d))"
  using mock_book_update_status [of d i st t] mock_merchants_frame(1) [of i st t d]
  by (cases "mock_UpdateStatus i st t d") (auto simp: mock_ok_def intro: book_ok_set)

lemma mock_ok_create:
  "mock_ok d \<Longrightarrow> bk_get (mock_book d) (tx_ID x) = None \<Longrightarrow> 0 < sint (tx_AmountCents x) \<Longrightarrow>
   mock_ok (snd (mock_Transaction_Create x t d))"
  using mock_book_create [of x t d] mock_merchants_frame(2) [of x t d]
  by (cases "mock_Transaction_Create x t d") (auto simp: mock_ok_def intro: book_ok_put)

lemma mock_ok_append:
  "mock_ok (snd (mock_Event_Create e t d)) = mock_ok d"
  "mock_ok (snd (mock_Outbox_Create x t d)) = mock_ok d"
  by (simp_all add: mock_ok_def mock_book_append mock_merchants_frame)

lemma mock_outcome:
  assumes "mock_book d' = (if r = None then F (mock_book d) else mock_book d)"
    and "r = None \<longrightarrow> G (mock_book d)"
  shows "outcome mock_view mock_live OnDB G F d (r, d')"
  using assms by (auto simp: outcome_def DBTX_all)

interpretation mock: reliable_repositories mock_MerchantRepo mock_TransactionRepo mock_EventRepo
  mock_OutboxRepo mock_view mock_live mock_ok False
proof (unfold_locales, goal_cases)
  case 1
  show ?case by simp
next
  case (2 d c)
  then show ?case by (simp add: mock_ok_def)
next
  case (3 d c ctx i t res d')
  then show ?case
    using mock_okD(3) by (auto simp: mock_MerchantRepo_def mock_Merchant_GetByID_def reads_def split: option.splits)
next
  case (4 d c ctx i delta t)
  then show ?case
    using mock_ok_update_balance [of d i delta t] mock_book_update_balance [of d i delta t]
    by (cases "mock_UpdateBalance i delta t d")
      (auto simp: mock_MerchantRepo_def intro!: mock_outcome)
next
  case (5 d c x ctx t)
  then show ?case
    using mock_ok_create [of d x t] mock_book_create [of x t d]
    by (cases "mock_Transaction_Create x t d")
      (force simp: mock_TransactionRepo_def intro!: mock_outcome)
next
  case (6 d c ctx i t res d')
  then show ?case
    using mock_okD(2) by (auto simp: mock_TransactionRepo_def mock_Transaction_GetByID_def reads_def split: option.splits)
next
  case (7 d c ctx k t res d')
  then show ?case
    using mock_okD(1,2)
    by (auto simp: mock_TransactionRepo_def mock_GetByIdempotencyKey_def reads_def
        split: option.splits dest!: find_SomeD)
next
  case (8 d c ctx i st t)
  then show ?case
    using mock_ok_update_status [of d i st t] mock_book_update_status [of d i st t]
    by (cases "mock_UpdateStatus i st t d")
      (auto simp: mock_TransactionRepo_def intro!: mock_outcome)
next
  case (9 d c ctx e t)
  then show ?case
    using mock_ok_append(1) [of e t d] mock_book_append(1) [of e t d]
    by (cases "mock_Event_Create e t d") (auto simp: mock_EventRepo_def mock_Event_Create_def intro!: mock_outcome)
next
  case (10 d c ctx x t)
  then show ?case
    using mock_ok_append(2) [of x t d] mock_book_append(2) [of x t d]
    by (cases "mock_Outbox_Create x t d") (auto simp: mock_OutboxRepo_def mock_Outbox_Create_def intro!: mock_outcome)
next
  case (11 d c ctx i delta t r d')
  then show ?case using mock_book_update_balance(1) [of d i delta t r d'] by (simp add: mock_MerchantRepo_def)
next
  case (12 d c ctx i delta t err d')
  then show ?case
    using mock_book_update_balance(2) [of d i delta t "Some err" d'] by (simp add: mock_MerchantRepo_def)
next
  case (14 d c ctx i st t r d')
  then show ?case using mock_book_update_status(1) [of d i st t r d'] by (simp add: mock_TransactionRepo_def)
qed (simp_all add: mock_TransactionRepo_def mock_EventRepo_def mock_OutboxRepo_def
    mock_Transaction_Create_def mock_Event_Create_def mock_Outbox_Create_def)

section \<open>Properties\<close>

text \<open>C28: the in-memory \<open>UpdateBalance\<close> succeeds exactly when the new balance is not negative and fits
  64 bits, and then the balance is the exact sum; otherwise nothing changes and the error is
  \<open>ErrInsufficientFunds\<close> (for a credit that overflows, too). Other merchants are untouched.\<close>

theorem mock_UpdateBalance_exact:
  assumes "map_of (mk_Merchants d) i = Some m" and "0 \<le> sint (m_BalanceCents m)"
  shows "(if 0 \<le> sint (m_BalanceCents m) + sint delta \<and> sint (m_BalanceCents m) + sint delta < 2 ^ 63
     then \<exists>d'. mock_UpdateBalance i delta t d = (None, d')
        \<and> (\<exists>m'. map_of (mk_Merchants d') i = Some m' \<and> sint (m_BalanceCents m') = sint (m_BalanceCents m) + sint delta)
        \<and> (\<forall>j. j \<noteq> i \<longrightarrow> map_of (mk_Merchants d') j = map_of (mk_Merchants d) j)
     else mock_UpdateBalance i delta t d = (Some (Sentinel ErrInsufficientFunds), d))"
  using mock_guard [OF assms(2), of delta] assms(1)
  by (auto simp: mock_UpdateBalance_def map_of_map_entry)

lemma mock_UpdateBalance_exact_witness:
  "mock_UpdateBalance ''m_002'' (- 50001) 0 NewMockDB = (Some (Sentinel ErrInsufficientFunds), NewMockDB)"
  using mock_UpdateBalance_exact [of NewMockDB "''m_002''" "snd (NewMerchantRepo ! 1)" "- 50001" 0]
  by (simp add: NewMockDB_def NewMerchantRepo_def)

lemma mock_filtered_eq:
  "\<forall>i \<in> set is. m i \<noteq> None \<Longrightarrow>
   mock_filtered m mid is = Inr (filter (\<lambda>x. tx_MerchantID x = mid) (map (\<lambda>i. the (m i)) is))"
  by (induction "is") auto

text \<open>With parameters made by \<open>NewListParams\<close> the in-memory listing never runs out of bounds: it
  returns the page of the merchant's transactions, newest first, with their number.\<close>

theorem mock_ListByMerchant_page:
  assumes "\<forall>i \<in> set (mk_order d). map_of (mk_Transactions d) i \<noteq> None" and "length (mk_order d) < 2 ^ 62"
  shows "mock_ListByMerchant mid (NewListParams l f) t d =
    (let found = filter (\<lambda>x. tx_MerchantID x = mid) (map (\<lambda>i. the (map_of (mk_Transactions d) i)) (rev (mk_order d)))
     in (Inr (take (nat (sint (Limit (NewListParams l f)))) (drop (nat (sint (Offset (NewListParams l f)))) found),
              length found), d))"
proof -
  define p where "p = NewListParams l f"
  define found where "found = filter (\<lambda>x. tx_MerchantID x = mid) (map (\<lambda>i. the (map_of (mk_Transactions d) i)) (rev (mk_order d)))"
  have p: "1 \<le> sint (Limit p)" "sint (Limit p) \<le> 100" "0 \<le> sint (Offset p)"
    using NewListParams_bounds by (simp_all add: p_def)
  have "length found \<le> length (mk_order d)" unfolding found_def by (rule order_trans [OF length_filter_le]) simp
  then have len: "int (length found) < 2 ^ 62" using assms(2) by simp
  define st where "st = (if int (length found) < sint (Offset p) then of_nat (length found) else Offset p)"
  have st: "sint st = min (int (length found)) (sint (Offset p))"
    using len by (auto simp: st_def sint_of_nat_exact)
  have sum: "sint (st + Limit p) = sint st + sint (Limit p)"
    using p st len by (intro sint_add_exact) (auto simp: in_int64_def)
  define en where "en = (if int (length found) < sint (st + Limit p) then of_nat (length found) else st + Limit p)"
  have en: "sint en = min (int (length found)) (sint st + sint (Limit p))"
    using len sum by (auto simp: en_def sint_of_nat_exact)
  have "mock_ListByMerchant mid p t d = (Inr (take (nat (sint en - sint st)) (drop (nat (sint st)) found), length found), d)"
  proof -
    have "mock_filtered (map_of (mk_Transactions d)) mid (rev (mk_order d)) = Inr found"
      using assms(1) by (simp add: mock_filtered_eq found_def)
    moreover have "\<not> (sint st < 0 \<or> sint en < sint st)" using p st en by auto
    ultimately show ?thesis
      unfolding mock_ListByMerchant_def Let_def by (simp only: sum.case st_def [symmetric] en_def [symmetric] if_False)
  qed
  moreover have "take (nat (sint en - sint st)) (drop (nat (sint st)) found)
      = take (nat (sint (Limit p))) (drop (nat (sint (Offset p))) found)"
  proof (cases "int (length found) \<le> sint (Offset p)")
    case True
    then show ?thesis using st en by simp
  next
    case False
    then have "sint st = sint (Offset p)" using st by simp
    then show ?thesis using en by (auto simp: min_def)
  qed
  ultimately show ?thesis unfolding p_def found_def Let_def by simp
qed

lemma mock_ListByMerchant_page_witness:
  "mock_ListByMerchant ''m_001'' (NewListParams 0 (- 3)) 0 NewMockDB = (Inr ([], 0), NewMockDB)"
  using mock_ListByMerchant_page [of NewMockDB "''m_001''" 0 "- 3" 0] by (simp add: NewMockDB_def)

end
