(* ===== verification/Payflow_Store.thy ===== *)
theory Payflow_Store
  imports Payflow_Ledger Payflow_Mock Payflow_Postgres
begin

text \<open>
  How the persistence steps of the service meet the ledger. The locale \<open>payment_store\<close> is the contract
  of creating, moving, completing and refunding: each is one effect on the book or none, an absent
  error means the effect. A service wired to transactional repositories (\<open>wired_db\<close>) and one wired
  to reliable in-memory repositories (\<open>wired_mem\<close>) both provide it; the interpretations at the end
  are the service on PostgreSQL and the service on the in-memory repositories.
\<close>

section \<open>Tasks with an effect\<close>

definition act_post ::
  "(DBTX \<Rightarrow> 'db \<Rightarrow> book) \<Rightarrow> (DBTX \<Rightarrow> 'db \<Rightarrow> bool) \<Rightarrow> ('db \<Rightarrow> bool) \<Rightarrow> DBTX \<Rightarrow> (book \<Rightarrow> bool) \<Rightarrow> (book \<Rightarrow> book)
    \<Rightarrow> 'db world \<Rightarrow> go_error option \<times> 'db world \<Rightarrow> bool" where
  "act_post view live ok c G F w = (\<lambda>(r, w').
     ok (wdb w') \<and> live c (wdb w') \<and> (\<forall>c'. c' \<noteq> c \<longrightarrow> view c' (wdb w') = view c' (wdb w))
   \<and> (r = None \<longrightarrow> G (view c (wdb w)) \<and> view c (wdb w') = F (view c (wdb w))))"

definition acts ::
  "(DBTX \<Rightarrow> 'db \<Rightarrow> book) \<Rightarrow> (DBTX \<Rightarrow> 'db \<Rightarrow> bool) \<Rightarrow> ('db \<Rightarrow> bool) \<Rightarrow> DBTX \<Rightarrow> (book \<Rightarrow> bool) \<Rightarrow> (book \<Rightarrow> book) \<Rightarrow> 'db task \<Rightarrow> bool" where
  "acts view live ok c G F A \<longleftrightarrow>
     (\<forall>w. ok (wdb w) \<longrightarrow> live c (wdb w) \<longrightarrow> act_post view live ok c G F w (A w))"

text \<open>All or nothing: the effect happened or the book is as before; without an error it happened.\<close>

definition atomically ::
  "('db \<Rightarrow> book) \<Rightarrow> ('db \<Rightarrow> bool) \<Rightarrow> (book \<Rightarrow> bool) \<Rightarrow> (book \<Rightarrow> book) \<Rightarrow> 'db world \<Rightarrow> go_error option \<times> 'db world \<Rightarrow> bool" where
  "atomically view ok G F w = (\<lambda>(r, w').
     ok (wdb w')
   \<and> (view (wdb w') = view (wdb w) \<or> G (view (wdb w)) \<and> view (wdb w') = F (view (wdb w)))
   \<and> (r = None \<longrightarrow> G (view (wdb w)) \<and> view (wdb w') = F (view (wdb w))))"

locale payment_store =
  fixes s :: "'db PaymentService"
    and view :: "'db \<Rightarrow> book"
    and ok :: "'db \<Rightarrow> bool"
    and pk :: bool
  assumes store_book: "ok d \<Longrightarrow> book_ok (view d)"
    and key_lookup: "ok d \<Longrightarrow> TR_GetByIdempotencyKey (s_txns s) OnDB ctx k t d = (kres, d') \<Longrightarrow>
          ok d' \<and> view d' = view d
          \<and> (\<forall>x. kres = Inr (Some x) \<longrightarrow> tx_IdempotencyKey x = k \<and> bk_get (view d) (tx_ID x) = Some (core x))"
    and merchant_lookup: "ok d \<Longrightarrow> MR_GetByID (s_merchants s) OnDB ctx i t d = (mres, d') \<Longrightarrow>
          ok d' \<and> view d' = view d
          \<and> (\<forall>m. mres = Inr m \<longrightarrow> m_ID m = i \<and> bk_bal (view d) i = Some (sint (m_BalanceCents m)))"
    and txn_lookup: "ok d \<Longrightarrow> TR_GetByID (s_txns s) OnDB ctx i t d = (tres, d') \<Longrightarrow>
          ok d' \<and> view d' = view d
          \<and> (\<forall>x. tres = Inr x \<longrightarrow> tx_ID x = i \<and> bk_get (view d) i = Some (core x))"
    and persist_atomic: "ok (wdb w) \<Longrightarrow> pk \<or> bk_get (view (wdb w)) (tx_ID x) = None \<Longrightarrow> 0 < sint (tx_AmountCents x) \<Longrightarrow>
          tx_Status x = TxStatusPending \<Longrightarrow> bk_bal (view (wdb w)) (tx_MerchantID x) \<noteq> None \<Longrightarrow>
          atomically view ok (\<lambda>b. bk_get b (tx_ID x) = None) (create_effect (s_outbox s \<noteq> None) x) w (persist s ctx x w)"
    and transition_steps: "ok (wdb w) \<Longrightarrow> bk_get (view (wdb w)) (tx_ID x) = Some (core x) \<Longrightarrow>
          to \<in> {TxStatusProcessing, TxStatusFailed} \<Longrightarrow> transition s ctx x to w = ((r, x'), w') \<Longrightarrow>
          ok (wdb w') \<and> ledger (view (wdb w)) (view (wdb w')) \<and> bk_bal (view (wdb w')) = bk_bal (view (wdb w))
          \<and> x' = (if r = None then x\<lparr>tx_Status := to\<rparr> else x)
          \<and> (r = None \<longrightarrow> CanTransition (tx_Status x) to
               \<and> view (wdb w') = move_effect (s_outbox s \<noteq> None) x to (view (wdb w)))"
    and complete_atomic: "ok (wdb w) \<Longrightarrow> bk_get (view (wdb w)) (tx_ID x) = Some (core x) \<Longrightarrow>
          tx_Status x = TxStatusProcessing \<Longrightarrow> (\<And>t. ctx_Err ctx t = None) \<Longrightarrow>
          completePayment s ctx x w = ((r, x'), w') \<Longrightarrow>
          atomically view ok (bk_can_add (tx_MerchantID x) (sint (tx_AmountCents x)))
            (complete_effect (s_outbox s \<noteq> None) x) w (r, w')
          \<and> x' = (if r = None then x\<lparr>tx_Status := TxStatusCompleted\<rparr> else x)"
    and refund_atomic: "ok (wdb w) \<Longrightarrow> bk_get (view (wdb w)) (tx_ID x) = Some (core x) \<Longrightarrow>
          tx_Status x = TxStatusCompleted \<Longrightarrow>
          atomically view ok (bk_can_add (tx_MerchantID x) (- sint (tx_AmountCents x)))
            (refund_effect (s_db s \<noteq> None) (s_outbox s \<noteq> None) x reason) w (refund s ctx x reason w)"

section \<open>Rules for tasks\<close>

lemma actsD:
  assumes "acts view live ok c G F A" "ok (wdb w)" "live c (wdb w)" "A w = (r, w')"
  shows "ok (wdb w')" "live c (wdb w')" "c' \<noteq> c \<Longrightarrow> view c' (wdb w') = view c' (wdb w)"
    "r = None \<Longrightarrow> G (view c (wdb w)) \<and> view c (wdb w') = F (view c (wdb w))"
proof -
  have "act_post view live ok c G F w (r, w')" using assms unfolding acts_def by metis
  then show "ok (wdb w')" "live c (wdb w')" "c' \<noteq> c \<Longrightarrow> view c' (wdb w') = view c' (wdb w)"
    "r = None \<Longrightarrow> G (view c (wdb w)) \<and> view c (wdb w') = F (view c (wdb w))"
    unfolding act_post_def by simp_all
qed

lemma act_post_weaken:
  "act_post view live ok c G F w p \<Longrightarrow> (\<And>b. G b \<Longrightarrow> G' b \<and> F b = F' b) \<Longrightarrow> act_post view live ok c G' F' w p"
  unfolding act_post_def by (cases p) auto

lemma acts_weaken:
  assumes "acts view live ok c G F A" and "\<And>b. G b \<Longrightarrow> G' b \<and> F b = F' b"
  shows "acts view live ok c G' F' A"
  unfolding acts_def
proof (intro allI impI)
  fix w :: "'a world" assume "ok (wdb w)" "live c (wdb w)"
  with assms(1) have "act_post view live ok c G F w (A w)" by (simp add: acts_def)
  then show "act_post view live ok c G' F' w (A w)" by (rule act_post_weaken) (rule assms(2))
qed

lemma rcallD: "rcall op w = (r, w') \<Longrightarrow> op (now (wenv w)) (wdb w) = (r, wdb w')"
  by (cases "op (now (wenv w)) (wdb w)") (auto simp: rcall_def)

lemma acts_rcall:
  assumes "\<And>t d. ok d \<Longrightarrow> live c d \<Longrightarrow> ok (snd (op t d)) \<and> outcome view live c G F d (op t d)"
  shows "acts view live ok c G F (rcall op)"
  unfolding acts_def
proof (intro allI impI)
  fix w :: "'a world" assume w: "ok (wdb w)" "live c (wdb w)"
  obtain r w' where run: "rcall op w = (r, w')" by (cases "rcall op w")
  from assms [OF w, of "now (wenv w)"] w(2) show "act_post view live ok c G F w (rcall op w)"
    by (simp add: run rcallD [OF run] act_post_def outcome_def)
qed

lemma acts_check:
  assumes "acts view live ok c G1 F1 A" and "acts view live ok c G2 F2 B"
  shows "acts view live ok c (\<lambda>b. G1 b \<and> G2 (F1 b)) (\<lambda>b. F2 (F1 b)) (check A f B)"
  unfolding acts_def
proof (intro allI impI)
  fix w :: "'a world" assume w: "ok (wdb w)" "live c (wdb w)"
  obtain r1 w1 where a: "A w = (r1, w1)" by (cases "A w")
  note A = actsD [OF assms(1) w a]
  obtain r2 w2 where b: "B w1 = (r2, w2)" by (cases "B w1")
  note B = actsD [OF assms(2) A(1,2) b]
  show "act_post view live ok c (\<lambda>b. G1 b \<and> G2 (F1 b)) (\<lambda>b. F2 (F1 b)) w (check A f B w)"
    using A B by (cases r1) (simp_all add: check_def a b act_post_def)
qed

lemma acts_dep: "(\<And>w0. acts view live ok c G F (A w0)) \<Longrightarrow> acts view live ok c G F (\<lambda>w. A w w)"
  by (simp add: acts_def)

lemma acts_nil: "acts view live ok c (\<lambda>_. True) (\<lambda>b. b) return_nil"
  by (simp add: acts_def act_post_def return_nil_def)

lemma acts_bind: "x = Inr v \<Longrightarrow> acts view live ok c G F (B v) \<Longrightarrow> acts view live ok c G F (bind x f B)"
  by (simp add: acts_def bind_def)

lemma acts_deref: "p = Some v \<Longrightarrow> acts view live ok c G F (B v) \<Longrightarrow> acts view live ok c G F (deref p B)"
  by (simp add: acts_def deref_def)

text \<open>Times do not show in the book.\<close>

lemma bk_log_time: "bk_log (tx_event i ty f t p n) = bk_log (tx_event i ty f t p 0)"
  by (simp add: bk_log_def fun_eq_iff tx_event_def core_event_def)

lemma bk_emit_time: "bk_emit (outbox_event ty p n) = bk_emit (outbox_event ty p 0)"
  by (simp add: bk_emit_def fun_eq_iff outbox_event_def core_outbox_def)

lemma bk_set_add: "bk_set i st (bk_add m n b) = bk_add m n (bk_set i st b)"
  by (auto simp: bk_set_def bk_add_def split: option.splits)

context repositories
begin

lemma acts_Create: "pk \<Longrightarrow> 0 < sint (tx_AmountCents x) \<Longrightarrow>
    acts view live ok c (\<lambda>b. bk_get b (tx_ID x) = None) (bk_put x) (rcall (TR_Create TR c ctx x))"
  by (rule acts_rcall, rule txn_create) simp_all

lemma acts_UpdateStatus: "acts view live ok c (\<lambda>b. bk_get b i \<noteq> None) (bk_set i st) (rcall (TR_UpdateStatus TR c ctx i st))"
  by (rule acts_rcall) (rule txn_status)

lemma acts_UpdateBalance:
  "acts view live ok c (bk_can_add i (sint a)) (bk_add i (sint a)) (rcall (MR_UpdateBalance MR c ctx i a))"
  by (rule acts_rcall) (rule balance_update)

lemma acts_Event: "acts view live ok c (\<lambda>_. True) (bk_log (tx_event i ty f t p 0)) (rcall (ER_Create ER c ctx (tx_event i ty f t p n)))"
  by (subst bk_log_time [symmetric, of _ _ _ _ _ n], rule acts_rcall) (rule event_create)

lemma acts_Outbox: "acts view live ok c (\<lambda>_. True) (bk_emit (outbox_event ty p 0)) (rcall (OR_Create OR c ctx (outbox_event ty p n)))"
  by (subst bk_emit_time [symmetric, of _ _ n], rule acts_rcall) (rule outbox_create)

lemmas acts_Event_dep = acts_dep [OF acts_Event] and acts_Outbox_dep = acts_dep [OF acts_Outbox]

end

lemma marshal_Inr: "marshalOutboxPayload m = Inr (Some (JObject (sort_key fst m)))"
  by (simp add: marshalOutboxPayload_def)

lemma tx_payload_Inr: "transactionOutboxPayload tx extra = Inr (tx_payload tx extra)"
  by (simp add: tx_payload_def transactionOutboxPayload_def marshal_Inr)

lemma sint_minus_pos: "0 < sint (a :: int64) \<Longrightarrow> sint (- a) = - sint a"
  using sint_sub_exact [of 0 a] by simp

context transactional_repositories
begin

lemma withTransaction_atomic:
  assumes fn: "acts view live ok OnTx G F fn" and w: "ok (wdb w)" and run: "withTransaction ctx D fn w = (r, w')"
  shows "atomically (view OnDB) ok G F w (r, w')"
proof -
  obtain r1 w1 where b: "rcall (BeginTx D ctx) w = (r1, w1)" by (cases "rcall (BeginTx D ctx) w")
  have begin1: "ok (wdb w1) \<and> view OnDB (wdb w1) = view OnDB (wdb w)
      \<and> (r1 = None \<longrightarrow> live OnTx (wdb w1) \<and> view OnTx (wdb w1) = view OnDB (wdb w))"
    using b begin_ok [OF w, of ctx "now (wenv w)"] by (cases "BeginTx D ctx (now (wenv w)) (wdb w)") (auto simp: rcall_def)
  show ?thesis
  proof (cases r1)
    case (Some err)
    then show ?thesis using run b begin1 by (auto simp: withTransaction_def atomically_def)
  next
    case None
    obtain r2 w2 where f: "fn w1 = (r2, w2)" by (cases "fn w1")
    have ok1: "ok (wdb w1)" "live OnTx (wdb w1)" using begin1 None by auto
    note fn' = actsD [OF fn ok1 f]
    have rb: "ok (wdb w3) \<and> view OnDB (wdb w3) = view OnDB (wdb w2)" if "rcall (Rollback D) w2 = (r3, w3)" for r3 w3
      using that rollback_ok [OF fn'(1), of "now (wenv w2)"]
      by (cases "Rollback D (now (wenv w2)) (wdb w2)") (auto simp: rcall_def)
    have cm: "ok (wdb w3) \<and> (view OnDB (wdb w3) = view OnDB (wdb w2) \<or> view OnDB (wdb w3) = view OnTx (wdb w2))
        \<and> (r3 = None \<longrightarrow> view OnDB (wdb w3) = view OnTx (wdb w2))" if "rcall (Commit D ctx) w2 = (r3, w3)" for r3 w3
      using that commit_ok [OF fn'(1,2), of ctx "now (wenv w2)"]
      by (cases "Commit D ctx (now (wenv w2)) (wdb w2)") (auto simp: rcall_def)
    show ?thesis
    proof (cases r2)
      case (Some err)
      then show ?thesis using run None b f begin1 rb fn'(1) fn'(3) [of OnDB]
        by (auto simp: withTransaction_def atomically_def split: if_splits prod.splits)
    next
      case n2: None
      then show ?thesis using run None b f begin1 cm fn'(3) [of OnDB] fn'(4)
        by (auto simp: withTransaction_def atomically_def)
    qed
  qed
qed

end

section \<open>A service wired to repositories\<close>

locale wired = repositories +
  fixes s :: "'a PaymentService"
  assumes wiring: "s_merchants s = MR" "s_txns s = TR" "s_events s = ER" "s_outbox s = None \<or> s_outbox s = Some OR"
begin

abbreviation book_of :: "'a world \<Rightarrow> book" where
  "book_of w \<equiv> view OnDB (wdb w)"

lemma UpdateStatus_atomic:
  assumes "ok (wdb w)" and "rcall (TR_UpdateStatus TR OnDB ctx i st) w = (r, w')"
  shows "atomically (view OnDB) ok (\<lambda>b. bk_get b i \<noteq> None) (bk_set i st) w (r, w')"
  using txn_status [OF assms(1) live_OnDB, of ctx i st "now (wenv w)"] rcallD [OF assms(2)]
  by (simp add: atomically_def outcome_def)

lemma Event_atomic:
  assumes "ok (wdb w)" and "rcall (ER_Create ER OnDB ctx (tx_event i ty f t p n)) w = (r, w')"
  shows "atomically (view OnDB) ok (\<lambda>_. True) (bk_log (tx_event i ty f t p 0)) w (r, w')"
  using event_create [OF assms(1) live_OnDB, of ctx "tx_event i ty f t p n" "now (wenv w)"] rcallD [OF assms(2)]
  by (simp add: atomically_def outcome_def bk_log_time [of _ _ _ _ _ n])

lemma emit_atomic:
  assumes "ok (wdb w)" and "emitOutboxEvent s ctx ty x n extra w = (r, w')"
  shows "atomically (view OnDB) ok (\<lambda>_. True)
    (emit_opt (if s_outbox s = None then None else Some (outbox_event ty (tx_payload x extra) 0))) w (r, w')"
proof (cases "s_outbox s")
  case None
  then show ?thesis using assms by (simp add: emitOutboxEvent_def atomically_def emit_opt_def)
next
  case (Some outbox)
  then have "rcall (OR_Create OR OnDB ctx (outbox_event ty (tx_payload x extra) n)) w = (r, w')"
    using assms(2) wiring(4) by (simp add: emitOutboxEvent_def tx_payload_Inr)
  from outbox_create [OF assms(1) live_OnDB, of ctx "outbox_event ty (tx_payload x extra) n" "now (wenv w)"] rcallD [OF this] Some
  show ?thesis
    by (simp add: atomically_def outcome_def emit_opt_def bk_emit_time [of _ _ n])
qed

lemma emitTransition_atomic:
  assumes "ok (wdb w)" and "to \<in> {TxStatusProcessing, TxStatusFailed}" and "emitTransitionOutboxEvent s ctx x to w = (r, w')"
  shows "atomically (view OnDB) ok (\<lambda>_. True)
    (emit_opt (message (s_outbox s \<noteq> None \<and> to = TxStatusFailed) ''transaction.failed'' x)) w (r, w')"
proof (cases "to = TxStatusFailed")
  case True
  with assms(3) have "emitOutboxEvent s ctx ''transaction.failed'' x (now (wenv w)) [] w = (r, w')"
    by (simp add: emitTransitionOutboxEvent_def)
  from emit_atomic [OF assms(1) this] True show ?thesis by (cases "s_outbox s") (simp_all add: message_def)
next
  case False
  with assms show ?thesis by (auto simp: emitTransitionOutboxEvent_def atomically_def emit_opt_def message_def)
qed

lemma rollback_steps:
  assumes "ok (wdb w)" and get: "bk_get (book_of w) (tx_ID x) = Some ((core x)\<lparr>tx_Status := to\<rparr>)"
    and can: "CanTransition (tx_Status x) to" "to \<in> {TxStatusProcessing, TxStatusFailed}"
    and run: "rollbackTransition s ctx x (tx_Status x) cause w = ((r, x'), w')"
  shows "ok (wdb w') \<and> ledger (book_of w) (book_of w') \<and> bk_bal (book_of w') = bk_bal (book_of w) \<and> x' = x \<and> r \<noteq> None"
proof -
  obtain r1 w1 where u: "rcall (TR_UpdateStatus TR OnDB ctx (tx_ID x) (tx_Status x)) w = (r1, w1)"
    by (cases "rcall (TR_UpdateStatus TR OnDB ctx (tx_ID x) (tx_Status x)) w")
  have "w' = w1 \<and> x' = x \<and> r \<noteq> None"
    using run u by (cases r1) (auto simp: rollbackTransition_def wiring)
  moreover have "ledger (book_of w) (bk_set (tx_ID x) (tx_Status x) (book_of w))"
    using get can by (auto intro!: ledger_step.undo)
  ultimately show ?thesis using UpdateStatus_atomic [OF assms(1) u] by (auto simp: atomically_def)
qed

text \<open>The part of \<open>transition\<close> after the status was written to the book \<open>b\<close>.\<close>

lemma record_transition_ledger:
  assumes ok: "ok (wdb w)" and book: "book_of w = bk_set (tx_ID x) to b" and path: "ledger b (book_of w)"
    and get: "bk_get b (tx_ID x) = Some (core x)"
    and can: "CanTransition (tx_Status x) to" "to \<in> {TxStatusProcessing, TxStatusFailed}"
    and run: "record_transition s ctx x to w = ((r, x'), w')"
  shows "ok (wdb w') \<and> ledger b (book_of w') \<and> bk_bal (book_of w') = bk_bal b
    \<and> x' = (if r = None then x\<lparr>tx_Status := to\<rparr> else x)
    \<and> (r = None \<longrightarrow> book_of w' = move_effect (s_outbox s \<noteq> None) x to b)" (is ?post)
proof -
  let ?ev = "\<lambda>n. tx_event (tx_ID x) (status_event to) (tx_Status x) to None n"
  obtain r1 w1 where e: "rcall (ER_Create ER OnDB ctx (?ev (now (wenv w)))) w = (r1, w1)"
    by (cases "rcall (ER_Create ER OnDB ctx (?ev (now (wenv w)))) w")
  note E = Event_atomic [OF ok e, unfolded atomically_def prod.case]
  have get1: "bk_get (book_of w1) (tx_ID x) = Some ((core x)\<lparr>tx_Status := to\<rparr>)" "bk_bal (book_of w1) = bk_bal b"
    using E book get by (auto simp: bk_get_set)
  have path1: "ledger b (book_of w1)" using E path ledger_log_after [OF path] by metis
  have rb: ?post if "rollbackTransition s ctx x (tx_Status x) cause v = ((r, x'), w')" "ok (wdb v)" "ledger b (book_of v)"
      "bk_get (book_of v) (tx_ID x) = Some ((core x)\<lparr>tx_Status := to\<rparr>)" "bk_bal (book_of v) = bk_bal b" for v cause
    using rollback_steps [OF that(2,4) can that(1)] that by auto
  show ?thesis
  proof (cases r1)
    case (Some err)
    then have "rollbackTransition s ctx x (tx_Status x) (wrapf ''record transition event: '' err) w1 = ((r, x'), w')"
      using run e by (simp add: record_transition_def wiring)
    then show ?thesis using rb path1 get1 E by blast
  next
    case None
    obtain r2 w2 where m: "emitTransitionOutboxEvent s ctx (x\<lparr>tx_Status := to\<rparr>) to w1 = (r2, w2)"
      by (cases "emitTransitionOutboxEvent s ctx (x\<lparr>tx_Status := to\<rparr>) to w1")
    note M = emitTransition_atomic [OF conjunct1 [OF E] can(2) m, unfolded atomically_def prod.case]
    have path2: "ledger b (book_of w2)" using M path1 ledger_emit_after [OF path1] by metis
    show ?thesis
    proof (cases r2)
      case (Some err)
      then have rolled: "rollbackTransition s ctx x (tx_Status x) (wrapf ''record transition outbox event: '' err) w2 = ((r, x'), w')"
        using run e None m by (simp add: record_transition_def wiring)
      have "bk_get (book_of w2) (tx_ID x) = bk_get (book_of w1) (tx_ID x) \<and> bk_bal (book_of w2) = bk_bal (book_of w1)"
        using M by (elim conjE disjE) simp_all
      then show ?thesis using rb [OF rolled conjunct1 [OF M] path2] get1 by simp
    next
      case n2: None
      then have "r = None \<and> x' = x\<lparr>tx_Status := to\<rparr> \<and> w' = w2"
        using run e None m by (auto simp: record_transition_def wiring)
      then show ?thesis using M E None n2 book path2 by (simp add: move_effect_def)
    qed
  qed
qed

lemma transition_ledger:
  assumes ok: "ok (wdb w)" and get: "bk_get (book_of w) (tx_ID x) = Some (core x)"
    and to: "to \<in> {TxStatusProcessing, TxStatusFailed}" and run: "transition s ctx x to w = ((r, x'), w')"
  shows "ok (wdb w') \<and> ledger (book_of w) (book_of w') \<and> bk_bal (book_of w') = bk_bal (book_of w)
    \<and> x' = (if r = None then x\<lparr>tx_Status := to\<rparr> else x)
    \<and> (r = None \<longrightarrow> CanTransition (tx_Status x) to \<and> book_of w' = move_effect (s_outbox s \<noteq> None) x to (book_of w))"
proof (cases "contextError ctx w = None \<and> CanTransition (tx_Status x) to")
  case False
  then show ?thesis using run ok by (auto simp: transition_def Let_def split: option.splits if_splits)
next
  case True
  obtain r1 w1 where u: "rcall (TR_UpdateStatus TR OnDB ctx (tx_ID x) to) w = (r1, w1)"
    by (cases "rcall (TR_UpdateStatus TR OnDB ctx (tx_ID x) to) w")
  note U = UpdateStatus_atomic [OF ok u, unfolded atomically_def prod.case]
  have path: "ledger (book_of w) (bk_set (tx_ID x) to (book_of w))" using get True to by (auto intro!: ledger_step.move)
  show ?thesis
  proof (cases r1)
    case (Some err)
    then have "r \<noteq> None \<and> x' = x \<and> w' = w1" using run True u by (auto simp: transition_def wiring)
    then show ?thesis using U path by auto
  next
    case None
    then have b1: "ok (wdb w1)" "book_of w1 = bk_set (tx_ID x) to (book_of w)" using U by auto
    moreover have "record_transition s ctx x to w1 = ((r, x'), w')"
      using run True u None by (simp add: transition_def wiring)
    ultimately show ?thesis
      using record_transition_ledger [OF b1 path [folded b1(2)] get conjunct2 [OF True] to] True by blast
  qed
qed

end

section \<open>The service on a transactional store\<close>

locale wired_db = transactional_repositories + wired +
  assumes db: "s_db s = Some D" "s_outbox s = Some OR" "pk"
begin

lemmas effects = create_effect_def complete_effect_def refund_effect_def message_def emit_opt_def tx_payload_def
  transactionOutboxPayload_def marshalOutboxPayload_def

lemma persist_db:
  assumes "ok (wdb w)" and "0 < sint (tx_AmountCents x)"
  shows "atomically (view OnDB) ok (\<lambda>b. bk_get b (tx_ID x) = None) (create_effect (s_outbox s \<noteq> None) x) w (persist s ctx x w)"
proof -
  obtain r w' where run: "persist s ctx x w = (r, w')" by (cases "persist s ctx x w")
  have "acts view live ok OnTx (\<lambda>b. bk_get b (tx_ID x) = None) (create_effect True x) (create_body s ctx x)"
    unfolding create_body_def wiring
    by (rule acts_weaken, rule acts_deref [OF db(2)], rule acts_check, rule acts_Create [OF db(3) assms(2)],
        rule acts_check, rule acts_Event, rule acts_bind [OF marshal_Inr], rule acts_check, rule acts_Outbox, rule acts_nil)
      (simp add: effects)
  from withTransaction_atomic [OF this assms(1), of ctx r w'] run show ?thesis
    by (simp add: persist_def db createInDBTransaction_def)
qed

lemma complete_db:
  assumes w: "ok (wdb w)" and x: "tx_Status x = TxStatusProcessing" and ctx: "\<And>t. ctx_Err ctx t = None"
    and run: "completePayment s ctx x w = ((r, x'), w')"
  shows "atomically (view OnDB) ok (bk_can_add (tx_MerchantID x) (sint (tx_AmountCents x)))
      (complete_effect (s_outbox s \<noteq> None) x) w (r, w')
    \<and> x' = (if r = None then x\<lparr>tx_Status := TxStatusCompleted\<rparr> else x)"
proof -
  let ?body = "complete_body s ctx x (now (wenv w))"
  obtain r1 w1 where t: "withTransaction ctx D ?body w = (r1, w1)" by (cases "withTransaction ctx D ?body w")
  have "acts view live ok OnTx (bk_can_add (tx_MerchantID x) (sint (tx_AmountCents x))) (complete_effect True x) ?body"
    unfolding complete_body_def Let_def wiring
    by (rule acts_weaken, rule acts_deref [OF db(2)], rule acts_check, rule acts_UpdateStatus,
        rule acts_check, rule acts_UpdateBalance, rule acts_check, rule acts_Event, rule acts_bind [OF tx_payload_Inr],
        rule acts_check, rule acts_Outbox, rule acts_nil)
      (simp add: complete_effect_def message_def emit_opt_def bk_can_add_def)
  from withTransaction_atomic [OF this w t]
  have "atomically (view OnDB) ok (bk_can_add (tx_MerchantID x) (sint (tx_AmountCents x))) (complete_effect True x) w (r1, w1)" .
  moreover have "contextError ctx w = None" using ctx by (cases ctx) (simp_all add: contextError_def)
  then have "r = r1 \<and> w' = w1 \<and> x' = (if r = None then x\<lparr>tx_Status := TxStatusCompleted\<rparr> else x)"
    using run t x by (cases r1) (auto simp: completePayment_def db completeInDBTransaction_def CanTransition_iff)
  ultimately show ?thesis by (simp add: db)
qed

lemma refund_db:
  assumes "ok (wdb w)" and "0 < sint (tx_AmountCents x)"
  shows "atomically (view OnDB) ok (bk_can_add (tx_MerchantID x) (- sint (tx_AmountCents x)))
    (refund_effect True True x reason) w (refund s ctx x reason w)"
proof -
  obtain r w' where run: "refund s ctx x reason w = (r, w')" by (cases "refund s ctx x reason w")
  have "acts view live ok OnTx (bk_can_add (tx_MerchantID x) (- sint (tx_AmountCents x))) (refund_effect True True x reason)
      (refund_body s ctx x reason)"
    unfolding refund_body_def wiring
    by (rule acts_weaken, rule acts_deref [OF db(2)], rule acts_check, rule acts_UpdateStatus,
        rule acts_check, rule acts_UpdateBalance, rule acts_bind [OF marshal_Inr], rule acts_check, rule acts_Event_dep,
        rule acts_bind [OF marshal_Inr], rule acts_Outbox_dep)
      (simp add: refund_effect_def refund_message_def refund_event_def emit_opt_def bk_can_add_def sint_minus_pos [OF assms(2)])
  from withTransaction_atomic [OF this assms(1), of ctx r w'] run show ?thesis
    by (simp add: refund_def db refundInDBTransaction_def)
qed

end

sublocale wired_db \<subseteq> db_store: payment_store s "view OnDB" ok pk
proof (unfold_locales, goal_cases)
  case (1 d)
  then show ?case by (rule ok_book [OF _ live_OnDB])
next
  case (2 d ctx k t kres d')
  then show ?case using txn_by_key [OF 2(1) live_OnDB, of ctx k t kres d'] by (auto simp: wiring reads_def)
next
  case (3 d ctx i t mres d')
  then show ?case using merchant_get [OF 3(1) live_OnDB, of ctx i t mres d'] by (auto simp: wiring reads_def)
next
  case (4 d ctx i t tres d')
  then show ?case using txn_get [OF 4(1) live_OnDB, of ctx i t tres d'] by (auto simp: wiring reads_def)
next
  case (5 w x ctx)
  then show ?case using persist_db by blast
next
  case (6 w x to ctx r x' w')
  then show ?case by (rule transition_ledger)
next
  case (7 w x ctx r x' w')
  then show ?case using complete_db by blast
next
  case (8 w x reason ctx)
  have "0 < sint (tx_AmountCents x)"
    using bk_get_ID [OF ok_book [OF 8(1) live_OnDB] 8(2)] by simp
  with 8 show ?case using refund_db [of w x reason ctx] by (simp add: db)
qed

section \<open>The service on an in-memory store\<close>

locale wired_mem = reliable_repositories + wired +
  assumes no_db: "s_db s = None"
begin

lemma mem_rcall:
  obtains r w1 where "rcall op w = (r, w1)" by (cases "rcall op w")

lemma mem_status:
  assumes "ok (wdb w)" and "bk_get (book_of w) i \<noteq> None"
  shows "\<exists>w1. rcall (TR_UpdateStatus TR OnDB ctx i st) w = (None, w1) \<and> ok (wdb w1)
    \<and> book_of w1 = bk_set i st (book_of w) \<and> now (wenv w) \<le> now (wenv w1)"
proof -
  obtain r w1 where u: "rcall (TR_UpdateStatus TR OnDB ctx i st) w = (r, w1)" by (rule mem_rcall)
  have "r = None" using status_reliable [OF assms(1) live_OnDB rcallD [OF u]] assms(2) by simp
  then show ?thesis
    using UpdateStatus_atomic [OF assms(1) u] u wquiet_trace [OF calmD [OF calm_rcall u]] by (auto simp: atomically_def)
qed

lemma mem_event:
  assumes "ok (wdb w)"
  shows "\<exists>w1. rcall (ER_Create ER OnDB ctx (tx_event i ty f t p n)) w = (None, w1) \<and> ok (wdb w1)
    \<and> book_of w1 = bk_log (tx_event i ty f t p 0) (book_of w)"
proof -
  obtain r w1 where u: "rcall (ER_Create ER OnDB ctx (tx_event i ty f t p n)) w = (r, w1)" by (rule mem_rcall)
  have "r = None" using event_reliable rcallD [OF u] by (metis fst_conv)
  then show ?thesis using Event_atomic [OF assms u] u by (auto simp: atomically_def)
qed

lemma mem_emit:
  assumes "ok (wdb w)"
  shows "\<exists>w1. emitOutboxEvent s ctx ty x n extra w = (None, w1) \<and> ok (wdb w1)
    \<and> book_of w1 = emit_opt (if s_outbox s = None then None else Some (outbox_event ty (tx_payload x extra) 0)) (book_of w)"
proof -
  obtain r w1 where u: "emitOutboxEvent s ctx ty x n extra w = (r, w1)" by (cases "emitOutboxEvent s ctx ty x n extra w")
  have "r = None"
  proof (cases "s_outbox s")
    case None
    then show ?thesis using u by (simp add: emitOutboxEvent_def)
  next
    case (Some outbox)
    then have "rcall (OR_Create OR OnDB ctx (outbox_event ty (tx_payload x extra) n)) w = (r, w1)"
      using u wiring(4) by (simp add: emitOutboxEvent_def tx_payload_Inr)
    from rcallD [OF this] show ?thesis using outbox_reliable by (metis fst_conv)
  qed
  then show ?thesis using emit_atomic [OF assms u] u by (auto simp: atomically_def)
qed

lemma mem_create:
  assumes "ok (wdb w)" and "bk_get (book_of w) (tx_ID x) = None" and "0 < sint (tx_AmountCents x)"
  shows "\<exists>w1. rcall (TR_Create TR OnDB ctx x) w = (None, w1) \<and> ok (wdb w1) \<and> book_of w1 = bk_put x (book_of w)"
proof -
  obtain r w1 where u: "rcall (TR_Create TR OnDB ctx x) w = (r, w1)" by (rule mem_rcall)
  have "r = None" using create_reliable rcallD [OF u] by (metis fst_conv)
  then show ?thesis
    using txn_create [OF assms(1) live_OnDB disjI2 [OF assms(2)] assms(3), of ctx "now (wenv w)"] rcallD [OF u] u
    by (simp add: outcome_def)
qed

lemma mem_balance:
  assumes "ok (wdb w)"
  shows "\<exists>r w1. rcall (MR_UpdateBalance MR OnDB ctx i a) w = (r, w1) \<and> ok (wdb w1)
    \<and> (if bk_can_add i (sint a) (book_of w) then r = None \<and> book_of w1 = bk_add i (sint a) (book_of w)
       else r \<noteq> None \<and> book_of w1 = book_of w) \<and> now (wenv w) \<le> now (wenv w1)"
proof -
  obtain r w1 where u: "rcall (MR_UpdateBalance MR OnDB ctx i a) w = (r, w1)" by (rule mem_rcall)
  have "book_of w1 = book_of w" if "r = Some err" for err
    using balance_err_frame [OF assms live_OnDB] rcallD [OF u] that by metis
  then show ?thesis
    using balance_update [OF assms live_OnDB, of ctx i a "now (wenv w)"] rcallD [OF u] u
      balance_reliable [OF assms live_OnDB rcallD [OF u]] wquiet_trace [OF calmD [OF calm_rcall u]]
    by (cases r) (auto simp: outcome_def)
qed

lemma persist_mem:
  assumes "ok (wdb w)" and "bk_get (book_of w) (tx_ID x) = None" and "0 < sint (tx_AmountCents x)"
  shows "\<exists>w'. persist s ctx x w = (None, w') \<and> ok (wdb w') \<and> book_of w' = create_effect (s_outbox s \<noteq> None) x (book_of w)"
proof -
  from mem_create [OF assms] obtain w1 where w1: "rcall (TR_Create TR OnDB ctx x) w = (None, w1)"
    "ok (wdb w1)" "book_of w1 = bk_put x (book_of w)" by blast
  let ?ev = "tx_event (tx_ID x) ''CREATED'' [] TxStatusPending None (tx_CreatedAt x)"
  from mem_event [OF w1(2)] obtain w2 where w2: "rcall (ER_Create ER OnDB ctx ?ev) w1 = (None, w2)" "ok (wdb w2)"
    "book_of w2 = bk_log (tx_event (tx_ID x) ''CREATED'' [] TxStatusPending None 0) (book_of w1)" by blast
  from mem_emit [OF w2(2)] obtain w3 where w3: "emitOutboxEvent s ctx ''transaction.created'' x (tx_CreatedAt x) [] w2 = (None, w3)"
    "ok (wdb w3)" "book_of w3 = emit_opt (if s_outbox s = None then None
        else Some (outbox_event ''transaction.created'' (tx_payload x []) 0)) (book_of w2)" by blast
  have "persist s ctx x w = (None, w3)"
    by (simp add: persist_def no_db createWithMocks_def check_def wiring w1 w2 w3)
  moreover have "book_of w3 = create_effect (s_outbox s \<noteq> None) x (book_of w)"
    by (simp add: w1 w2 w3 create_effect_def message_def)
  ultimately show ?thesis using w3(2) by blast
qed

lemma transition_completed_mem:
  assumes "ok (wdb w)" and "bk_get (book_of w) (tx_ID x) \<noteq> None" and x: "tx_Status x = TxStatusProcessing"
    and ctx: "contextError ctx w = None"
  shows "\<exists>w'. transition s ctx x TxStatusCompleted w = ((None, x\<lparr>tx_Status := TxStatusCompleted\<rparr>), w') \<and> ok (wdb w')
    \<and> book_of w' = emit_opt (message (s_outbox s \<noteq> None) ''transaction.completed'' (x\<lparr>tx_Status := TxStatusCompleted\<rparr>))
        (bk_log (tx_event (tx_ID x) (status_event TxStatusCompleted) (tx_Status x) TxStatusCompleted None 0)
          (bk_set (tx_ID x) TxStatusCompleted (book_of w)))"
proof -
  let ?to = TxStatusCompleted
  let ?ev = "\<lambda>n. tx_event (tx_ID x) (status_event ?to) (tx_Status x) ?to None n"
  from mem_status [OF assms(1,2)] obtain w1 where w1: "rcall (TR_UpdateStatus TR OnDB ctx (tx_ID x) ?to) w = (None, w1)"
    "ok (wdb w1)" "book_of w1 = bk_set (tx_ID x) ?to (book_of w)" by blast
  from mem_event [OF w1(2)] obtain w2 where w2: "rcall (ER_Create ER OnDB ctx (?ev (now (wenv w1)))) w1 = (None, w2)"
    "ok (wdb w2)" "book_of w2 = bk_log (?ev 0) (book_of w1)" by blast
  from mem_emit [OF w2(2)] obtain w3 where
    w3: "emitOutboxEvent s ctx ''transaction.completed'' (x\<lparr>tx_Status := ?to\<rparr>) (now (wenv w2)) [] w2 = (None, w3)"
    "ok (wdb w3)" "book_of w3 = emit_opt (if s_outbox s = None then None
       else Some (outbox_event ''transaction.completed'' (tx_payload (x\<lparr>tx_Status := ?to\<rparr>) []) 0)) (book_of w2)" by blast
  have "CanTransition (tx_Status x) ?to" using x by (simp add: CanTransition_iff)
  then have "transition s ctx x ?to w = ((None, x\<lparr>tx_Status := ?to\<rparr>), w3)"
    by (simp add: transition_def record_transition_def emitTransitionOutboxEvent_def Let_def ctx wiring w1 w2 w3)
  then show ?thesis using w1 w2 w3 by (simp add: message_def)
qed

lemma complete_mem:
  assumes w: "ok (wdb w)" and get: "bk_get (book_of w) (tx_ID x) \<noteq> None" and x: "tx_Status x = TxStatusProcessing"
    and ctx: "\<And>t. ctx_Err ctx t = None" and run: "completePayment s ctx x w = ((r, x'), w')"
  shows "atomically (view OnDB) ok (bk_can_add (tx_MerchantID x) (sint (tx_AmountCents x)))
      (complete_effect (s_outbox s \<noteq> None) x) w (r, w')
    \<and> x' = (if r = None then x\<lparr>tx_Status := TxStatusCompleted\<rparr> else x)
    \<and> (r = None \<longleftrightarrow> bk_can_add (tx_MerchantID x) (sint (tx_AmountCents x)) (book_of w))
    \<and> (r \<noteq> None \<longrightarrow> book_of w' = book_of w)"
proof -
  have live: "contextError ctx v = None" for v :: "'a world" using ctx by (cases ctx) (simp_all add: contextError_def)
  from mem_balance [OF w] obtain r1 w1 where
    w1: "rcall (MR_UpdateBalance MR OnDB ctx (tx_MerchantID x) (tx_AmountCents x)) w = (r1, w1)" "ok (wdb w1)"
      "if bk_can_add (tx_MerchantID x) (sint (tx_AmountCents x)) (book_of w)
       then r1 = None \<and> book_of w1 = bk_add (tx_MerchantID x) (sint (tx_AmountCents x)) (book_of w)
       else r1 \<noteq> None \<and> book_of w1 = book_of w" by metis
  show ?thesis
  proof (cases "bk_can_add (tx_MerchantID x) (sint (tx_AmountCents x)) (book_of w)")
    case False
    with w1 run have "r \<noteq> None \<and> x' = x \<and> w' = w1 \<and> book_of w1 = book_of w"
      by (auto simp: completePayment_def no_db completeWithMocks_def live wiring)
    then show ?thesis using w1(2) False by (cases r) (simp_all add: atomically_def)
  next
    case True
    with w1 have b1: "r1 = None" "book_of w1 = bk_add (tx_MerchantID x) (sint (tx_AmountCents x)) (book_of w)" by simp_all
    have "bk_get (book_of w1) (tx_ID x) \<noteq> None" using get b1 by simp
    from transition_completed_mem [OF w1(2) this x live] obtain w2 where
      w2: "transition s ctx x TxStatusCompleted w1 = ((None, x\<lparr>tx_Status := TxStatusCompleted\<rparr>), w2)" "ok (wdb w2)"
        "book_of w2 = complete_effect (s_outbox s \<noteq> None) x (book_of w)"
      by (auto simp: complete_effect_def b1 bk_set_add)
    then have "r = None \<and> x' = x\<lparr>tx_Status := TxStatusCompleted\<rparr> \<and> w' = w2"
      using run w1(1) b1(1) by (auto simp: completePayment_def no_db completeWithMocks_def live wiring)
    then show ?thesis using w2 True by (simp add: atomically_def)
  qed
qed

lemma refund_mem:
  assumes w: "ok (wdb w)" and get: "bk_get (book_of w) (tx_ID x) = Some (core x)" and x: "tx_Status x = TxStatusCompleted"
    and pos: "0 < sint (tx_AmountCents x)" and can: "bk_can_add (tx_MerchantID x) (- sint (tx_AmountCents x)) (book_of w)"
  shows "\<exists>w'. refund s ctx x reason w = (None, w') \<and> ok (wdb w')
    \<and> book_of w' = refund_effect False (s_outbox s \<noteq> None) x reason (book_of w)"
proof -
  let ?x = "x\<lparr>tx_Status := TxStatusRefunded\<rparr>"
  let ?p = "Some (JObject [(''reason'', JString reason)])"
  let ?ev = "\<lambda>n. tx_event (tx_ID x) ''REFUNDED'' TxStatusCompleted TxStatusRefunded ?p n"
  from mem_status [OF w] get obtain w1 where w1: "rcall (TR_UpdateStatus TR OnDB ctx (tx_ID x) TxStatusRefunded) w = (None, w1)"
    "ok (wdb w1)" "book_of w1 = bk_set (tx_ID x) TxStatusRefunded (book_of w)" by blast
  have "bk_can_add (tx_MerchantID x) (sint (- tx_AmountCents x)) (book_of w1)"
    using can by (simp add: w1 bk_can_add_def sint_minus_pos [OF pos])
  with mem_balance [OF w1(2), of ctx "tx_MerchantID x" "- tx_AmountCents x"] obtain w2 where
    w2: "rcall (MR_UpdateBalance MR OnDB ctx (tx_MerchantID x) (- tx_AmountCents x)) w1 = (None, w2)" "ok (wdb w2)"
      "book_of w2 = bk_add (tx_MerchantID x) (- sint (tx_AmountCents x)) (book_of w1)"
    by (auto simp: sint_minus_pos [OF pos])
  from mem_event [OF w2(2)] obtain w3 where w3: "rcall (ER_Create ER OnDB ctx (?ev (now (wenv w2)))) w2 = (None, w3)"
    "ok (wdb w3)" "book_of w3 = bk_log (?ev 0) (book_of w2)" by blast
  let ?msg = "if s_outbox s = None then None
     else Some (outbox_event ''transaction.refunded'' (tx_payload ?x [(''reason'', JString reason)]) 0)"
  from mem_emit [OF w3(2)] obtain w4 where
    w4: "emitOutboxEvent s ctx ''transaction.refunded'' ?x (now (wenv w3)) [(''reason'', JString reason)] w3 = (None, w4)"
    "ok (wdb w4)" "book_of w4 = emit_opt ?msg (book_of w3)" by blast
  have "refund s ctx x reason w = (None, w4)"
    by (simp add: refund_def no_db refundWithMocks_def check_def bind_def marshal_Inr Let_def wiring w1 w2 w3 w4)
  then show ?thesis using w1 w2 w3 w4
    by (intro exI [of _ w4]) (simp add: refund_effect_def refund_message_def refund_event_def)
qed

end

sublocale wired_mem \<subseteq> mem_store: payment_store s "view OnDB" "\<lambda>d. ok d \<and> solvent (view OnDB d)" False
proof (unfold_locales, goal_cases)
  case (1 d)
  then show ?case using ok_book [OF _ live_OnDB] by blast
next
  case (2 d ctx k t kres d')
  then show ?case using txn_by_key [OF _ live_OnDB, of d ctx k t kres d'] by (auto simp: wiring reads_def)
next
  case (3 d ctx i t mres d')
  then show ?case using merchant_get [OF _ live_OnDB, of d ctx i t mres d'] by (auto simp: wiring reads_def)
next
  case (4 d ctx i t tres d')
  then show ?case using txn_get [OF _ live_OnDB, of d ctx i t tres d'] by (auto simp: wiring reads_def)
next
  case (5 w x ctx)
  then obtain w' where w': "persist s ctx x w = (None, w')" "ok (wdb w')"
    "book_of w' = create_effect (s_outbox s \<noteq> None) x (book_of w)" using persist_mem [of w x ctx] by blast
  have "ledger (book_of w) (book_of w')" unfolding w'(3) using 5 by (intro r_into_rtranclp ledger_step.create) auto
  with w' 5 show ?case using solvent_ledger [of "book_of w" "book_of w'"] ok_book [OF _ live_OnDB]
    by (auto simp: atomically_def)
next
  case (6 w x to ctx r x' w')
  then show ?case
    using transition_ledger [of w x to ctx r x' w'] solvent_ledger [of "book_of w" "book_of w'"] ok_book [OF _ live_OnDB]
    by blast
next
  case (7 w x ctx r x' w')
  then have get: "bk_get (book_of w) (tx_ID x) \<noteq> None" by simp
  have "atomically (view OnDB) ok (bk_can_add (tx_MerchantID x) (sint (tx_AmountCents x)))
      (complete_effect (s_outbox s \<noteq> None) x) w (r, w')
    \<and> x' = (if r = None then x\<lparr>tx_Status := TxStatusCompleted\<rparr> else x)"
    using complete_mem [OF _ get 7(3) 7(4) 7(5)] 7(1) by blast
  moreover have "solvent (complete_effect (s_outbox s \<noteq> None) x (book_of w))"
    if "bk_can_add (tx_MerchantID x) (sint (tx_AmountCents x)) (book_of w)"
    using ledger_step.complete [OF 7(2,3) that] 7(1) ok_book [OF _ live_OnDB] solvent_ledger by blast
  ultimately show ?case using 7(1) by (auto simp: atomically_def)
next
  case (8 w x reason ctx)
  have book: "book_ok (book_of w)" using 8(1) ok_book [OF _ live_OnDB] by blast
  have can: "bk_can_add (tx_MerchantID x) (- sint (tx_AmountCents x)) (book_of w)"
    using solvent_can_refund [OF book _ 8(2)] 8 by simp
  have pos: "0 < sint (tx_AmountCents x)" using bk_get_ID [OF book 8(2)] by simp
  obtain w' where r: "refund s ctx x reason w = (None, w')" "ok (wdb w')"
    "book_of w' = refund_effect False (s_outbox s \<noteq> None) x reason (book_of w)"
    using refund_mem [OF _ 8(2,3) pos can] 8(1) by blast
  have "solvent (refund_effect False (s_outbox s \<noteq> None) x reason (book_of w))"
    using ledger_step.refund [OF 8(2,3) can] 8(1) book solvent_ledger by blast
  with r can show ?case by (simp add: atomically_def no_db)
qed

section \<open>The services of the program\<close>

text \<open>\<open>cmd/server/main.go\<close> wires the service to PostgreSQL; the tests of the service and of the handlers
  wire it to the in-memory repositories, some without an outbox.\<close>

definition pg_service ::
  "BankClient \<Rightarrow> BankChargeRequest RetryConfig \<Rightarrow> int \<Rightarrow> int64 \<Rightarrow> pgdb PaymentService" where
  "pg_service bank rc timeout maxCents =
     \<lparr>s_db = Some pg_sqlDB, s_merchants = pg_MerchantRepo, s_txns = pg_TransactionRepo, s_events = pg_EventRepo,
      s_outbox = Some pg_OutboxRepo, s_bank = bank, s_retry = rc, s_bankTimeout = timeout,
      s_maxTransactionCents = maxCents\<rparr>"

definition mock_service ::
  "bool \<Rightarrow> BankClient \<Rightarrow> BankChargeRequest RetryConfig \<Rightarrow> int \<Rightarrow> int64 \<Rightarrow> mockdb PaymentService" where
  "mock_service has_outbox bank rc timeout maxCents =
     \<lparr>s_db = None, s_merchants = mock_MerchantRepo, s_txns = mock_TransactionRepo, s_events = mock_EventRepo,
      s_outbox = (if has_outbox then Some mock_OutboxRepo else None), s_bank = bank, s_retry = rc,
      s_bankTimeout = timeout, s_maxTransactionCents = maxCents\<rparr>"

interpretation pgs: wired_db pg_MerchantRepo pg_TransactionRepo pg_EventRepo pg_OutboxRepo pg_view pg_live pg_ok
  True pg_sqlDB "pg_service bank rc timeout maxCents" for bank rc timeout maxCents
  by unfold_locales (simp_all add: pg_service_def)

interpretation mocks: wired_mem mock_MerchantRepo mock_TransactionRepo mock_EventRepo mock_OutboxRepo mock_view mock_live
  mock_ok False "mock_service has_outbox bank rc timeout maxCents" for has_outbox bank rc timeout maxCents
  by unfold_locales (simp_all add: mock_service_def)

end
