(* ===== verification/Payflow_Service.thy ===== *)
theory Payflow_Service
  imports Payflow_Store
begin

text \<open>
  The operations of the payment service against the contract \<open>payment_store\<close>: what
  \<open>processPayment\<close>, \<open>CreateTransaction\<close> and \<open>RefundTransaction\<close> do to the book and which requests they
  send to the bank, for every store that provides the contract and every bank client that meets
  \<open>bank_client\<close>. Each lemma is proved once here and used through the interpretations of
  \<open>Payflow_Store\<close>.
\<close>

section \<open>The bank call\<close>

text \<open>An approval that ended in environment \<open>e'\<close>.\<close>

definition approved :: "BankClient \<Rightarrow> BankChargeRequest \<Rightarrow> bool" where
  "approved charge req \<longleftrightarrow> (\<exists>ctx e e' resp. charge ctx req e = ((Some resp, None), e') \<and> br_Approved resp)"

text \<open>The retry configuration of the service as \<open>main\<close> sets it: the default timer and generator.\<close>

definition default_timing :: "'tr RetryConfig \<Rightarrow> bool" where
  "default_timing cfg \<longleftrightarrow> Sleep cfg = None \<and> Rand cfg = None"

definition attempts :: "'db PaymentService \<Rightarrow> nat" where
  "attempts s = nat (max 1 (MaxAttempts (s_retry s)))"

lemma Execute_cases:
  assumes "Execute fn cb e = (err, cb', e')"
  shows "(e' = e \<and> err = Some (Sentinel ErrCircuitOpen) \<and> cb' = cb) \<or> fn e = (err, e')"
  using assms beforeRequest_reject [of "now e" cb]
  by (auto simp: Execute_def split: prod.splits option.splits)

lemma charge_fn_sends:
  assumes "bank_client charge"
  shows "(case charge ctx req e of ((_, err), e1) \<Rightarrow> (err, e1)) = (r, e') \<Longrightarrow> \<exists>n \<le> 1. sends req n e e'"
  using bank_client.charge_sends [OF assms, of ctx req e] by (auto split: prod.splits)

lemma callBank_sends:
  assumes bank: "bank_client (s_bank s)" and cfg: "default_timing (s_retry s)"
    and run: "callBank s pctx bctx x w = (r, w')"
  shows "wdb w' = wdb w \<and> (\<exists>n \<le> attempts s. sends (charge_request x) n (wenv w) (wenv w'))"
proof -
  let ?fn = "\<lambda>attemptCtx e. case s_bank s attemptCtx (charge_request x) e of ((_, err), e1) \<Rightarrow> (err, e1)"
  obtain err cb e1 where ex: "Execute (Retry bctx (s_retry s) ?fn) (wbreaker w) (wenv w) = (err, cb, e1)"
    by (metis prod_cases3)
  have "\<exists>n \<le> attempts s. sends (charge_request x) n (wenv w) e1"
    using Execute_cases [OF ex]
  proof (elim disjE conjE)
    assume "Retry bctx (s_retry s) ?fn (wenv w) = (err, e1)"
    from Retry_attempts [OF _ _ charge_fn_sends [OF bank] this] cfg show ?thesis
      by (simp add: default_timing_def attempts_def)
  qed (auto intro: exI [of _ "0::nat"])
  then show ?thesis using run ex by (auto simp: callBank_def Let_def)
qed

lemma normalizeBankError_None [simp]: "normalizeBankError p b err t = None \<longleftrightarrow> err = None"
  by (simp add: normalizeBankError_def)

lemma callBank_approved:
  assumes bank: "bank_client (s_bank s)" and cfg: "default_timing (s_retry s)"
    and run: "callBank s pctx bctx x w = (None, w')"
  shows "approved (s_bank s) (charge_request x)"
proof -
  let ?fn = "\<lambda>attemptCtx e. case s_bank s attemptCtx (charge_request x) e of ((_, err), e1) \<Rightarrow> (err, e1)"
  obtain err cb e1 where ex: "Execute (Retry bctx (s_retry s) ?fn) (wbreaker w) (wenv w) = (err, cb, e1)"
    by (metis prod_cases3)
  have "err = None" using run ex by (simp add: callBank_def Let_def)
  then have "Retry bctx (s_retry s) ?fn (wenv w) = (None, e1)" using Execute_cases [OF ex] by auto
  then obtain e0 where "?fn bctx e0 = (None, e1)"
    unfolding Retry_def Let_def by (auto dest: retry_loop_success split: if_splits)
  then obtain resp where resp: "s_bank s bctx (charge_request x) e0 = ((resp, None), e1)"
    by (auto split: prod.splits)
  with bank_client.charge_approved [OF bank resp] show ?thesis by (auto simp: approved_def)
qed

section \<open>Paying\<close>

lemma charge_request_status [simp]: "charge_request (x\<lparr>tx_Status := st\<rparr>) = charge_request x"
  by (simp add: charge_request_def)

lemma postBankContext_alive: "ctx_Err (postBankContext ctx) t = None"
  by (cases ctx) (simp_all add: postBankContext_def)

lemma bk_get_emit_log [simp]: "bk_get (move_effect ob x to b) i = bk_get (bk_set (tx_ID x) to b) i"
  "bk_bal (move_effect ob x to b) = bk_bal b"
  by (simp_all add: move_effect_def)

lemma bk_get_effects:
  "bk_get b (tx_ID x) = Some (core x) \<Longrightarrow> bk_get (move_effect ob x to b) (tx_ID x) = Some (core (x\<lparr>tx_Status := to\<rparr>))"
  "bk_get b (tx_ID x) = None \<Longrightarrow> bk_get (create_effect ob x b) (tx_ID x) = Some (core x)"
  by (simp_all add: bk_get_set create_effect_def bk_get_put)

lemma ledger_complete:
  "bk_get b (tx_ID x) = Some (core x) \<Longrightarrow> tx_Status x = TxStatusProcessing \<Longrightarrow>
   bk_can_add (tx_MerchantID x) (sint (tx_AmountCents x)) b \<Longrightarrow> ledger b (complete_effect ob x b)"
  by (intro r_into_rtranclp ledger_step.complete)

text \<open>The whole of a successful payment as a function on books.\<close>

definition pay_effect :: "bool \<Rightarrow> Transaction \<Rightarrow> book \<Rightarrow> book" where
  "pay_effect ob x b =
     complete_effect ob (x\<lparr>tx_Status := TxStatusProcessing\<rparr>) (move_effect ob x TxStatusProcessing b)"

section \<open>Outcomes of \<open>CreateTransaction\<close>\<close>

text \<open>No identifier that the random source can still yield is in use.\<close>

definition fresh_ids :: "bank_env \<Rightarrow> book \<Rightarrow> bool" where
  "fresh_ids e b \<longleftrightarrow> (\<forall>e'. csprng e' = csprng e \<and> steps e \<le> steps e' \<longrightarrow> bk_get b (fst (generateTransactionID e')) = None)"

text \<open>
  Refused: no transaction is returned, nothing was sent to the bank, at most the pending transaction
  was recorded (when the answer to the commit was lost).
\<close>

definition refused :: "bool \<Rightarrow> CreateTransactionInput \<Rightarrow> book \<Rightarrow> bank_env \<Rightarrow> (Transaction option \<times> go_error option) \<Rightarrow> book \<Rightarrow> bank_env \<Rightarrow> bool" where
  "refused ob input b e = (\<lambda>(res, err) b' e'. res = None \<and> err \<noteq> None \<and> trace e' = trace e
     \<and> (b' = b \<or> (\<exists>i t. bk_get b i = None \<and> b' = create_effect ob (new_transaction input i t) b)))"

text \<open>Replayed: the transaction recorded under the idempotency key is returned, nothing else happens.\<close>

definition replayed :: "CreateTransactionInput \<Rightarrow> book \<Rightarrow> bank_env \<Rightarrow> (Transaction option \<times> go_error option) \<Rightarrow> book \<Rightarrow> bank_env \<Rightarrow> bool" where
  "replayed input b e = (\<lambda>(res, err) b' e'. err = None \<and> trace e' = trace e \<and> b' = b
     \<and> (\<exists>x. res = Some x \<and> in_IdempotencyKey input \<noteq> [] \<and> tx_IdempotencyKey x = in_IdempotencyKey input
          \<and> matchesIdempotentRequest x input \<and> bk_get b (tx_ID x) = Some (core x)))"

text \<open>
  Recorded: a new transaction was written to the book, then processed. Without an error the bank has
  approved it and the book has gone through \<open>pay_effect\<close>; the balances change only after an approval.
\<close>

definition recorded ::
  "'db PaymentService \<Rightarrow> CreateTransactionInput \<Rightarrow> book \<Rightarrow> bank_env \<Rightarrow> (Transaction option \<times> go_error option) \<Rightarrow> book \<Rightarrow> bank_env \<Rightarrow> bool" where
  "recorded s input b e = (\<lambda>(res, err) b' e'. \<exists>i t st. let x = new_transaction input i t; b1 = create_effect (s_outbox s \<noteq> None) x b in
     res = Some (x\<lparr>tx_Status := st\<rparr>) \<and> bk_get b i = None \<and> ledger b1 b'
   \<and> (\<exists>n \<le> attempts s. trace e' = trace e @ replicate n (charge_request x))
   \<and> (bk_bal b' \<noteq> bk_bal b \<longrightarrow> approved (s_bank s) (charge_request x))
   \<and> (err = None \<longrightarrow> st = TxStatusCompleted \<and> approved (s_bank s) (charge_request x)
        \<and> bk_can_add (tx_MerchantID x) (sint (tx_AmountCents x)) b \<and> b' = pay_effect (s_outbox s \<noteq> None) x b1))"

lemma outcome_trace:
  assumes "trace e1 = trace e"
  shows "refused ob input b e1 = refused ob input b e" "recorded s input b e1 = recorded s input b e"
  by (simp_all add: refused_def recorded_def assms)

lemma recordedI:
  assumes "x = new_transaction input i t" and "bk_get b i = None" and "ledger (create_effect (s_outbox s \<noteq> None) x b) b'"
    and "n \<le> attempts s" and "trace e' = trace e @ replicate n (charge_request x)"
    and "bk_bal b' \<noteq> bk_bal b \<Longrightarrow> approved (s_bank s) (charge_request x)"
    and "err = None \<Longrightarrow> st = TxStatusCompleted \<and> approved (s_bank s) (charge_request x)
        \<and> bk_can_add (tx_MerchantID x) (sint (tx_AmountCents x)) b
        \<and> b' = pay_effect (s_outbox s \<noteq> None) x (create_effect (s_outbox s \<noteq> None) x b)"
  shows "recorded s input b e (Some (x\<lparr>tx_Status := st\<rparr>), err) b' e'"
  unfolding recorded_def prod.case Let_def
  using assms by (intro exI [of _ i] exI [of _ t] exI [of _ st]) (blast intro: exI [of _ n])

lemma new_transaction_simps [simp]:
  "tx_ID (new_transaction input i t) = i" "tx_Status (new_transaction input i t) = TxStatusPending"
  "tx_MerchantID (new_transaction input i t) = in_MerchantID input"
  "tx_AmountCents (new_transaction input i t) = in_AmountCents input"
  by (simp_all add: new_transaction_def)

lemma bk_bal_create [simp]: "bk_bal (create_effect ob x b) = bk_bal b"
  by (simp add: create_effect_def)

lemma bk_can_add_create [simp]: "bk_can_add i n (create_effect ob x b) = bk_can_add i n b"
  by (simp add: bk_can_add_def)

context payment_store
begin

abbreviation V :: "'db world \<Rightarrow> book" where
  "V w \<equiv> view (wdb w)"

abbreviation ob :: bool where
  "ob \<equiv> s_outbox s \<noteq> None"

lemma settle_steps:
  assumes w: "ok (wdb w)" and get: "bk_get (V w) (tx_ID x) = Some (core x)" and st: "tx_Status x = TxStatusProcessing"
    and bank: "bank_client (s_bank s)" and cfg: "default_timing (s_retry s)"
    and call: "callBank s ctx bctx x w = (r, w1)"
    and settle: "(case r of Some err \<Rightarrow>
          (case transition s (postBankContext ctx) x TxStatusFailed w1 of
             ((Some transitionErr, tx2), w3) \<Rightarrow> ((Some (Join err (wrapf ''set failed status: '' transitionErr)), tx2), w3)
           | ((None, tx2), w3) \<Rightarrow> ((Some err, tx2), w3))
        | None \<Rightarrow> completePayment s (postBankContext ctx) x w1) = ((res, x'), w')"
  shows "ok (wdb w') \<and> ledger (V w) (V w')
    \<and> (\<exists>n \<le> attempts s. sends (charge_request x) n (wenv w) (wenv w'))
    \<and> (bk_bal (V w') \<noteq> bk_bal (V w) \<longrightarrow> approved (s_bank s) (charge_request x))
    \<and> (res = None \<longrightarrow> approved (s_bank s) (charge_request x) \<and> x' = x\<lparr>tx_Status := TxStatusCompleted\<rparr>
         \<and> bk_can_add (tx_MerchantID x) (sint (tx_AmountCents x)) (V w) \<and> V w' = complete_effect ob x (V w))
    \<and> (\<exists>st. x' = x\<lparr>tx_Status := st\<rparr>)"
proof -
  have w1: "wdb w1 = wdb w" and "\<exists>n \<le> attempts s. sends (charge_request x) n (wenv w) (wenv w1)"
    using callBank_sends [OF bank cfg call] by auto
  then obtain n where n: "n \<le> attempts s" "sends (charge_request x) n (wenv w) (wenv w1)" by blast
  have sent: "\<exists>n \<le> attempts s. sends (charge_request x) n (wenv w) (wenv w')" if "wquiet w1 w'"
    using that n sends_trans [OF n(2), of 0 "wenv w'"] by (auto simp: wquiet_def)
  have ok1: "ok (wdb w1)" and get1: "bk_get (V w1) (tx_ID x) = Some (core x)" using w get w1 by simp_all
  have same: "\<exists>st. x = x\<lparr>tx_Status := st\<rparr>" by (intro exI [of _ "tx_Status x"]) simp
  show ?thesis
  proof (cases r)
    case (Some err)
    obtain r2 x2 w2 where t: "transition s (postBankContext ctx) x TxStatusFailed w1 = ((r2, x2), w2)"
      by (metis prod.collapse)
    have "res \<noteq> None \<and> x' = x2 \<and> w' = w2" using settle Some t by (cases r2) auto
    then show ?thesis
      using transition_steps [OF ok1 get1 _ t] sent calmD [OF calm_transition t] same w1 by auto
  next
    case None
    then have c: "completePayment s (postBankContext ctx) x w1 = ((res, x'), w')" using settle by simp
    note app = callBank_approved [OF bank cfg call [unfolded None]]
    note C = complete_atomic [OF ok1 get1 st postBankContext_alive c, unfolded atomically_def prod.case w1]
    have "ledger (V w) (V w')" using C ledger_complete [OF get st] by (elim conjE disjE) simp_all
    then show ?thesis using C app sent [OF calmD [OF calm_completePayment c]] same by auto
  qed
qed

lemma processPayment_steps:
  assumes w: "ok (wdb w)" and get: "bk_get (V w) (tx_ID x) = Some (core x)" and st: "tx_Status x = TxStatusPending"
    and bank: "bank_client (s_bank s)" and cfg: "default_timing (s_retry s)"
    and run: "processPayment s ctx x w = ((res, x'), w')"
  shows "ok (wdb w') \<and> ledger (V w) (V w')
    \<and> (\<exists>n \<le> attempts s. sends (charge_request x) n (wenv w) (wenv w'))
    \<and> (bk_bal (V w') \<noteq> bk_bal (V w) \<longrightarrow> approved (s_bank s) (charge_request x))
    \<and> (res = None \<longrightarrow> approved (s_bank s) (charge_request x) \<and> x' = x\<lparr>tx_Status := TxStatusCompleted\<rparr>
         \<and> bk_can_add (tx_MerchantID x) (sint (tx_AmountCents x)) (V w) \<and> V w' = pay_effect ob x (V w))
    \<and> (\<exists>st. x' = x\<lparr>tx_Status := st\<rparr>)" (is ?post)
proof -
  have same: "\<exists>st. x = x\<lparr>tx_Status := st\<rparr>" by (intro exI [of _ "tx_Status x"]) simp
  obtain r1 x1 w1 where t: "transition s ctx x TxStatusProcessing w = ((r1, x1), w1)" by (metis prod.collapse)
  note T = transition_steps [OF w get _ t]
  have q: "\<exists>n \<le> attempts s. sends (charge_request x) n (wenv w) (wenv w1)"
    using calmD [OF calm_transition t] by (auto simp: wquiet_def intro: exI [of _ "0::nat"])
  show ?thesis
  proof (cases "contextError ctx w = None \<and> r1 = None")
    case False
    then have "(res \<noteq> None \<and> x' = x \<and> w' = w) \<or> (res \<noteq> None \<and> x' = x1 \<and> w' = w1 \<and> r1 \<noteq> None)"
      using run t by (cases "contextError ctx w"; cases r1) (auto simp: processPayment_def)
    then show ?thesis using T q w same by (auto intro: exI [of _ "0::nat"])
  next
    case True
    then have T': "ok (wdb w1)" "ledger (V w) (V w1)" "bk_bal (V w1) = bk_bal (V w)"
      "x1 = x\<lparr>tx_Status := TxStatusProcessing\<rparr>" "V w1 = move_effect ob x TxStatusProcessing (V w)"
      using T by auto
    define bctx where "bctx = bankCallContext ctx (s_bankTimeout s) w1"
    obtain r2 w2 where call: "callBank s ctx bctx x1 w1 = (r2, w2)" by (cases "callBank s ctx bctx x1 w1")
    have get1: "bk_get (V w1) (tx_ID x1) = Some (core x1)" using bk_get_effects(1) [OF get] by (simp add: T')
    have "(case r2 of Some err \<Rightarrow>
          (case transition s (postBankContext ctx) x1 TxStatusFailed w2 of
             ((Some transitionErr, tx2), w3) \<Rightarrow> ((Some (Join err (wrapf ''set failed status: '' transitionErr)), tx2), w3)
           | ((None, tx2), w3) \<Rightarrow> ((Some err, tx2), w3))
        | None \<Rightarrow> completePayment s (postBankContext ctx) x1 w2) = ((res, x'), w')"
      using run True t call by (cases r2) (simp_all add: processPayment_def bctx_def Let_def)
    note S = settle_steps [OF T'(1) get1 _ bank cfg call this]
    from S obtain n where "n \<le> attempts s" "sends (charge_request x1) n (wenv w1) (wenv w')" by (auto simp: T'(4))
    then have "\<exists>n \<le> attempts s. sends (charge_request x) n (wenv w) (wenv w')"
      using sends_trans [of "charge_request x" 0 "wenv w" "wenv w1" n "wenv w'"] calmD [OF calm_transition t]
      by (auto simp: wquiet_def T'(4))
    moreover have "ledger (V w) (V w')" using S T'(2) by (auto simp: T'(4) intro: rtranclp_trans)
    moreover have "bk_can_add i a (move_effect ob x to b) = bk_can_add i a b" for i a to b by (simp add: bk_can_add_def)
    ultimately show ?thesis using S T' same by (auto simp: pay_effect_def)
  qed
qed

lemma create_and_process_steps:
  assumes w: "ok (wdb w)" and ids: "pk \<or> fresh_ids (wenv w) (V w)" and pos: "0 < sint (in_AmountCents input)"
    and known: "bk_bal (V w) (in_MerchantID input) \<noteq> None"
    and bank: "bank_client (s_bank s)" and cfg: "default_timing (s_retry s)"
    and run: "create_and_process s ctx input w = (res, w')"
  shows "ok (wdb w') \<and> ledger (V w) (V w')
    \<and> (refused ob input (V w) (wenv w) res (V w') (wenv w') \<or> recorded s input (V w) (wenv w) res (V w') (wenv w'))"
proof -
  obtain i e1 where g: "generateTransactionID (wenv w) = (i, e1)" by (cases "generateTransactionID (wenv w)")
  define x where "x = new_transaction input i (now (wenv w))"
  define w1 where "w1 = w\<lparr>wenv := e1\<rparr>"
  have e1: "trace e1 = trace (wenv w)" using g by (auto simp: generateTransactionID_def Let_def split: option.splits)
  obtain r w2 where p: "persist s ctx x w1 = (r, w2)" by (cases "persist s ctx x w1")
  have t2: "trace (wenv w2) = trace (wenv w)" using wquiet_trace [OF calmD [OF calm_persist p]] e1 by (simp add: w1_def)
  have "pk \<or> bk_get (V w1) (tx_ID x) = None" using ids g by (force simp: fresh_ids_def w1_def x_def)
  from persist_atomic [of w1 x ctx, OF _ this] w pos known p
  have P: "ok (wdb w2) \<and> (V w2 = V w \<or> bk_get (V w) i = None \<and> V w2 = create_effect ob x (V w))
      \<and> (r = None \<longrightarrow> bk_get (V w) i = None \<and> V w2 = create_effect ob x (V w))"
    by (simp add: x_def w1_def atomically_def)
  have create: "ledger (V w) (create_effect ob x (V w))" if "bk_get (V w) i = None"
    using that pos known by (intro r_into_rtranclp ledger_step.create) (simp_all add: x_def)
  have start: "create_and_process s ctx input w = (case r of Some err \<Rightarrow> ((None, Some err), w2)
      | None \<Rightarrow> (case processPayment s ctx x w2 of
           ((Some err, tx1), w3) \<Rightarrow> ((Some tx1, Some err), w3) | ((None, tx1), w3) \<Rightarrow> ((Some tx1, None), w3)))"
    using g p by (simp add: create_and_process_def x_def w1_def Let_def split: option.splits)
  show ?thesis
  proof (cases r)
    case (Some err)
    then have "res = (None, Some err) \<and> w' = w2" using run start by auto
    then show ?thesis using P t2 create by (auto simp: refused_def x_def)
  next
    case None
    then have P': "ok (wdb w2)" "bk_get (V w) i = None" "V w2 = create_effect ob x (V w)" using P by auto
    obtain r3 x3 w3 where q: "processPayment s ctx x w2 = ((r3, x3), w3)" by (metis prod.collapse)
    have res: "res = (Some x3, r3) \<and> w' = w3" using run start None q by (cases r3) auto
    have get: "bk_get (V w2) (tx_ID x) = Some (core x)" using bk_get_effects(2) [of "V w" x ob] P' by (simp add: x_def)
    note S = processPayment_steps [OF P'(1) get _ bank cfg q]
    from S obtain n st where n: "n \<le> attempts s" "sends (charge_request x) n (wenv w2) (wenv w3)" "x3 = x\<lparr>tx_Status := st\<rparr>"
      by (auto simp: x_def)
    have "recorded s input (V w) (wenv w) (Some (x\<lparr>tx_Status := st\<rparr>), r3) (V w3) (wenv w3)"
    proof (rule recordedI [OF x_def P'(2) _ n(1)])
      show "trace (wenv w3) = trace (wenv w) @ replicate n (charge_request x)" using n(2) t2 by (simp add: sends_def)
      show "ledger (create_effect ob x (V w)) (V w3)" using S P'(3) by (simp add: x_def)
      show "approved (s_bank s) (charge_request x)" if "bk_bal (V w3) \<noteq> bk_bal (V w)"
        using S P'(3) that by (simp add: x_def)
      show "st = TxStatusCompleted \<and> approved (s_bank s) (charge_request x)
          \<and> bk_can_add (tx_MerchantID x) (sint (tx_AmountCents x)) (V w)
          \<and> V w3 = pay_effect ob x (create_effect ob x (V w))" if "r3 = None"
      proof -
        have "tx_Status x3 = TxStatusCompleted" using S that by (auto simp: x_def)
        then show ?thesis using S P'(3) that n(3) by (simp add: x_def)
      qed
    qed
    then have "recorded s input (V w) (wenv w) res (V w') (wenv w')" using res n(3) by simp
    moreover have "ledger (V w) (V w')"
      using S create [OF P'(2)] P'(3) res by (auto simp: x_def intro: rtranclp_trans)
    ultimately show ?thesis using S res by (simp add: x_def)
  qed
qed

lemma validate_and_create_steps:
  assumes w: "ok (wdb w)" and ids: "pk \<or> fresh_ids (wenv w) (V w)"
    and bank: "bank_client (s_bank s)" and cfg: "default_timing (s_retry s)"
    and run: "validate_and_create s ctx input w = (res, w')"
  shows "ok (wdb w') \<and> ledger (V w) (V w')
    \<and> (refused ob input (V w) (wenv w) res (V w') (wenv w') \<or> recorded s input (V w) (wenv w) res (V w') (wenv w'))"
proof -
  obtain r w1 where m: "rcall (MR_GetByID (s_merchants s) OnDB ctx (in_MerchantID input)) w = (r, w1)"
    by (cases "rcall (MR_GetByID (s_merchants s) OnDB ctx (in_MerchantID input)) w")
  note M = merchant_lookup [OF w rcallD [OF m]]
  have e1: "trace (wenv w1) = trace (wenv w)" "csprng (wenv w1) = csprng (wenv w)" "steps (wenv w) \<le> steps (wenv w1)"
    using calmD [OF calm_rcall m] by (auto simp: wquiet_def sends_def)
  have "res = (None, Some err) \<and> w' = w1" if "r = Inl err" for err
    using run m that by (auto simp: validate_and_create_def)
  moreover have "(\<exists>err. res = (None, Some err) \<and> w' = w1)
      \<or> create_and_process s ctx input w1 = (res, w') \<and> 0 < sint (in_AmountCents input)" if "r = Inr m" for m
    using run m that by (auto simp: validate_and_create_def split: if_splits)
  ultimately consider (refuse) err where "res = (None, Some err)" "w' = w1"
    | (go) m where "r = Inr m" "create_and_process s ctx input w1 = (res, w')" "0 < sint (in_AmountCents input)"
    by (cases r) blast+
  then show ?thesis
  proof cases
    case refuse
    then show ?thesis using M e1 by (simp add: refused_def)
  next
    case go
    have "pk \<or> fresh_ids (wenv w1) (V w1)" using ids M e1 by (auto simp: fresh_ids_def)
    from create_and_process_steps [OF _ this go(3) _ bank cfg go(2)] M go(1) show ?thesis
      by (simp add: outcome_trace [OF e1(1)])
  qed
qed

lemma CreateTransaction_steps:
  assumes w: "ok (wdb w)" and ids: "pk \<or> fresh_ids (wenv w) (V w)"
    and bank: "bank_client (s_bank s)" and cfg: "default_timing (s_retry s)"
    and run: "CreateTransaction s ctx input w = (res, w')"
  shows "ok (wdb w') \<and> ledger (V w) (V w')
    \<and> (refused ob input (V w) (wenv w) res (V w') (wenv w') \<or> replayed input (V w) (wenv w) res (V w') (wenv w')
       \<or> recorded s input (V w) (wenv w) res (V w') (wenv w'))"
proof (cases "contextError ctx w")
  case (Some err)
  then have "res = (None, Some err) \<and> w' = w" using run by (auto simp: CreateTransaction_def)
  then show ?thesis using w by (simp add: refused_def)
next
  case None
  let ?get = "rcall (TR_GetByIdempotencyKey (s_txns s) OnDB ctx (in_IdempotencyKey input))"
  show ?thesis
  proof (cases "in_IdempotencyKey input = []")
    case True
    then have "validate_and_create s ctx input w = (res, w')" using run None by (simp add: CreateTransaction_def)
    from validate_and_create_steps [OF w ids bank cfg this] show ?thesis by blast
  next
    case False
    obtain r w1 where k: "?get w = (r, w1)" by (cases "?get w")
    note K = key_lookup [OF w rcallD [OF k]]
    have e1: "trace (wenv w1) = trace (wenv w)" "csprng (wenv w1) = csprng (wenv w)" "steps (wenv w) \<le> steps (wenv w1)"
      using calmD [OF calm_rcall k] by (auto simp: wquiet_def sends_def)
    have body: "CreateTransaction s ctx input w = (case r of Inl err \<Rightarrow> ((None, Some (wrapf ''idempotency check: '' err)), w1)
        | Inr (Some existing) \<Rightarrow> if \<not> matchesIdempotentRequest existing input
            then ((None, Some (Errorf [] (Sentinel ErrDuplicateTransaction)
                                 '': idempotency key reused with different request'')), w1)
            else ((Some existing, None), w1)
        | Inr None \<Rightarrow> validate_and_create s ctx input w1)"
      using None False k by (simp add: CreateTransaction_def split: sum.splits option.splits)
    show ?thesis
    proof (cases "r = Inr None")
      case True
      then have v: "validate_and_create s ctx input w1 = (res, w')" using run body by simp
      have "pk \<or> fresh_ids (wenv w1) (V w1)" using ids K e1 by (auto simp: fresh_ids_def)
      from validate_and_create_steps [OF _ this bank cfg v] K show ?thesis
        by (auto simp: outcome_trace [OF e1(1)])
    next
      case False2: False
      then show ?thesis using run body K e1 False
        by (auto simp: refused_def replayed_def split: sum.splits option.splits if_splits)
    qed
  qed
qed

lemma ownedTransaction_steps:
  assumes w: "ok (wdb w)" and run: "ownedTransaction s ctx m i w = (res, w')"
  shows "ok (wdb w') \<and> V w' = V w \<and> wquiet w w'
    \<and> (\<forall>x. res = Inr x \<longrightarrow> tx_ID x = i \<and> tx_MerchantID x = m \<and> bk_get (V w) i = Some (core x))"
proof -
  obtain r w1 where g: "rcall (TR_GetByID (s_txns s) OnDB ctx i) w = (r, w1)"
    by (cases "rcall (TR_GetByID (s_txns s) OnDB ctx i) w")
  have "w' = w1 \<and> (\<forall>x. res = Inr x \<longrightarrow> r = Inr x \<and> tx_MerchantID x = m)"
    using run g by (cases r) (auto simp: ownedTransaction_def split: if_splits)
  then show ?thesis using txn_lookup [OF w rcallD [OF g]] calmD [OF calm_rcall g] by blast
qed

text \<open>A refund: refused without effect, or the one effect on a completed transaction of the merchant.\<close>

lemma RefundTransaction_steps:
  assumes w: "ok (wdb w)" and run: "RefundTransaction s ctx m i reason w = (res, w')"
  shows "ok (wdb w') \<and> ledger (V w) (V w') \<and> wquiet w w'
    \<and> (V w' = V w \<and> (\<exists>err. res = Inl err)
       \<or> (\<exists>x. tx_ID x = i \<and> tx_MerchantID x = m \<and> tx_Status x = TxStatusCompleted \<and> bk_get (V w) i = Some (core x)
            \<and> bk_can_add m (- sint (tx_AmountCents x)) (V w) \<and> V w' = refund_effect (s_db s \<noteq> None) (s_outbox s \<noteq> None) x reason (V w)
            \<and> (\<forall>y. res = Inr y \<longrightarrow> y = x\<lparr>tx_Status := TxStatusRefunded\<rparr>)))"
proof -
  obtain r w1 where o1: "ownedTransaction s ctx m i w = (r, w1)" by (cases "ownedTransaction s ctx m i w")
  note O = ownedTransaction_steps [OF w o1]
  show ?thesis
  proof (cases "contextError ctx w = None \<and> (\<exists>x. r = Inr x \<and> CanTransition (tx_Status x) TxStatusRefunded)")
    case False
    then have "(\<exists>err. res = Inl err) \<and> (w' = w \<or> w' = w1)"
      using run o1 by (cases "contextError ctx w"; cases r) (auto simp: RefundTransaction_def)
    then show ?thesis using O w by auto
  next
    case True
    then obtain x where x: "r = Inr x" "tx_Status x = TxStatusCompleted" by (auto simp: CanTransition_iff)
    obtain r2 w2 where f: "refund s ctx x reason w1 = (r2, w2)" by (cases "refund s ctx x reason w1")
    have res: "w' = w2 \<and> res = (case r2 of Some err \<Rightarrow> Inl err | None \<Rightarrow> Inr (x\<lparr>tx_Status := TxStatusRefunded\<rparr>))"
      using run o1 True x f by (cases r2) (auto simp: RefundTransaction_def)
    have X: "ok (wdb w1)" "tx_ID x = i" "tx_MerchantID x = m" "bk_get (V w1) (tx_ID x) = Some (core x)"
      "V w1 = V w" "wquiet w w1" using O x by auto
    from refund_atomic [OF X(1,4) x(2), of reason ctx] have
      R: "ok (wdb w2)" "V w2 = V w1 \<or> bk_can_add m (- sint (tx_AmountCents x)) (V w1) \<and> V w2 = refund_effect (s_db s \<noteq> None) (s_outbox s \<noteq> None) x reason (V w1)"
         "r2 = None \<longrightarrow> bk_can_add m (- sint (tx_AmountCents x)) (V w1) \<and> V w2 = refund_effect (s_db s \<noteq> None) (s_outbox s \<noteq> None) x reason (V w1)"
      by (auto simp: f atomically_def X(3))
    have q: "wquiet w w'" using wquiet_trans [OF X(6) calmD [OF calm_refund f]] res by simp
    have step: "ledger (V w) (refund_effect (s_db s \<noteq> None) (s_outbox s \<noteq> None) x reason (V w))" if "bk_can_add m (- sint (tx_AmountCents x)) (V w)"
      using that X x by (intro r_into_rtranclp ledger_step.refund) auto
    show ?thesis
    proof (cases "V w2 = V w1 \<and> r2 \<noteq> None")
      case True
      then show ?thesis using R(1) res X(5) q by auto
    next
      case False
      then have "bk_can_add m (- sint (tx_AmountCents x)) (V w1) \<and> V w2 = refund_effect (s_db s \<noteq> None) (s_outbox s \<noteq> None) x reason (V w1)"
        using R(2,3) by blast
      then have E: "bk_can_add m (- sint (tx_AmountCents x)) (V w)" "V w' = refund_effect (s_db s \<noteq> None) (s_outbox s \<noteq> None) x reason (V w)"
        by (simp_all only: X(5) conjunct1 [OF res])
      moreover have "\<forall>y. res = Inr y \<longrightarrow> y = x\<lparr>tx_Status := TxStatusRefunded\<rparr>" using res by (auto split: option.splits)
      ultimately show ?thesis using R(1) res X x step [OF E(1)] q by (intro conjI disjI2 exI [of _ x]) auto
    qed
  qed
qed

end

text \<open>What has passed the checks when a call of \<open>CreateTransaction\<close> has any effect: \<open>m\<close> is what the lookup of
  the merchant returned, at most the lookup of the idempotency key came before it.\<close>

definition admitted ::
  "'db PaymentService \<Rightarrow> go_context \<Rightarrow> CreateTransactionInput \<Rightarrow> 'db \<Rightarrow> Merchant \<Rightarrow> bool" where
  "admitted s ctx input d m \<longleftrightarrow>
     (\<exists>d0 t t'. (d0 = d \<or> (\<exists>r. TR_GetByIdempotencyKey (s_txns s) OnDB ctx (in_IdempotencyKey input) t d = (r, d0)))
        \<and> fst (MR_GetByID (s_merchants s) OnDB ctx (in_MerchantID input) t' d0) = Inr m)
   \<and> IsActive m \<and> 0 < sint (in_AmountCents input) \<and> sint (in_AmountCents input) \<le> sint (s_maxTransactionCents s)
   \<and> in_Currency input \<in> {''CAD'', ''USD''}"

lemma validate_admitted:
  assumes "validate_and_create s ctx input w = (res, w')"
  shows "(\<exists>r t. MR_GetByID (s_merchants s) OnDB ctx (in_MerchantID input) t (wdb w) = (r, wdb w') \<and> wquiet w w')
    \<or> (\<exists>m t. fst (MR_GetByID (s_merchants s) OnDB ctx (in_MerchantID input) t (wdb w)) = Inr m \<and> IsActive m
         \<and> 0 < sint (in_AmountCents input) \<and> sint (in_AmountCents input) \<le> sint (s_maxTransactionCents s)
         \<and> in_Currency input \<in> {''CAD'', ''USD''})"
proof -
  obtain r w1 where m: "rcall (MR_GetByID (s_merchants s) OnDB ctx (in_MerchantID input)) w = (r, w1)"
    by (cases "rcall (MR_GetByID (s_merchants s) OnDB ctx (in_MerchantID input)) w")
  note M = rcallD [OF m] calmD [OF calm_rcall m]
  show ?thesis
  proof (cases "w' = w1")
    case True
    then show ?thesis using M by blast
  next
    case False
    then obtain mer where r: "r = Inr mer" "IsActive mer" "0 < sint (in_AmountCents input)"
      "sint (in_AmountCents input) \<le> sint (s_maxTransactionCents s)" "in_Currency input \<in> {''CAD'', ''USD''}"
      using assms m by (cases r) (auto simp: validate_and_create_def split: if_splits)
    then show ?thesis using M(1) by (metis fst_conv)
  qed
qed

context payment_store
begin

lemma CreateTransaction_admitted:
  assumes w: "ok (wdb w)" and run: "CreateTransaction s ctx input w = (res, w')"
    and effect: "view (wdb w') \<noteq> view (wdb w) \<or> trace (wenv w') \<noteq> trace (wenv w)"
  shows "\<exists>m. admitted s ctx input (wdb w) m"
proof -
  have alive: "contextError ctx w = None" using run effect by (auto simp: CreateTransaction_def split: option.splits)
  show ?thesis
  proof (cases "in_IdempotencyKey input = []")
    case True
    then have v: "validate_and_create s ctx input w = (res, w')" using run alive by (simp add: CreateTransaction_def)
    have no: "\<not> (MR_GetByID (s_merchants s) OnDB ctx (in_MerchantID input) t (wdb w) = (r, wdb w') \<and> wquiet w w')" for r t
      using merchant_lookup [OF w] effect wquiet_trace [of w w'] by blast
    show ?thesis using validate_admitted [OF v] no unfolding admitted_def by blast
  next
    case False
    let ?get = "rcall (TR_GetByIdempotencyKey (s_txns s) OnDB ctx (in_IdempotencyKey input))"
    obtain r w1 where k: "?get w = (r, w1)" by (cases "?get w")
    note K = key_lookup [OF w rcallD [OF k]] and Q = wquiet_trace [OF calmD [OF calm_rcall k]]
    have "w' \<noteq> w1" using effect K Q by auto
    then have v: "validate_and_create s ctx input w1 = (res, w')"
      using run alive False k by (auto simp: CreateTransaction_def split: sum.splits option.splits if_splits)
    have no: "\<not> (MR_GetByID (s_merchants s) OnDB ctx (in_MerchantID input) t (wdb w1) = (r, wdb w') \<and> wquiet w1 w')" for r t
      using merchant_lookup [of "wdb w1"] effect K Q wquiet_trace [of w1 w'] by auto
    show ?thesis using validate_admitted [OF v] no rcallD [OF k] unfolding admitted_def by blast
  qed
qed

end

section \<open>Settling in memory\<close>

text \<open>Repositories that do not fail let every payment be settled.\<close>

context wired_mem
begin

lemma transition_mem:
  assumes ok: "ok (wdb w)" and get: "bk_get (book_of w) (tx_ID x) = Some (core x)"
    and to: "to \<in> {TxStatusProcessing, TxStatusFailed}" and can: "CanTransition (tx_Status x) to"
    and ctx: "contextError ctx w = None"
  shows "\<exists>w'. transition s ctx x to w = ((None, x\<lparr>tx_Status := to\<rparr>), w') \<and> ok (wdb w')
    \<and> book_of w' = move_effect (s_outbox s \<noteq> None) x to (book_of w)"
proof -
  let ?ev = "\<lambda>n. tx_event (tx_ID x) (status_event to) (tx_Status x) to None n"
  from mem_status [OF ok] get obtain w1 where w1: "rcall (TR_UpdateStatus TR OnDB ctx (tx_ID x) to) w = (None, w1)" "ok (wdb w1)"
    by blast
  from mem_event [OF w1(2)] obtain w2 where w2: "rcall (ER_Create ER OnDB ctx (?ev (now (wenv w1)))) w1 = (None, w2)"
    "ok (wdb w2)" by blast
  obtain w3 where w3: "emitTransitionOutboxEvent s ctx (x\<lparr>tx_Status := to\<rparr>) to w2 = (None, w3)"
  proof (cases "to = TxStatusFailed")
    case True
    from mem_emit [OF w2(2), of ctx "''transaction.failed''" "x\<lparr>tx_Status := to\<rparr>" "now (wenv w2)" "[]"] True that
    show ?thesis by (auto simp: emitTransitionOutboxEvent_def)
  next
    case False
    then show ?thesis using to that by (auto simp: emitTransitionOutboxEvent_def)
  qed
  have run: "transition s ctx x to w = ((None, x\<lparr>tx_Status := to\<rparr>), w3)"
    using can by (simp add: transition_def record_transition_def Let_def ctx wiring w1 w2 w3)
  from transition_ledger [OF ok get to this] run show ?thesis by blast
qed

lemma processPayment_mem:
  assumes ok: "ok (wdb w)" and get: "bk_get (book_of w) (tx_ID x) = Some (core x)" and st: "tx_Status x = TxStatusPending"
    and ctx: "contextError ctx w = None" and bank: "bank_client (s_bank s)" and cfg: "default_timing (s_retry s)"
    and run: "processPayment s ctx x w = ((res, x'), w')"
  defines "ob \<equiv> s_outbox s \<noteq> None"
  defines "b1 \<equiv> move_effect ob x TxStatusProcessing (book_of w)"
  shows "res \<noteq> None \<and> book_of w' = move_effect ob (x\<lparr>tx_Status := TxStatusProcessing\<rparr>) TxStatusFailed b1
      \<and> x' = x\<lparr>tx_Status := TxStatusFailed\<rparr>
    \<or> res = None \<and> book_of w' = pay_effect ob x (book_of w) \<and> x' = x\<lparr>tx_Status := TxStatusCompleted\<rparr>
    \<or> res \<noteq> None \<and> book_of w' = b1 \<and> x' = x\<lparr>tx_Status := TxStatusProcessing\<rparr>
      \<and> approved (s_bank s) (charge_request x) \<and> \<not> bk_can_add (tx_MerchantID x) (sint (tx_AmountCents x)) (book_of w)"
proof -
  let ?x = "x\<lparr>tx_Status := TxStatusProcessing\<rparr>"
  obtain w1 where t: "transition s ctx x TxStatusProcessing w = ((None, ?x), w1)" "ok (wdb w1)" "book_of w1 = b1"
    using transition_mem [OF ok get _ _ ctx, of TxStatusProcessing] st by (auto simp: b1_def ob_def CanTransition_iff)
  have get1: "bk_get (book_of w1) (tx_ID ?x) = Some (core ?x)"
    using bk_get_effects(1) [OF get] by (simp add: t(3) b1_def)
  define bctx where "bctx = bankCallContext ctx (s_bankTimeout s) w1"
  obtain r w2 where call: "callBank s ctx bctx ?x w1 = (r, w2)" by (cases "callBank s ctx bctx ?x w1")
  then have w2: "wdb w2 = wdb w1" using callBank_sends [OF bank cfg call] by simp
  then have S2: "ok (wdb w2)" "bk_get (book_of w2) (tx_ID ?x) = Some (core ?x)" "book_of w2 = b1" using t get1 by simp_all
  have live: "contextError (postBankContext ctx) v = None" for v :: "'a world"
    using postBankContext_alive [of ctx] by (cases "postBankContext ctx") (simp_all add: contextError_def)
  show ?thesis
  proof (cases r)
    case (Some err)
    obtain w3 where f: "transition s (postBankContext ctx) ?x TxStatusFailed w2 = ((None, x\<lparr>tx_Status := TxStatusFailed\<rparr>), w3)"
      "book_of w3 = move_effect ob ?x TxStatusFailed b1"
      using transition_mem [OF S2(1,2) _ _ live, of TxStatusFailed] S2(3) by (auto simp: ob_def CanTransition_iff)
    have "processPayment s ctx x w = ((Some err, x\<lparr>tx_Status := TxStatusFailed\<rparr>), w3)"
      using ctx t(1) call Some f(1) by (simp add: processPayment_def bctx_def [symmetric])
    then show ?thesis using run f(2) by simp
  next
    case None
    then have c: "completePayment s (postBankContext ctx) ?x w2 = ((res, x'), w')"
      using run ctx t(1) call by (simp add: processPayment_def bctx_def [symmetric])
    have alive: "\<And>u. ctx_Err (postBankContext ctx) u = None" by (rule postBankContext_alive)
    have "bk_get (book_of w2) (tx_ID ?x) \<noteq> None" using S2(2) by simp
    note C = complete_mem [OF S2(1) this _ alive c]
    have app: "approved (s_bank s) (charge_request x)" using callBank_approved [OF bank cfg call [unfolded None]] by simp
    have "bk_can_add i a b1 = bk_can_add i a (book_of w)" for i a by (simp add: b1_def bk_can_add_def)
    then show ?thesis using C app S2(3)
      by (cases res) (simp_all add: atomically_def pay_effect_def ob_def, simp_all add: b1_def ob_def)
  qed
qed

end

section \<open>Sequences of calls\<close>

datatype service_call =
    CallCreate go_context CreateTransactionInput
  | CallRefund go_context string string string

fun run_call :: "'db PaymentService \<Rightarrow> service_call \<Rightarrow> 'db world \<Rightarrow> 'db world" where
  "run_call s (CallCreate ctx input) w = snd (CreateTransaction s ctx input w)"
| "run_call s (CallRefund ctx m i reason) w = snd (RefundTransaction s ctx m i reason w)"

context payment_store
begin

lemma run_call_ledger:
  assumes "ok (wdb w)" and "pk" and "bank_client (s_bank s)" and "default_timing (s_retry s)"
  shows "ok (wdb (run_call s call w)) \<and> ledger (V w) (V (run_call s call w))"
proof (cases call)
  case (CallCreate ctx input)
  then show ?thesis
    using CreateTransaction_steps [OF assms(1) disjI1 [OF assms(2)] assms(3,4) prod.collapse [symmetric], of ctx input] by simp
next
  case (CallRefund ctx m i reason)
  then show ?thesis using RefundTransaction_steps [OF assms(1) prod.collapse [symmetric], of ctx m i reason] by simp
qed

lemma run_calls_ledger:
  assumes "ok (wdb w)" and "pk" and "bank_client (s_bank s)" and "default_timing (s_retry s)"
  shows "ok (wdb (fold (run_call s) cs w)) \<and> ledger (V w) (V (fold (run_call s) cs w))"
  using assms(1)
proof (induction cs arbitrary: w)
  case (Cons call cs)
  then show ?case using run_call_ledger [OF Cons.prems assms(2-4), of call] Cons.IH [of "run_call s call w"]
    by (auto intro: rtranclp_trans)
qed simp

end

section \<open>The books of the program's stores\<close>

text \<open>The committed book of a service on PostgreSQL and the book of the in-memory repositories.\<close>

definition pg_book :: "pgdb world \<Rightarrow> book" where
  "pg_book w = pg_view OnDB (wdb w)"

definition mem_book :: "mockdb world \<Rightarrow> book" where
  "mem_book w = mock_view OnDB (wdb w)"

end
