(* ===== verification/Payflow_Pool.thy ===== *)
theory Payflow_Pool
  imports Payflow_Domain "HOL-Library.Multiset"
begin

text \<open>
  The worker pool (\<open>internal/concurrency/patterns.go\<close>): its state with the job channel, the slots and
  where each worker is, the operations \<open>Submit\<close> and \<open>Shutdown\<close>, and what the workers do as a step
  relation over a state that the jobs share. \<open>pool_jobs\<close> is the interface of the jobs; the lemmas in it
  account for every job and show that a pool that was shut down comes to rest.
\<close>

section \<open>State and operations\<close>

text \<open>
  \<open>wp_slots\<close> is the number of tokens in the channel \<open>slots\<close>. \<open>wp_sending\<close> is the job of the goroutine
  that is inside \<open>Submit\<close> between taking a slot and the end of the send on \<open>jobs\<close>; it holds the mutex
  all the while. A worker is idle (at the receive), runs a job, or has returned.
\<close>

record ('j, 's) WorkerPool =
  wp_workers :: nat
  wp_queue :: nat
  wp_jobs :: "'j list"
  wp_slots :: nat
  wp_closed :: bool
  wp_sending :: "'j option"
  wp_idle :: nat
  wp_running :: "'j list"
  wp_exited :: nat
  wp_shared :: 's

text \<open>\<open>make(chan ...)\<close> panics on a negative size.\<close>

definition NewWorkerPool :: "int \<Rightarrow> int \<Rightarrow> 's \<Rightarrow> ('j, 's) WorkerPool option" where
  "NewWorkerPool workers queueSize s =
     (if queueSize < 0 \<or> workers + queueSize < 0 then None
      else Some \<lparr>wp_workers = nat workers, wp_queue = nat queueSize, wp_jobs = [], wp_slots = 0, wp_closed = False,
                 wp_sending = None, wp_idle = nat workers, wp_running = [], wp_exited = 0, wp_shared = s\<rparr>)"

text \<open>\<open>Submit\<close> up to the send of the job; it can be entered when nobody holds the mutex.\<close>

definition Submit :: "'j \<Rightarrow> ('j, 's) WorkerPool \<Rightarrow> go_error option \<times> ('j, 's) WorkerPool" where
  "Submit job wp =
     (if wp_closed wp then (Some (New ''worker pool is shut down''), wp)
      else if wp_slots wp < wp_workers wp + wp_queue wp
           then (None, wp\<lparr>wp_slots := Suc (wp_slots wp), wp_sending := Some job\<rparr>)
      else (Some (New ''worker pool queue full''), wp))"

text \<open>\<open>Shutdown\<close> up to the wait for the workers, which is over when all have returned.\<close>

definition Shutdown :: "('j, 's) WorkerPool \<Rightarrow> ('j, 's) WorkerPool" where
  "Shutdown wp = (if \<not> wp_closed wp then wp\<lparr>wp_closed := True\<rparr> else wp)"

definition Waited :: "('j, 's) WorkerPool \<Rightarrow> bool" where
  "Waited wp \<longleftrightarrow> wp_exited wp = wp_workers wp"

text \<open>
  The goroutines of the pool. A running job makes a step \<open>exec\<close> on the shared state; \<open>None\<close> is its end,
  after which the deferred function gives the slot back and the worker returns to the receive. The
  label is the list of jobs that ended in the step.
\<close>

inductive pool_work ::
  "('j \<Rightarrow> 's \<Rightarrow> 'j option \<Rightarrow> 's \<Rightarrow> bool) \<Rightarrow> ('j, 's) WorkerPool \<Rightarrow> 'j list \<Rightarrow> ('j, 's) WorkerPool \<Rightarrow> bool"
  for exec where
  send: "wp_sending wp = Some j \<Longrightarrow> length (wp_jobs wp) < wp_queue wp
    \<Longrightarrow> pool_work exec wp [] (wp\<lparr>wp_jobs := wp_jobs wp @ [j], wp_sending := None\<rparr>)"
| handoff: "wp_sending wp = Some j \<Longrightarrow> wp_jobs wp = [] \<Longrightarrow> wp_idle wp = Suc n
    \<Longrightarrow> pool_work exec wp [] (wp\<lparr>wp_sending := None, wp_idle := n, wp_running := wp_running wp @ [j]\<rparr>)"
| take: "wp_jobs wp = j # js \<Longrightarrow> wp_idle wp = Suc n
    \<Longrightarrow> pool_work exec wp [] (wp\<lparr>wp_jobs := js, wp_idle := n, wp_running := wp_running wp @ [j]\<rparr>)"
| work: "wp_running wp = xs @ j # ys \<Longrightarrow> exec j (wp_shared wp) (Some j') s'
    \<Longrightarrow> pool_work exec wp [] (wp\<lparr>wp_running := xs @ j' # ys, wp_shared := s'\<rparr>)"
| finish: "wp_running wp = xs @ j # ys \<Longrightarrow> exec j (wp_shared wp) None s'
    \<Longrightarrow> pool_work exec wp [j] (wp\<lparr>wp_running := xs @ ys, wp_slots := wp_slots wp - 1, wp_idle := Suc (wp_idle wp), wp_shared := s'\<rparr>)"
| exit: "wp_closed wp \<Longrightarrow> wp_jobs wp = [] \<Longrightarrow> wp_idle wp = Suc n
    \<Longrightarrow> pool_work exec wp [] (wp\<lparr>wp_idle := n, wp_exited := Suc (wp_exited wp)\<rparr>)"

text \<open>
  A pool in use, from \<open>wp0\<close> on: \<open>acc\<close> are the jobs that \<open>Submit\<close> accepted, \<open>fin\<close> the jobs that ended.
  What other goroutines do to the shared state is \<open>other\<close>.
\<close>

inductive pool_run ::
  "('j \<Rightarrow> 's \<Rightarrow> 'j option \<Rightarrow> 's \<Rightarrow> bool) \<Rightarrow> ('j, 's) WorkerPool \<Rightarrow> 'j list \<Rightarrow> 'j list \<Rightarrow> ('j, 's) WorkerPool \<Rightarrow> bool"
  for exec wp0 where
  start: "pool_run exec wp0 [] [] wp0"
| submit: "pool_run exec wp0 acc fin wp \<Longrightarrow> wp_sending wp = None \<Longrightarrow> Submit j wp = (None, wp')
    \<Longrightarrow> pool_run exec wp0 (acc @ [j]) fin wp'"
| shutdown: "pool_run exec wp0 acc fin wp \<Longrightarrow> wp_sending wp = None \<Longrightarrow> pool_run exec wp0 acc fin (Shutdown wp)"
| step: "pool_run exec wp0 acc fin wp \<Longrightarrow> pool_work exec wp l wp' \<Longrightarrow> pool_run exec wp0 acc (fin @ l) wp'"
| other: "pool_run exec wp0 acc fin wp \<Longrightarrow> pool_run exec wp0 acc fin (wp\<lparr>wp_shared := s'\<rparr>)"

inductive_cases pool_workE: "pool_work exec wp l wp'"

section \<open>The interface of jobs\<close>

text \<open>Jobs keep their identity while they run, can always make a step, and end.\<close>

locale pool_jobs =
  fixes exec :: "'j \<Rightarrow> 's \<Rightarrow> 'j option \<Rightarrow> 's \<Rightarrow> bool"
    and ident :: "'j \<Rightarrow> 'i"
    and left :: "'j \<Rightarrow> nat"
  assumes exec_ident: "exec j s (Some j') s' \<Longrightarrow> ident j' = ident j"
    and exec_enabled: "\<exists>r s'. exec j s r s'"
    and exec_ends: "exec j s (Some j') s' \<Longrightarrow> left j' < left j"

definition pool_inv :: "('j, 's) WorkerPool \<Rightarrow> bool" where
  "pool_inv wp \<longleftrightarrow> wp_idle wp + length (wp_running wp) + wp_exited wp = wp_workers wp
     \<and> wp_slots wp = length (wp_jobs wp) + length (wp_running wp) + (if wp_sending wp = None then 0 else 1)
     \<and> wp_slots wp \<le> wp_workers wp + wp_queue wp \<and> length (wp_jobs wp) \<le> wp_queue wp
     \<and> (wp_exited wp > 0 \<longrightarrow> wp_closed wp \<and> wp_jobs wp = []) \<and> (wp_closed wp \<longrightarrow> wp_sending wp = None)"

text \<open>All jobs a pool holds, wherever they are.\<close>

definition pool_holds :: "('j, 's) WorkerPool \<Rightarrow> 'j list" where
  "pool_holds wp = (case wp_sending wp of None \<Rightarrow> [] | Some j \<Rightarrow> [j]) @ wp_jobs wp @ wp_running wp"

lemma pool_inv_new: "NewWorkerPool workers queueSize s = Some wp \<Longrightarrow> pool_inv wp \<and> pool_holds wp = []"
  by (auto simp: NewWorkerPool_def pool_inv_def pool_holds_def split: if_splits)

lemma pool_inv_submit: "pool_inv wp \<Longrightarrow> wp_sending wp = None \<Longrightarrow> Submit j wp = (None, wp') \<Longrightarrow> pool_inv wp'"
  by (auto simp: Submit_def pool_inv_def split: if_splits)

lemma pool_inv_shutdown: "pool_inv wp \<Longrightarrow> wp_sending wp = None \<Longrightarrow> pool_inv (Shutdown wp)"
  by (auto simp: Shutdown_def pool_inv_def)

lemma pool_inv_work: "pool_work exec wp l wp' \<Longrightarrow> pool_inv wp \<Longrightarrow> pool_inv wp'"
  by (induction rule: pool_work.induct) (auto simp: pool_inv_def split: if_splits)

lemma pool_inv_shared [simp]: "pool_inv (wp\<lparr>wp_shared := s'\<rparr>) = pool_inv wp" "pool_holds (wp\<lparr>wp_shared := s'\<rparr>) = pool_holds wp"
  by (simp_all add: pool_inv_def pool_holds_def)

section \<open>Accounting and progress\<close>

text \<open>What is left to do for a pool whose \<open>Submit\<close> and \<open>Shutdown\<close> are not called any more.\<close>

definition pool_rest :: "('j \<Rightarrow> nat) \<Rightarrow> ('j, 's) WorkerPool \<Rightarrow> nat" where
  "pool_rest left wp = (case wp_sending wp of None \<Rightarrow> 0 | Some j \<Rightarrow> 4 + left j)
     + sum_list (map (\<lambda>j. 3 + left j) (wp_jobs wp)) + sum_list (map (\<lambda>j. 2 + left j) (wp_running wp))
     + (wp_workers wp - wp_exited wp)"

lemma pool_drained:
  assumes "pool_inv wp" and "0 < wp_workers wp" and "Waited wp"
  shows "pool_holds wp = []"
  using assms by (auto simp: pool_inv_def pool_holds_def Waited_def)

lemma pool_slots: "pool_inv wp \<Longrightarrow> wp_slots wp = length (pool_holds wp)"
  by (auto simp: pool_inv_def pool_holds_def split: option.splits)

lemma pool_work_sizes:
  "pool_work exec wp l wp' \<Longrightarrow> wp_workers wp' = wp_workers wp \<and> wp_queue wp' = wp_queue wp \<and> wp_closed wp' = wp_closed wp"
  by (induction rule: pool_work.induct) auto

text \<open>A step of the pool moves its jobs around, or it is a step of one job.\<close>

lemma pool_work_job:
  assumes "pool_work exec wp l wp'"
  shows "l = [] \<and> mset (pool_holds wp') = mset (pool_holds wp) \<and> wp_shared wp' = wp_shared wp
    \<or> (\<exists>j rest r. mset (pool_holds wp) = add_mset j rest \<and> exec j (wp_shared wp) r (wp_shared wp')
        \<and> mset (pool_holds wp') = (case r of None \<Rightarrow> rest | Some j' \<Rightarrow> add_mset j' rest)
        \<and> l = (case r of None \<Rightarrow> [j] | Some _ \<Rightarrow> []))"
  using assms
proof (induction rule: pool_work.induct)
  case (work wp xs j ys j' s')
  then show ?case
    by (intro disjI2 exI [of _ j] exI [of _ "mset (pool_holds (wp\<lparr>wp_running := xs @ ys\<rparr>))"] exI [of _ "Some j'"])
      (simp add: pool_holds_def)
next
  case (finish wp xs j ys s')
  then show ?case
    by (intro disjI2 exI [of _ j] exI [of _ "mset (pool_holds (wp\<lparr>wp_running := xs @ ys\<rparr>))"] exI [of _ None])
      (simp add: pool_holds_def)
qed (simp_all add: pool_holds_def)

lemma Submit_holds:
  "Submit j wp = (None, wp') \<Longrightarrow> wp_sending wp = None \<Longrightarrow> mset (pool_holds wp') = add_mset j (mset (pool_holds wp))"
  by (auto simp: Submit_def pool_holds_def split: if_splits)

lemma Shutdown_holds [simp]: "pool_holds (Shutdown wp) = pool_holds wp" "wp_workers (Shutdown wp) = wp_workers wp"
  "wp_queue (Shutdown wp) = wp_queue wp"
  by (simp_all add: Shutdown_def pool_holds_def)

context pool_jobs
begin

lemma work_holds:
  "pool_work exec wp l wp' \<Longrightarrow>
   image_mset ident (mset (pool_holds wp)) = image_mset ident (mset l) + image_mset ident (mset (pool_holds wp'))"
  by (induction rule: pool_work.induct) (auto simp: pool_holds_def exec_ident)

lemma run_accounts:
  assumes "pool_run exec wp0 acc fin wp" and "pool_inv wp0" and "pool_holds wp0 = []"
  shows "pool_inv wp \<and> wp_workers wp = wp_workers wp0 \<and> wp_queue wp = wp_queue wp0
    \<and> image_mset ident (mset acc) = image_mset ident (mset fin) + image_mset ident (mset (pool_holds wp))"
  using assms
proof (induction rule: pool_run.induct)
  case (submit acc fin wp j wp')
  then show ?case using Submit_holds [of j wp wp'] pool_inv_submit [of wp j wp']
    by (auto simp: Submit_def split: if_splits)
next
  case (shutdown acc fin wp)
  then show ?case by (simp add: pool_inv_shutdown)
next
  case (step acc fin wp l wp')
  then show ?case using work_holds [OF step(2)] pool_inv_work [OF step(2)] pool_work_sizes [OF step(2)] by simp
qed simp_all

lemma work_enabled:
  assumes inv: "pool_inv wp" and "0 < wp_workers wp" and "pool_holds wp \<noteq> [] \<or> wp_closed wp \<and> \<not> Waited wp"
  shows "\<exists>l wp'. pool_work exec wp l wp'"
proof (cases "wp_running wp")
  case (Cons j js)
  obtain r s' where r: "exec j (wp_shared wp) r s'" using exec_enabled by blast
  have "wp_running wp = [] @ j # js" using Cons by simp
  with r show ?thesis by (cases r) (blast intro: pool_work.work pool_work.finish)+
next
  case Nil
  show ?thesis
  proof (cases "wp_idle wp")
    case 0
    with Nil inv have "wp_exited wp = wp_workers wp" by (simp add: pool_inv_def)
    then show ?thesis using assms pool_drained [OF inv] by (auto simp: Waited_def)
  next
    case (Suc n)
    show ?thesis
    proof (cases "wp_jobs wp")
      case (Cons j js)
      then show ?thesis using Suc by (blast intro: pool_work.take)
    next
      case jobs: Nil
      then show ?thesis using Suc Nil assms(3)
        by (cases "wp_sending wp") (auto simp: pool_holds_def intro: pool_work.handoff pool_work.exit)
    qed
  qed
qed

lemma work_decreases: "pool_work exec wp l wp' \<Longrightarrow> pool_inv wp \<Longrightarrow> pool_rest left wp' < pool_rest left wp"
proof (induction rule: pool_work.induct)
  case (work wp xs j ys j' s')
  then show ?case using exec_ends [OF work(2)] by (simp add: pool_rest_def)
qed (auto simp: pool_rest_def pool_inv_def)

end

text \<open>The \<open>func()\<close> of the source that runs in one step.\<close>

definition run_func :: "('s \<Rightarrow> 's) \<Rightarrow> 's \<Rightarrow> ('s \<Rightarrow> 's) option \<Rightarrow> 's \<Rightarrow> bool" where
  "run_func job s r s' \<longleftrightarrow> r = None \<and> s' = job s"

interpretation funcs: pool_jobs run_func "\<lambda>job. job" "\<lambda>_. 0"
  by unfold_locales (simp_all add: run_func_def)

text \<open>One worker and room for one job: a job is submitted, queued, taken, run; then the pool is shut down.\<close>

definition pool_sample :: "(nat \<Rightarrow> nat, nat) WorkerPool" where
  "pool_sample = \<lparr>wp_workers = 1, wp_queue = 1, wp_jobs = [], wp_slots = 0, wp_closed = False,
     wp_sending = None, wp_idle = 1, wp_running = [], wp_exited = 0, wp_shared = 5\<rparr>"

lemma pool_sample_new: "NewWorkerPool 1 1 5 = Some pool_sample"
  by (simp add: NewWorkerPool_def pool_sample_def)

lemma pool_sample_run:
  "pool_run run_func pool_sample [Suc] [Suc] (pool_sample\<lparr>wp_closed := True, wp_idle := 0, wp_exited := 1, wp_shared := 6\<rparr>)"
proof -
  let ?p1 = "pool_sample\<lparr>wp_slots := 1, wp_sending := Some Suc\<rparr>"
  let ?p2 = "pool_sample\<lparr>wp_slots := 1, wp_jobs := [Suc]\<rparr>"
  let ?p3 = "pool_sample\<lparr>wp_slots := 1, wp_idle := 0, wp_running := [Suc]\<rparr>"
  let ?p4 = "pool_sample\<lparr>wp_shared := 6\<rparr>"
  let ?p5 = "pool_sample\<lparr>wp_closed := True, wp_shared := 6\<rparr>"
  have 1: "pool_run run_func pool_sample ([] @ [Suc]) [] ?p1"
    by (rule pool_run.submit [OF pool_run.start]) (simp_all add: pool_sample_def Submit_def)
  have "pool_work run_func ?p1 [] ?p2" using pool_work.send [of ?p1 Suc run_func] by (simp add: pool_sample_def)
  from pool_run.step [OF 1 this] have 2: "pool_run run_func pool_sample [Suc] [] ?p2" by simp
  have "pool_work run_func ?p2 [] ?p3" using pool_work.take [of ?p2 Suc "[]" 0 run_func] by (simp add: pool_sample_def)
  from pool_run.step [OF 2 this] have 3: "pool_run run_func pool_sample [Suc] [] ?p3" by simp
  have "pool_work run_func ?p3 [Suc] ?p4"
    using pool_work.finish [of ?p3 "[]" Suc "[]" run_func 6] by (simp add: pool_sample_def run_func_def)
  from pool_run.step [OF 3 this] have 4: "pool_run run_func pool_sample [Suc] [Suc] ?p4" by simp
  have 5: "pool_run run_func pool_sample [Suc] [Suc] ?p5"
    using pool_run.shutdown [OF 4] by (simp add: pool_sample_def Shutdown_def)
  have "pool_work run_func ?p5 [] (?p5\<lparr>wp_idle := 0, wp_exited := 1\<rparr>)"
    using pool_work.exit [of ?p5 0 run_func] by (simp add: pool_sample_def)
  from pool_run.step [OF 5 this] show ?thesis by (simp add: pool_sample_def)
qed

text \<open>C13: a pool accounts for every job, whatever its workers and clients do: at most \<open>workers\<close> jobs run and at
  most \<open>queueSize\<close> wait; the accepted jobs are those that ended and those it still holds, none lost and
  none doubled; and when \<open>Shutdown\<close> returns, every accepted job has ended (with at least one worker).\<close>

theorem pool_accounts:
  assumes "pool_jobs exec ident left" and "NewWorkerPool workers queueSize s = Some wp0" and "pool_run exec wp0 acc fin wp"
  shows "length (wp_running wp) \<le> nat workers \<and> length (wp_jobs wp) \<le> nat queueSize
    \<and> image_mset ident (mset acc) = image_mset ident (mset fin) + image_mset ident (mset (pool_holds wp))
    \<and> (0 < workers \<longrightarrow> Waited wp \<longrightarrow> image_mset ident (mset fin) = image_mset ident (mset acc))"
proof -
  have new: "pool_inv wp0" "pool_holds wp0 = []" "wp_workers wp0 = nat workers" "wp_queue wp0 = nat queueSize"
    using assms(2) pool_inv_new [OF assms(2)] by (auto simp: NewWorkerPool_def split: if_splits)
  note R = pool_jobs.run_accounts [OF assms(1,3) new(1,2)]
  have "length (wp_running wp) \<le> nat workers" "length (wp_jobs wp) \<le> nat queueSize"
    using R new(3,4) by (auto simp: pool_inv_def)
  moreover have "pool_holds wp = []" if "0 < workers" "Waited wp"
    using pool_drained [of wp] R that new(3) by simp
  ultimately show ?thesis using R by auto
qed

lemma pool_accounts_witness:
  "length (wp_running (pool_sample\<lparr>wp_closed := True, wp_idle := 0, wp_exited := 1, wp_shared := 6\<rparr>)) \<le> 1
   \<and> image_mset (\<lambda>job. job) (mset [Suc]) = image_mset (\<lambda>job. job) (mset [Suc])"
  using pool_accounts [OF funcs.pool_jobs_axioms pool_sample_new pool_sample_run] by simp

text \<open>C14: \<open>Shutdown\<close> returns: from a closed pool with at least one worker every run of the workers is
  finite, and where it cannot go on all workers have returned. In particular a send that waits for
  room in the channel while holding the mutex never blocks the pool for good.\<close>

theorem pool_shutdown_returns:
  assumes "pool_jobs exec ident left" and "NewWorkerPool workers queueSize s = Some wp0" and "0 < workers"
    and "pool_run exec wp0 acc fin wp"
  shows "(\<nexists>f. f 0 = wp \<and> (\<forall>i. \<exists>l. pool_work exec (f i) l (f (Suc i))))
    \<and> ((\<forall>l wp'. \<not> pool_work exec wp l wp') \<longrightarrow> pool_holds wp = [] \<and> (wp_closed wp \<longrightarrow> Waited wp))"
proof -
  have new: "pool_inv wp0" "pool_holds wp0 = []" "wp_workers wp0 = nat workers"
    using assms(2) pool_inv_new [OF assms(2)] by (auto simp: NewWorkerPool_def split: if_splits)
  note R = pool_jobs.run_accounts [OF assms(1,4) new(1,2)]
  have "\<not> (f 0 = wp \<and> (\<forall>i. \<exists>l. pool_work exec (f i) l (f (Suc i))))" for f
  proof
    assume f: "f 0 = wp \<and> (\<forall>i. \<exists>l. pool_work exec (f i) l (f (Suc i)))"
    have inv: "pool_inv (f i)" for i
    proof (induction i)
      case 0
      then show ?case using f R by simp
    next
      case (Suc i)
      then show ?case using f pool_inv_work by blast
    qed
    have "(f (Suc i), f i) \<in> measure (pool_rest left)" for i
    proof -
      obtain l where "pool_work exec (f i) l (f (Suc i))" using f by blast
      from pool_jobs.work_decreases [OF assms(1) this inv] show ?thesis by simp
    qed
    then show False using wf_iff_no_infinite_down_chain [THEN iffD1, OF wf_measure] by blast
  qed
  moreover have "pool_holds wp = [] \<and> (wp_closed wp \<longrightarrow> Waited wp)" if "\<forall>l wp'. \<not> pool_work exec wp l wp'"
    using pool_jobs.work_enabled [OF assms(1), of wp] R new(3) assms(3) that by auto
  ultimately show ?thesis by blast
qed

lemma pool_shutdown_returns_witness:
  "\<nexists>f. f 0 = pool_sample\<lparr>wp_closed := True, wp_idle := 0, wp_exited := 1, wp_shared := 6\<rparr>
     \<and> (\<forall>i. \<exists>l. pool_work run_func (f i) l (f (Suc i)))"
proof -
  have "0 < (1::int)" by simp
  from pool_shutdown_returns [OF funcs.pool_jobs_axioms pool_sample_new this pool_sample_run] show ?thesis by blast
qed

text \<open>A pool rejects a job only when it is shut down or holds \<open>workers + queueSize\<close> jobs; so the first
  \<open>workers + queueSize\<close> submissions are all accepted.\<close>

lemma pool_rejects_only_when_full:
  assumes "pool_jobs exec ident left" and "NewWorkerPool workers queueSize s = Some wp0" and "pool_run exec wp0 acc fin wp"
  shows "(fst (Submit j wp) \<noteq> None \<longleftrightarrow> wp_closed wp \<or> length (pool_holds wp) = nat workers + nat queueSize)
    \<and> (length acc < nat workers + nat queueSize \<longrightarrow> \<not> wp_closed wp \<longrightarrow> fst (Submit j wp) = None)"
proof -
  have new: "pool_inv wp0" "pool_holds wp0 = []" "wp_workers wp0 = nat workers" "wp_queue wp0 = nat queueSize"
    using assms(2) pool_inv_new [OF assms(2)] by (auto simp: NewWorkerPool_def split: if_splits)
  note R = pool_jobs.run_accounts [OF assms(1,3) new(1,2)]
  then have inv: "pool_inv wp" and sizes: "wp_workers wp = nat workers" "wp_queue wp = nat queueSize"
    and acc: "image_mset ident (mset acc) = image_mset ident (mset fin) + image_mset ident (mset (pool_holds wp))"
    unfolding new(3,4) by blast+
  have slots: "wp_slots wp = length (pool_holds wp)" "wp_slots wp \<le> nat workers + nat queueSize"
    using inv sizes pool_slots [OF inv] by (simp_all add: pool_inv_def)
  have "length (pool_holds wp) \<le> length acc" using arg_cong [OF acc, of size] by simp
  then show ?thesis using slots sizes by (simp add: Submit_def)
qed

end
