(* ===== verification/Payflow_Outbox.thy ===== *)
theory Payflow_Outbox
  imports Payflow_Repository Payflow_Pool
begin

text \<open>
  The outbox worker (\<open>internal/service/outbox_worker.go\<close>): it claims a batch of unpublished messages,
  publishes each on a worker pool and marks it published. A job is \<open>processEvent\<close> in the steps at
  which other goroutines can come in between; a batch is a step relation of the submitting goroutine,
  the pool's workers and the clock.
\<close>

section \<open>Publishers\<close>

text \<open>
  What the outside sees of a publisher: a log line, or a message with the answer of Kafka. The
  environment's trace collects them.
\<close>

record kafka_message =
  km_Topic :: string
  km_Key :: string
  km_Value :: RawMessage
  km_Headers :: "(string \<times> string) list"

datatype delivery = LogLine int64 string | KafkaMessage kafka_message

type_synonym outbox_env = "(delivery \<times> go_error option) env"

record outboxPublisher =
  Publish :: "go_context \<Rightarrow> OutboxEvent \<Rightarrow> outbox_env \<Rightarrow> go_error option \<times> outbox_env"
  Close :: "outbox_env \<Rightarrow> go_error option \<times> outbox_env"

definition log_Publish :: "go_context \<Rightarrow> OutboxEvent \<Rightarrow> outbox_env \<Rightarrow> go_error option \<times> outbox_env" where
  "log_Publish ctx event e = (None, e\<lparr>trace := trace e @ [(LogLine (ob_ID event) (ob_EventType event), None)]\<rparr>)"

text \<open>
  \<open>kafka.Writer\<close> is third-party code: \<open>kw_answer\<close> is the result of the n-th \<open>WriteMessages\<close> for a context
  and a message, \<open>kw_close\<close> that of \<open>Close\<close>.
\<close>

record kafka_writer =
  kw_answer :: "nat \<Rightarrow> go_context \<Rightarrow> kafka_message \<Rightarrow> go_error option"
  kw_close :: "go_error option"

record kafkaOutboxPublisher =
  kp_topic :: string
  kp_writer :: "kafka_writer option"

definition kafka_message_of :: "string \<Rightarrow> OutboxEvent \<Rightarrow> kafka_message" where
  "kafka_message_of topic event = \<lparr>km_Topic = topic, km_Key = show_int (sint (ob_ID event)), km_Value = ob_Payload event,
     km_Headers = [(''event_type'', ob_EventType event)]\<rparr>"

definition kafka_Publish :: "kafkaOutboxPublisher \<Rightarrow> go_context \<Rightarrow> OutboxEvent \<Rightarrow> outbox_env \<Rightarrow> go_error option \<times> outbox_env" where
  "kafka_Publish p ctx event e =
     (case kp_writer p of
        None \<Rightarrow> (Some (New ''kafka writer is not configured''), e)
      | Some w \<Rightarrow>
          (let m = kafka_message_of (kp_topic p) event; err = kw_answer w (steps e) ctx m
           in (err, (tick e)\<lparr>trace := trace e @ [(KafkaMessage m, err)]\<rparr>)))"

definition kafka_Close :: "kafkaOutboxPublisher \<Rightarrow> outbox_env \<Rightarrow> go_error option \<times> outbox_env" where
  "kafka_Close p e = (case kp_writer p of None \<Rightarrow> (None, e) | Some w \<Rightarrow> (kw_close w, tick e))"

text \<open>
  The interface: a publication is attempted at most once per call, no error means it succeeded, and it
  takes time.
\<close>

locale outbox_publisher =
  fixes pub :: outboxPublisher and what :: "OutboxEvent \<Rightarrow> delivery"
  assumes publish_once: "Publish pub ctx event e = (r, e') \<Longrightarrow>
      trace e' = trace e \<or> (\<exists>err. trace e' = trace e @ [(what event, err)])"
    and publish_ok: "Publish pub ctx event e = (None, e') \<Longrightarrow> trace e' = trace e @ [(what event, None)]"
    and publish_clock: "now e \<le> now (snd (Publish pub ctx event e))"

section \<open>The worker\<close>

definition defaultOutboxConcurrency :: int where "defaultOutboxConcurrency = 4"

record 'db OutboxWorkerConfig =
  oc_Outbox :: "'db OutboxRepository option"
  oc_Brokers :: "string list"
  oc_Topic :: string
  oc_Interval :: int
  oc_BatchSize :: int
  oc_Concurrency :: int

record 'db OutboxWorker =
  w_outbox :: "'db OutboxRepository option"
  w_publisher :: outboxPublisher
  w_interval :: int
  w_batchSize :: int
  w_concurrency :: int

text \<open>\<open>writer\<close> is the third-party writer for the configured brokers and topic.\<close>

definition newOutboxPublisher :: "kafka_writer \<Rightarrow> 'db OutboxWorkerConfig \<Rightarrow> outboxPublisher" where
  "newOutboxPublisher writer cfg =
     (if oc_Brokers cfg = [] \<or> oc_Topic cfg = [] then \<lparr>Publish = log_Publish, Close = (\<lambda>e. (None, e))\<rparr>
      else (let p = \<lparr>kp_topic = oc_Topic cfg, kp_writer = Some writer\<rparr>
            in \<lparr>Publish = kafka_Publish p, Close = kafka_Close p\<rparr>))"

definition NewOutboxWorker :: "kafka_writer \<Rightarrow> 'db OutboxWorkerConfig \<Rightarrow> 'db OutboxWorker" where
  "NewOutboxWorker writer cfg =
     (let interval = (if oc_Interval cfg \<le> 0 then 2 * 1000000000 else oc_Interval cfg);
          batchSize = (if oc_BatchSize cfg \<le> 0 then 100 else oc_BatchSize cfg);
          concurrencyLimit = (if oc_Concurrency cfg \<le> 0 then defaultOutboxConcurrency else oc_Concurrency cfg);
          concurrencyLimit = (if concurrencyLimit > batchSize then batchSize else concurrencyLimit)
      in \<lparr>w_outbox = oc_Outbox cfg, w_publisher = newOutboxPublisher writer cfg, w_interval = interval,
          w_batchSize = batchSize, w_concurrency = concurrencyLimit\<rparr>)"

definition workerCount :: "'db OutboxWorker \<Rightarrow> int \<Rightarrow> int" where
  "workerCount w batchLen =
     (if batchLen \<le> 0 then 1
      else if w_concurrency w \<le> 0 then 1
      else if w_concurrency w > batchLen then batchLen
      else w_concurrency w)"

record outboxProcessResult =
  or_eventID :: int64
  or_eventType :: string
  or_stage :: string
  or_err :: "go_error option"

text \<open>What the goroutines of a batch share: the store, the environment, the buffered channel of results.\<close>

record 'db outbox_world =
  ow_db :: 'db
  ow_env :: outbox_env
  ow_results :: "outboxProcessResult list"

definition result_of :: "OutboxEvent \<Rightarrow> string \<Rightarrow> go_error option \<Rightarrow> outboxProcessResult" where
  "result_of event stage err =
     \<lparr>or_eventID = ob_ID event, or_eventType = ob_EventType event, or_stage = stage, or_err = err\<rparr>"

definition processEvent ::
  "'db OutboxWorker \<Rightarrow> 'db OutboxRepository \<Rightarrow> go_context \<Rightarrow> OutboxEvent \<Rightarrow> 'db outbox_world
    \<Rightarrow> outboxProcessResult \<times> 'db outbox_world" where
  "processEvent w outbox ctx event ow =
     (case ctx_Err ctx (now (ow_env ow)) of
        Some err \<Rightarrow> (result_of event ''publish'' (Some err), ow)
      | None \<Rightarrow>
          (case Publish (w_publisher w) ctx event (ow_env ow) of
             (Some err, e1) \<Rightarrow> (result_of event ''publish'' (Some err), ow\<lparr>ow_env := e1\<rparr>)
           | (None, e1) \<Rightarrow>
               (case OR_MarkPublished outbox OnDB ctx (ob_ID event) (now e1) (ow_db ow) of
                  (Some err, d) \<Rightarrow> (result_of event ''mark_published'' (Some err), ow\<lparr>ow_db := d, ow_env := tick e1\<rparr>)
                | (None, d) \<Rightarrow> (result_of event ''completed'' None, ow\<lparr>ow_db := d, ow_env := tick e1\<rparr>))))"

section \<open>A batch\<close>

text \<open>
  The job \<open>func() { resultsCh <- w.processEvent(ctx, current) }\<close> with the point it has reached. The channel
  has room for a result of every event of the batch, so the send does not block.
\<close>

datatype phase = Checking | Publishing | Marking

record outbox_job =
  oj_event :: OutboxEvent
  oj_phase :: phase

definition emit_result :: "outboxProcessResult \<Rightarrow> 'db outbox_world \<Rightarrow> 'db outbox_world" where
  "emit_result r ow = ow\<lparr>ow_results := ow_results ow @ [r]\<rparr>"

definition job_step ::
  "'db OutboxWorker \<Rightarrow> 'db OutboxRepository \<Rightarrow> go_context \<Rightarrow> outbox_job \<Rightarrow> 'db outbox_world
    \<Rightarrow> outbox_job option \<times> 'db outbox_world" where
  "job_step w outbox ctx job ow =
     (let event = oj_event job in
      case oj_phase job of
        Checking \<Rightarrow>
          (case ctx_Err ctx (now (ow_env ow)) of
             Some err \<Rightarrow> (None, emit_result (result_of event ''publish'' (Some err)) ow)
           | None \<Rightarrow> (Some (job\<lparr>oj_phase := Publishing\<rparr>), ow))
      | Publishing \<Rightarrow>
          (case Publish (w_publisher w) ctx event (ow_env ow) of
             (Some err, e1) \<Rightarrow> (None, emit_result (result_of event ''publish'' (Some err)) (ow\<lparr>ow_env := e1\<rparr>))
           | (None, e1) \<Rightarrow> (Some (job\<lparr>oj_phase := Marking\<rparr>), ow\<lparr>ow_env := e1\<rparr>))
      | Marking \<Rightarrow>
          (case OR_MarkPublished outbox OnDB ctx (ob_ID event) (now (ow_env ow)) (ow_db ow) of
             (Some err, d) \<Rightarrow>
               (None, emit_result (result_of event ''mark_published'' (Some err)) (ow\<lparr>ow_db := d, ow_env := tick (ow_env ow)\<rparr>))
           | (None, d) \<Rightarrow>
               (None, emit_result (result_of event ''completed'' None) (ow\<lparr>ow_db := d, ow_env := tick (ow_env ow)\<rparr>))))"

text \<open>A job that runs alone is \<open>processEvent\<close> and the send of its result.\<close>

fun job_alone ::
  "nat \<Rightarrow> 'db OutboxWorker \<Rightarrow> 'db OutboxRepository \<Rightarrow> go_context \<Rightarrow> outbox_job \<Rightarrow> 'db outbox_world \<Rightarrow> 'db outbox_world" where
  "job_alone 0 w outbox ctx job ow = ow"
| "job_alone (Suc n) w outbox ctx job ow =
     (case job_step w outbox ctx job ow of (None, ow1) \<Rightarrow> ow1 | (Some job1, ow1) \<Rightarrow> job_alone n w outbox ctx job1 ow1)"

lemma job_alone_processEvent:
  "job_alone 3 w outbox ctx \<lparr>oj_event = event, oj_phase = Checking\<rparr> ow
   = (case processEvent w outbox ctx event ow of (r, ow1) \<Rightarrow> emit_result r ow1)"
  by (auto simp: job_step_def processEvent_def emit_result_def numeral_3_eq_3 split: option.splits prod.splits)

definition outbox_exec ::
  "'db OutboxWorker \<Rightarrow> 'db OutboxRepository \<Rightarrow> go_context \<Rightarrow> outbox_job \<Rightarrow> 'db outbox_world
    \<Rightarrow> outbox_job option \<Rightarrow> 'db outbox_world \<Rightarrow> bool" where
  "outbox_exec w outbox ctx job ow r ow' \<longleftrightarrow> job_step w outbox ctx job ow = (r, ow')"

fun phase_left :: "outbox_job \<Rightarrow> nat" where
  "phase_left job = (case oj_phase job of Checking \<Rightarrow> 2 | Publishing \<Rightarrow> 1 | Marking \<Rightarrow> 0)"

interpretation outbox_jobs: pool_jobs "outbox_exec w outbox ctx" oj_event phase_left for w outbox ctx
  by unfold_locales
    (auto simp: outbox_exec_def job_step_def Let_def split: phase.splits option.splits prod.splits)

text \<open>
  \<open>processEvents\<close>: \<open>ba_todo\<close> are the events the loop has not reached, \<open>ba_submitted\<close> is the variable
  \<open>submitted\<close>. The loop is left when the context is done; then the pool is shut down and waited for.
\<close>

record 'db batch =
  ba_todo :: "OutboxEvent list"
  ba_submitted :: nat
  ba_pool :: "(outbox_job, 'db outbox_world) WorkerPool"

abbreviation ba_world :: "'db batch \<Rightarrow> 'db outbox_world" where
  "ba_world b \<equiv> wp_shared (ba_pool b)"

abbreviation ba_now :: "'db batch \<Rightarrow> int" where
  "ba_now b \<equiv> now (ow_env (ba_world b))"

inductive batch_step ::
  "'db OutboxWorker \<Rightarrow> 'db OutboxRepository \<Rightarrow> go_context \<Rightarrow> 'db batch \<Rightarrow> 'db batch \<Rightarrow> bool"
  for w outbox ctx where
  stop: "ba_todo b = event # events \<Longrightarrow> wp_sending (ba_pool b) = None \<Longrightarrow> ctx_Err ctx (ba_now b) \<noteq> None
    \<Longrightarrow> batch_step w outbox ctx b (b\<lparr>ba_todo := []\<rparr>)"
| submit: "ba_todo b = event # events \<Longrightarrow> wp_sending (ba_pool b) = None \<Longrightarrow> ctx_Err ctx (ba_now b) = None
    \<Longrightarrow> Submit \<lparr>oj_event = event, oj_phase = Checking\<rparr> (ba_pool b) = (None, p)
    \<Longrightarrow> batch_step w outbox ctx b (b\<lparr>ba_todo := events, ba_submitted := Suc (ba_submitted b), ba_pool := p\<rparr>)"
| reject: "ba_todo b = event # events \<Longrightarrow> wp_sending (ba_pool b) = None \<Longrightarrow> ctx_Err ctx (ba_now b) = None
    \<Longrightarrow> Submit \<lparr>oj_event = event, oj_phase = Checking\<rparr> (ba_pool b) = (Some err, p)
    \<Longrightarrow> batch_step w outbox ctx b (b\<lparr>ba_todo := events,
          ba_pool := p\<lparr>wp_shared := emit_result (result_of event ''submit'' (Some err)) (wp_shared p)\<rparr>\<rparr>)"
| shutdown: "ba_todo b = [] \<Longrightarrow> wp_sending (ba_pool b) = None \<Longrightarrow> \<not> wp_closed (ba_pool b)
    \<Longrightarrow> batch_step w outbox ctx b (b\<lparr>ba_pool := Shutdown (ba_pool b)\<rparr>)"
| work: "pool_work (outbox_exec w outbox ctx) (ba_pool b) l p
    \<Longrightarrow> batch_step w outbox ctx b (b\<lparr>ba_pool := p\<rparr>)"

text \<open>Time passes, whatever the goroutines are doing.\<close>

definition batch_wait :: "'db batch \<Rightarrow> 'db batch \<Rightarrow> bool" where
  "batch_wait b b' \<longleftrightarrow> (\<exists>d > 0. b' = b\<lparr>ba_pool := (ba_pool b)\<lparr>wp_shared :=
     (ba_world b)\<lparr>ow_env := (ow_env (ba_world b))\<lparr>now := ba_now b + d\<rparr>\<rparr>\<rparr>\<rparr>)"

definition batch_run :: "'db OutboxWorker \<Rightarrow> 'db OutboxRepository \<Rightarrow> go_context \<Rightarrow> 'db batch \<Rightarrow> 'db batch \<Rightarrow> bool" where
  "batch_run w outbox ctx = (\<lambda>b b'. batch_step w outbox ctx b b' \<or> batch_wait b b')\<^sup>*\<^sup>*"

definition batch_start :: "'db OutboxWorker \<Rightarrow> OutboxEvent list \<Rightarrow> 'db outbox_world \<Rightarrow> 'db batch \<Rightarrow> bool" where
  "batch_start w events ow b \<longleftrightarrow>
     (\<exists>p. NewWorkerPool (workerCount w (int (length events))) (int (length events)) (ow\<lparr>ow_results := []\<rparr>) = Some p
        \<and> b = \<lparr>ba_todo = events, ba_submitted = 0, ba_pool = p\<rparr>)"

definition batch_done :: "'db batch \<Rightarrow> bool" where
  "batch_done b \<longleftrightarrow> ba_todo b = [] \<and> wp_closed (ba_pool b) \<and> Waited (ba_pool b)"

definition processEvents ::
  "'db OutboxWorker \<Rightarrow> 'db OutboxRepository \<Rightarrow> go_context \<Rightarrow> OutboxEvent list \<Rightarrow> 'db outbox_world \<Rightarrow> 'db outbox_world \<Rightarrow> bool" where
  "processEvents w outbox ctx events ow ow' \<longleftrightarrow>
     (\<exists>b0 b. batch_start w events ow b0 \<and> batch_run w outbox ctx b0 b \<and> batch_done b \<and> ow' = ba_world b)"

text \<open>\<open>processBatch\<close>: claim, then process; failures are only logged.\<close>

inductive processBatch ::
  "'db OutboxWorker \<Rightarrow> 'db OutboxRepository \<Rightarrow> go_context \<Rightarrow> 'db outbox_world \<Rightarrow> 'db outbox_world \<Rightarrow> bool"
  for w outbox ctx ow where
  cancelled: "ctx_Err ctx (now (ow_env ow)) \<noteq> None \<Longrightarrow> processBatch w outbox ctx ow ow"
| claim_failed: "ctx_Err ctx (now (ow_env ow)) = None
    \<Longrightarrow> OR_FetchUnpublished outbox OnDB ctx (word_of_int (w_batchSize w)) (now (ow_env ow)) (ow_db ow) = (Inl err, d)
    \<Longrightarrow> processBatch w outbox ctx ow (ow\<lparr>ow_db := d, ow_env := tick (ow_env ow)\<rparr>)"
| nothing: "ctx_Err ctx (now (ow_env ow)) = None
    \<Longrightarrow> OR_FetchUnpublished outbox OnDB ctx (word_of_int (w_batchSize w)) (now (ow_env ow)) (ow_db ow) = (Inr [], d)
    \<Longrightarrow> processBatch w outbox ctx ow (ow\<lparr>ow_db := d, ow_env := tick (ow_env ow)\<rparr>)"
| process: "ctx_Err ctx (now (ow_env ow)) = None
    \<Longrightarrow> OR_FetchUnpublished outbox OnDB ctx (word_of_int (w_batchSize w)) (now (ow_env ow)) (ow_db ow) = (Inr events, d)
    \<Longrightarrow> events \<noteq> [] \<Longrightarrow> processEvents w outbox ctx events (ow\<lparr>ow_db := d, ow_env := tick (ow_env ow)\<rparr>) ow'
    \<Longrightarrow> processBatch w outbox ctx ow ow'"

text \<open>
  \<open>Run\<close>: a batch at once, then one per tick of the interval until the context is done, when the
  publisher is closed. When both are ready \<open>select\<close> may take the tick; the time between batches passes
  in \<open>idle\<close>, while other parts of the program change the store as \<open>other\<close> allows.
\<close>

inductive worker_loop ::
  "('db \<Rightarrow> 'db \<Rightarrow> bool) \<Rightarrow> 'db OutboxWorker \<Rightarrow> 'db OutboxRepository \<Rightarrow> go_context \<Rightarrow> 'db outbox_world \<Rightarrow> 'db outbox_world \<Rightarrow> bool"
  for other w outbox ctx where
  tick: "processBatch w outbox ctx ow ow' \<Longrightarrow> worker_loop other w outbox ctx ow ow'"
| idle: "0 \<le> d \<Longrightarrow> other (ow_db ow) db'
    \<Longrightarrow> worker_loop other w outbox ctx ow (ow\<lparr>ow_db := db', ow_env := (ow_env ow)\<lparr>now := now (ow_env ow) + d\<rparr>\<rparr>)"

inductive Run ::
  "('db \<Rightarrow> 'db \<Rightarrow> bool) \<Rightarrow> 'db OutboxWorker \<Rightarrow> go_context \<Rightarrow> 'db outbox_world \<Rightarrow> 'db outbox_world \<Rightarrow> bool"
  for other w ctx ow where
  no_outbox: "w_outbox w = None \<Longrightarrow> Run other w ctx ow ow"
| stopped: "w_outbox w = Some outbox \<Longrightarrow> processBatch w outbox ctx ow ow1 \<Longrightarrow> (worker_loop other w outbox ctx)\<^sup>*\<^sup>* ow1 ow2
    \<Longrightarrow> ctx_Err ctx (now (ow_env ow2)) \<noteq> None \<Longrightarrow> Close (w_publisher w) (ow_env ow2) = (err, e)
    \<Longrightarrow> Run other w ctx ow (ow2\<lparr>ow_env := e\<rparr>)"

section \<open>The interface of the store\<close>

text \<open>
  What the worker relies on: \<open>published\<close> are the identifiers of the messages marked published; marking
  one marks no other; a claim marks none and returns unpublished messages only, each once.
\<close>

locale outbox_store =
  fixes outbox :: "'db OutboxRepository" and published :: "'db \<Rightarrow> int64 set" and store_ok :: "'db \<Rightarrow> bool"
  assumes mark_one: "OR_MarkPublished outbox OnDB ctx i t d = (r, d') \<Longrightarrow> published d' \<subseteq> insert i (published d)"
    and mark_ok: "store_ok d \<Longrightarrow> OR_MarkPublished outbox OnDB ctx i t d = (r, d') \<Longrightarrow> store_ok d'"
    and claim_ok: "store_ok d \<Longrightarrow> OR_FetchUnpublished outbox OnDB ctx n t d = (claimed, d') \<Longrightarrow> store_ok d' \<and> published d' = published d"
    and claim_unpublished: "store_ok d \<Longrightarrow> OR_FetchUnpublished outbox OnDB ctx n t d = (Inr es, d') \<Longrightarrow>
        distinct (map ob_ID es) \<and> (\<forall>x \<in> set es. ob_ID x \<notin> published d)"

section \<open>Invariants of a batch\<close>

definition eid :: "OutboxEvent \<Rightarrow> int64 \<times> string" where
  "eid x = (ob_ID x, ob_EventType x)"

definition rid :: "outboxProcessResult \<Rightarrow> int64 \<times> string" where
  "rid r = (or_eventID r, or_eventType r)"

lemma rid_result_of [simp]: "rid (result_of x stage err) = eid x" "or_stage (result_of x stage err) = stage"
  by (simp_all add: rid_def eid_def result_of_def)

text \<open>
  \<open>todo\<close> are the events the loop has not reached, \<open>held\<close> the jobs in the pool. Every attempt to publish
  belongs to an event of the batch that is neither to be submitted nor to be published any more; a job
  that is about to mark its event has published it; and so has every event newly marked. In
  \<open>batch_inv\<close> the first \<open>ba_submitted\<close> events are those the loop has submitted; the loop has stopped short of
  the rest only if the context is done.
\<close>

definition unsent :: "(OutboxEvent \<Rightarrow> delivery) \<Rightarrow> outbox_job multiset \<Rightarrow> delivery multiset" where
  "unsent what held = image_mset (\<lambda>j. what (oj_event j)) (filter_mset (\<lambda>j. oj_phase j \<noteq> Marking) held)"

definition delivery_inv ::
  "(OutboxEvent \<Rightarrow> delivery) \<Rightarrow> OutboxEvent list \<Rightarrow> int64 set \<Rightarrow> (delivery \<times> go_error option) list
    \<Rightarrow> OutboxEvent list \<Rightarrow> outbox_job multiset \<Rightarrow> outboxProcessResult list \<Rightarrow> int64 set \<Rightarrow> bool" where
  "delivery_inv what events marked sent todo held results pub \<longleftrightarrow>
       image_mset fst (mset sent) + unsent what held + image_mset what (mset todo) \<subseteq># image_mset what (mset events)
     \<and> set todo \<subseteq> set events
     \<and> (\<forall>j \<in># held. oj_event j \<in> set events \<and> (oj_phase j = Marking \<longrightarrow> (what (oj_event j), None) \<in> set sent))
     \<and> (\<forall>r \<in> set results. or_stage r \<in> {''mark_published'', ''completed''} \<longrightarrow>
          (\<exists>x \<in> set events. eid x = rid r \<and> (what x, None) \<in> set sent))
     \<and> pub \<subseteq> marked \<union> {ob_ID x | x. x \<in> set events \<and> (what x, None) \<in> set sent}"

lemma unsent_add [simp]:
  "unsent what (add_mset j held) = (if oj_phase j = Marking then unsent what held else add_mset (what (oj_event j)) (unsent what held))"
  by (simp add: unsent_def)

text \<open>What each step of a job and of the loop does to it.\<close>

lemma delivery_marked:
  assumes "delivery_inv what events marked sent todo (add_mset j held) results pub" and "oj_phase j = Marking"
    and "pub' \<subseteq> insert (ob_ID (oj_event j)) pub" and "rid r = eid (oj_event j)"
  shows "delivery_inv what events marked sent todo held (results @ [r]) pub'"
  using assms unfolding delivery_inv_def by auto

lemma delivery_failed:
  assumes inv: "delivery_inv what events marked sent todo (add_mset j held) results pub" and "oj_phase j \<noteq> Marking"
    and "or_stage r = ''publish''" and "tries \<in> {[], [(what (oj_event j), err)]}"
  shows "delivery_inv what events marked (sent @ tries) todo held (results @ [r]) pub"
proof -
  have "add_mset (what (oj_event j)) (image_mset fst (mset sent) + unsent what held + image_mset what (mset todo))
      \<subseteq># image_mset what (mset events)"
    using inv assms(2) by (simp add: delivery_inv_def)
  moreover from this have "image_mset fst (mset sent) + unsent what held + image_mset what (mset todo) \<subseteq># image_mset what (mset events)"
    by (meson mset_subset_eq_insertD subset_mset.less_imp_le)
  ultimately have "image_mset fst (mset (sent @ tries)) + unsent what held + image_mset what (mset todo) \<subseteq># image_mset what (mset events)"
    using assms(4) by auto
  then show ?thesis using inv assms(3) unfolding delivery_inv_def by auto
qed

lemma delivery_sent:
  assumes "delivery_inv what events marked sent todo (add_mset j held) results pub" and "oj_phase j \<noteq> Marking"
  shows "delivery_inv what events marked (sent @ [(what (oj_event j), None)]) todo (add_mset (j\<lparr>oj_phase := Marking\<rparr>) held) results pub"
  using assms unfolding delivery_inv_def by auto

lemma delivery_checked:
  assumes "delivery_inv what events marked sent todo (add_mset j held) results pub" and "oj_phase j \<noteq> Marking"
  shows "delivery_inv what events marked sent todo (add_mset (j\<lparr>oj_phase := Publishing\<rparr>) held) results pub"
  using assms unfolding delivery_inv_def by auto

lemma delivery_submitted:
  assumes "delivery_inv what events marked sent (event # todo) held results pub"
  shows "delivery_inv what events marked sent todo (add_mset \<lparr>oj_event = event, oj_phase = Checking\<rparr> held) results pub"
  using assms unfolding delivery_inv_def by auto

lemma delivery_stopped:
  assumes "delivery_inv what events marked sent todo held results pub"
  shows "delivery_inv what events marked sent [] held results pub"
  using assms unfolding delivery_inv_def by (auto intro: subset_mset.order_trans [OF mset_subset_eq_add_left])

definition batch_inv :: "'db OutboxWorker \<Rightarrow> go_context \<Rightarrow> OutboxEvent list \<Rightarrow> 'db batch \<Rightarrow> bool" where
  "batch_inv w ctx events b \<longleftrightarrow> pool_inv (ba_pool b)
     \<and> wp_workers (ba_pool b) = nat (workerCount w (int (length events))) \<and> wp_queue (ba_pool b) = length events
     \<and> ba_submitted b \<le> length events
     \<and> (ba_todo b = drop (ba_submitted b) events \<or> ba_todo b = [] \<and> ctx_Err ctx (ba_now b) \<noteq> None)
     \<and> image_mset eid (mset (take (ba_submitted b) events)) = image_mset rid (mset (ow_results (ba_world b)))
         + image_mset (\<lambda>j. eid (oj_event j)) (mset (pool_holds (ba_pool b)))
     \<and> (\<forall>r \<in> set (ow_results (ba_world b)). or_stage r \<noteq> ''submit'')
     \<and> (wp_closed (ba_pool b) \<longrightarrow> ba_todo b = [])"

text \<open>Publishing takes time; both publishers of the program respect the clock.\<close>

definition publisher_clock :: "'db OutboxWorker \<Rightarrow> bool" where
  "publisher_clock w \<longleftrightarrow> (\<forall>ctx event e. now e \<le> now (snd (Publish (w_publisher w) ctx event e)))"

lemma publisher_clock_New [simp]: "publisher_clock (NewOutboxWorker writer cfg)"
  by (auto simp: publisher_clock_def NewOutboxWorker_def newOutboxPublisher_def log_Publish_def kafka_Publish_def Let_def
      split: option.split)

lemma job_step_now:
  assumes "job_step w outbox ctx j ow = (r, ow')" and "publisher_clock w"
  shows "now (ow_env ow) \<le> now (ow_env ow')"
proof -
  have "now (ow_env ow) \<le> now e1" if "Publish (w_publisher w) ctx (oj_event j) (ow_env ow) = (q, e1)" for q e1
    using assms(2) unfolding publisher_clock_def by (metis snd_conv that)
  then show ?thesis using assms(1)
    by (auto simp: job_step_def emit_result_def Let_def split: phase.splits option.splits prod.splits)
qed

lemma workerCount_pos: "0 < workerCount w n"
  by (simp add: workerCount_def)

lemma job_step_results:
  assumes "job_step w outbox ctx j ow = (r, ow')"
  shows "case r of None \<Rightarrow> \<exists>x. ow_results ow' = ow_results ow @ [x] \<and> rid x = eid (oj_event j) \<and> or_stage x \<noteq> ''submit''
    | Some j' \<Rightarrow> oj_event j' = oj_event j \<and> ow_results ow' = ow_results ow"
  using assms by (auto simp: job_step_def emit_result_def Let_def split: phase.splits option.splits prod.splits)

lemma pool_work_batch:
  assumes inv: "batch_inv w ctx events b" and clock: "publisher_clock w"
    and step: "pool_work (outbox_exec w outbox ctx) (ba_pool b) l p"
  shows "batch_inv w ctx events (b\<lparr>ba_pool := p\<rparr>)"
proof -
  have "image_mset rid (mset (ow_results (wp_shared p))) + image_mset (\<lambda>j. eid (oj_event j)) (mset (pool_holds p))
      = image_mset rid (mset (ow_results (ba_world b))) + image_mset (\<lambda>j. eid (oj_event j)) (mset (pool_holds (ba_pool b)))
    \<and> (\<forall>r \<in> set (ow_results (wp_shared p)). or_stage r \<noteq> ''submit'' \<or> r \<in> set (ow_results (ba_world b)))
    \<and> ba_now b \<le> now (ow_env (wp_shared p))"
    using pool_work_job [OF step]
  proof (elim disjE exE conjE)
    fix j rest r
    assume j: "mset (pool_holds (ba_pool b)) = add_mset j rest" "outbox_exec w outbox ctx j (ba_world b) r (wp_shared p)"
      "mset (pool_holds p) = (case r of None \<Rightarrow> rest | Some j' \<Rightarrow> add_mset j' rest)"
    from job_step_results [OF j(2) [unfolded outbox_exec_def]] job_step_now [OF j(2) [unfolded outbox_exec_def] clock] j(1,3)
    show ?thesis by (cases r) auto
  qed auto
  then show ?thesis
    using inv pool_inv_work [OF step] pool_work_sizes [OF step] ctx_Err_mono [of ctx "ba_now b" _ "now (ow_env (wp_shared p))"]
    by (auto simp: batch_inv_def)
qed

lemma batch_never_rejects:
  assumes inv: "batch_inv w ctx events b" and "ba_todo b = event # evs" and "wp_sending (ba_pool b) = None"
    and "Submit \<lparr>oj_event = event, oj_phase = Checking\<rparr> (ba_pool b) = (Some err, p)"
  shows False
proof -
  have "\<not> wp_closed (ba_pool b)" using inv assms(2) by (auto simp: batch_inv_def)
  have full: "wp_slots (ba_pool b) = wp_workers (ba_pool b) + wp_queue (ba_pool b)"
    using assms(4) \<open>\<not> wp_closed (ba_pool b)\<close> inv by (auto simp: Submit_def batch_inv_def pool_inv_def split: if_splits)
  have "ba_todo b = drop (ba_submitted b) events" using inv assms(2) by (auto simp: batch_inv_def)
  then have "ba_submitted b < length events" using assms(2) by (cases "ba_submitted b < length events") auto
  moreover have "size (image_mset eid (mset (take (ba_submitted b) events))) \<ge> length (pool_holds (ba_pool b))"
    using inv by (auto simp: batch_inv_def)
  moreover have "wp_queue (ba_pool b) = length events" "wp_slots (ba_pool b) = length (pool_holds (ba_pool b))"
    using inv pool_slots [of "ba_pool b"] by (auto simp: batch_inv_def)
  ultimately show False using full by simp
qed

lemma batch_step_inv:
  assumes "batch_step w outbox ctx b b'" and inv: "batch_inv w ctx events b" and clock: "publisher_clock w"
  shows "batch_inv w ctx events b'"
  using assms(1)
proof cases
  case (stop event evs)
  then show ?thesis using inv by (auto simp: batch_inv_def)
next
  case (submit event evs p)
  have p: "wp_shared p = ba_world b" "wp_workers p = wp_workers (ba_pool b)" "wp_queue p = wp_queue (ba_pool b)"
    "wp_closed p = wp_closed (ba_pool b)"
    using submit(5) by (auto simp: Submit_def split: if_splits)
  have "pool_inv p" using pool_inv_submit submit inv by (auto simp: batch_inv_def)
  moreover have "drop (ba_submitted b) events = event # evs" using inv submit(2) by (auto simp: batch_inv_def)
  then have "ba_submitted b < length events" "drop (Suc (ba_submitted b)) events = evs"
    "take (Suc (ba_submitted b)) events = take (ba_submitted b) events @ [event]"
    by (cases "ba_submitted b < length events"; simp add: take_Suc_conv_app_nth Cons_nth_drop_Suc [symmetric])+
  ultimately show ?thesis using inv submit p Submit_holds [OF submit(5,3)] by (auto simp: batch_inv_def)
next
  case (reject event evs err p)
  with batch_never_rejects [OF inv] show ?thesis by blast
next
  case shutdown
  then show ?thesis using inv pool_inv_shutdown [of "ba_pool b"] by (auto simp: batch_inv_def Shutdown_def pool_holds_def)
next
  case (work l p)
  then show ?thesis using pool_work_batch [OF inv clock] by blast
qed

lemma batch_wait_inv: "batch_wait b b' \<Longrightarrow> batch_inv w ctx events b \<Longrightarrow> batch_inv w ctx events b'"
proof -
  assume "batch_wait b b'" and inv: "batch_inv w ctx events b"
  then obtain d where d: "0 < d" "b' = b\<lparr>ba_pool := (ba_pool b)\<lparr>wp_shared :=
      (ba_world b)\<lparr>ow_env := (ow_env (ba_world b))\<lparr>now := ba_now b + d\<rparr>\<rparr>\<rparr>\<rparr>"
    by (auto simp: batch_wait_def)
  have "ctx_Err ctx (ba_now b + d) \<noteq> None" if "ctx_Err ctx (ba_now b) \<noteq> None"
    using that ctx_Err_mono [of ctx "ba_now b" _ "ba_now b + d"] d(1) by auto
  then show "batch_inv w ctx events b'" using inv by (auto simp: d(2) batch_inv_def)
qed

lemma batch_start_inv: 
  "batch_start w events ow b \<Longrightarrow> batch_inv w ctx events b \<and> wp_shared (ba_pool b) = ow\<lparr>ow_results := []\<rparr>
     \<and> pool_holds (ba_pool b) = []"
proof -
  assume "batch_start w events ow b"
  then obtain p where p: "NewWorkerPool (workerCount w (int (length events))) (int (length events)) (ow\<lparr>ow_results := []\<rparr>) = Some p"
    "b = \<lparr>ba_todo = events, ba_submitted = 0, ba_pool = p\<rparr>" by (auto simp: batch_start_def)
  then have "wp_shared p = ow\<lparr>ow_results := []\<rparr>" "\<not> wp_closed p" "wp_queue p = length events"
    "wp_workers p = nat (workerCount w (int (length events)))"
    by (auto simp: NewWorkerPool_def split: if_splits)
  then show ?thesis using p(2) pool_inv_new [OF p(1)] by (simp add: batch_inv_def)
qed

lemma batch_run_induct [consumes 1, case_names start step wait]:
  assumes "batch_run w outbox ctx b0 b" and "P b0"
    and "\<And>b b'. batch_run w outbox ctx b0 b \<Longrightarrow> P b \<Longrightarrow> batch_step w outbox ctx b b' \<Longrightarrow> P b'"
    and "\<And>b b'. batch_run w outbox ctx b0 b \<Longrightarrow> P b \<Longrightarrow> batch_wait b b' \<Longrightarrow> P b'"
  shows "P b"
proof -
  have "(\<lambda>b b'. batch_step w outbox ctx b b' \<or> batch_wait b b')\<^sup>*\<^sup>* b0 b" using assms(1) by (simp add: batch_run_def)
  then show ?thesis
  proof (induction rule: rtranclp_induct)
    case base
    then show ?case by (rule assms(2))
  next
    case (step b b')
    then have "batch_run w outbox ctx b0 b" by (simp add: batch_run_def)
    with step show ?case using assms(3,4) by blast
  qed
qed

lemma batch_run_first: "batch_step w outbox ctx b b1 \<Longrightarrow> batch_run w outbox ctx b1 b2 \<Longrightarrow> batch_run w outbox ctx b b2"
  unfolding batch_run_def by (rule converse_rtranclp_into_rtranclp) blast+

lemma batch_run_last: "batch_run w outbox ctx b b1 \<Longrightarrow> batch_step w outbox ctx b1 b2 \<Longrightarrow> batch_run w outbox ctx b b2"
  unfolding batch_run_def by (rule rtranclp.rtrancl_into_rtrancl) blast+

lemma batch_run_inv:
  assumes "batch_run w outbox ctx b0 b" and "batch_start w events ow b0" and clock: "publisher_clock w"
  shows "batch_inv w ctx events b"
  using assms(1)
proof (induction rule: batch_run_induct)
  case start
  then show ?case using batch_start_inv [OF assms(2)] by blast
next
  case (step b b')
  then show ?case using batch_step_inv [OF _ _ clock] by blast
next
  case (wait b b')
  then show ?case using batch_wait_inv by blast
qed

section \<open>Progress of a batch\<close>

definition batch_left :: "'db batch \<Rightarrow> nat" where
  "batch_left b = 7 * length (ba_todo b) + (if wp_closed (ba_pool b) then 0 else 1) + pool_rest phase_left (ba_pool b)"

lemma batch_step_decreases:
  assumes "batch_step w outbox ctx b b'" and inv: "batch_inv w ctx events b"
  shows "batch_left b' < batch_left b"
  using assms(1)
proof cases
  case (reject event evs err p)
  from batch_never_rejects [OF inv reject(2,3,5)] show ?thesis ..
next
  case (work l p)
  have "pool_inv (ba_pool b)" using inv by (simp add: batch_inv_def)
  from outbox_jobs.work_decreases [OF work(2) this] pool_work_sizes [OF work(2)] show ?thesis
    by (simp add: batch_left_def work(1))
next
  case (submit event evs p)
  then have "p = (ba_pool b)\<lparr>wp_slots := Suc (wp_slots (ba_pool b)), wp_sending := Some \<lparr>oj_event = event, oj_phase = Checking\<rparr>\<rparr>"
    by (simp add: Submit_def split: if_splits)
  then show ?thesis using submit by (simp add: batch_left_def pool_rest_def)
next
  case shutdown
  then show ?thesis by (simp add: batch_left_def pool_rest_def Shutdown_def)
qed (simp add: batch_left_def)

lemma batch_step_enabled:
  assumes inv: "batch_inv w ctx events b" and "\<not> batch_done b"
  shows "\<exists>b'. batch_step w outbox ctx b b'"
proof -
  have pool: "pool_inv (ba_pool b)" "0 < wp_workers (ba_pool b)"
    using inv workerCount_pos by (auto simp: batch_inv_def)
  have work: ?thesis if "pool_holds (ba_pool b) \<noteq> [] \<or> wp_closed (ba_pool b) \<and> \<not> Waited (ba_pool b)"
    using outbox_jobs.work_enabled [OF pool that] by (blast intro: batch_step.work)
  show ?thesis
  proof (cases "wp_sending (ba_pool b)")
    case (Some j)
    then show ?thesis using work by (simp add: pool_holds_def)
  next
    case None
    show ?thesis
    proof (cases "ba_todo b")
      case Nil
      then show ?thesis using None work assms(2) batch_step.shutdown [OF Nil None] by (auto simp: batch_done_def)
    next
      case (Cons event evs)
      obtain err p where "Submit \<lparr>oj_event = event, oj_phase = Checking\<rparr> (ba_pool b) = (err, p)"
        by (cases "Submit \<lparr>oj_event = event, oj_phase = Checking\<rparr> (ba_pool b)")
      then show ?thesis using batch_step.stop [OF Cons None] batch_step.submit [OF Cons None] batch_step.reject [OF Cons None]
        by (cases "ctx_Err ctx (ba_now b)"; cases err) blast+
    qed
  qed
qed

text \<open>At the end every submitted event has exactly one result.\<close>

lemma batch_done_results:
  assumes inv: "batch_inv w ctx events b" and "batch_done b"
  shows "image_mset rid (mset (ow_results (ba_world b))) = image_mset eid (mset (take (ba_submitted b) events))"
    and "ba_submitted b = length events \<or> ba_submitted b < length events \<and> ctx_Err ctx (ba_now b) \<noteq> None"
proof -
  have "pool_holds (ba_pool b) = []"
    using pool_drained [of "ba_pool b"] inv assms(2) workerCount_pos by (auto simp: batch_inv_def batch_done_def)
  then show "image_mset rid (mset (ow_results (ba_world b))) = image_mset eid (mset (take (ba_submitted b) events))"
    using inv by (simp add: batch_inv_def)
  show "ba_submitted b = length events \<or> ba_submitted b < length events \<and> ctx_Err ctx (ba_now b) \<noteq> None"
    using inv assms(2) by (auto simp: batch_inv_def batch_done_def)
qed

lemma job_step_db:
  "job_step w outbox ctx j ow = (r, ow') \<Longrightarrow> ow_db ow' = ow_db ow
     \<or> (\<exists>i t r'. OR_MarkPublished outbox OnDB ctx i t (ow_db ow) = (r', ow_db ow'))"
  by (auto simp: job_step_def emit_result_def Let_def split: phase.splits option.splits prod.splits)

text \<open>What marking keeps of the store, a batch keeps.\<close>

lemma batch_run_db:
  assumes "batch_run w outbox ctx b0 b" and "P (ow_db (ba_world b0))"
    and mark: "\<And>i t d r d'. OR_MarkPublished outbox OnDB ctx i t d = (r, d') \<Longrightarrow> P d \<Longrightarrow> P d'"
  shows "P (ow_db (ba_world b))"
  using assms(1)
proof (induction rule: batch_run_induct)
  case start
  show ?case by (rule assms(2))
next
  case (step b b')
  from step.hyps(2) show ?case
  proof cases
    case (work l p)
    from pool_work_job [OF work(2)] show ?thesis
    proof (elim disjE exE conjE)
      fix j rest r
      assume "outbox_exec w outbox ctx j (ba_world b) r (wp_shared p)"
      from job_step_db [OF this [unfolded outbox_exec_def]] show ?thesis using step.IH mark work(1) by auto
    qed (use step.IH work(1) in simp)
  qed (use step.IH in \<open>auto simp: Submit_def Shutdown_def emit_result_def split: if_splits\<close>)
next
  case (wait b b')
  then show ?case by (auto simp: batch_wait_def)
qed

text \<open>The run of a batch of one event in which nothing comes in between.\<close>

lemma job_runs_alone:
  assumes "phase_left j < n" and "wp_idle (ba_pool b) = 0" and "wp_running (ba_pool b) = [j]" and "wp_slots (ba_pool b) = 1"
  shows "batch_run w outbox ctx b (b\<lparr>ba_pool := (ba_pool b)\<lparr>wp_running := [], wp_slots := 0, wp_idle := 1,
      wp_shared := job_alone n w outbox ctx j (ba_world b)\<rparr>\<rparr>)"
  using assms
proof (induction n arbitrary: j b)
  case (Suc n)
  obtain r ow1 where js: "job_step w outbox ctx j (ba_world b) = (r, ow1)" by (cases "job_step w outbox ctx j (ba_world b)")
  then have ex: "outbox_exec w outbox ctx j (ba_world b) r ow1" by (simp add: outbox_exec_def)
  have run: "wp_running (ba_pool b) = [] @ j # []" using Suc(4) by simp
  show ?case
  proof (cases r)
    case None
    from batch_step.work [OF pool_work.finish [where exec = "outbox_exec w outbox ctx", OF run ex [unfolded None]]]
    have "batch_step w outbox ctx b (b\<lparr>ba_pool := (ba_pool b)\<lparr>wp_running := [], wp_slots := 0, wp_idle := 1,
        wp_shared := ow1\<rparr>\<rparr>)" using Suc(3,5) by simp
    from batch_run_last [OF _ this] show ?thesis using js None by (simp add: batch_run_def)
  next
    case (Some j1)
    let ?b1 = "b\<lparr>ba_pool := (ba_pool b)\<lparr>wp_running := [j1], wp_shared := ow1\<rparr>\<rparr>"
    have step: "batch_step w outbox ctx b ?b1"
      using batch_step.work [OF pool_work.work [where exec = "outbox_exec w outbox ctx", OF run ex [unfolded Some]]]
      by simp
    have "phase_left j1 < n" using outbox_jobs.exec_ends [OF ex [unfolded Some]] Suc(2) by simp
    from Suc(1) [OF this, of ?b1] Suc(3,5)
    have "batch_run w outbox ctx ?b1 (?b1\<lparr>ba_pool := (ba_pool ?b1)\<lparr>wp_running := [], wp_slots := 0, wp_idle := 1,
      wp_shared := job_alone n w outbox ctx j1 ow1\<rparr>\<rparr>)" by simp
    from batch_run_first [OF step this] js Some show ?thesis by simp
  qed
qed simp

lemma processEvents_single:
  assumes "ctx_Err ctx (now (ow_env ow)) = None"
  shows "processEvents w outbox ctx [event] ow
    (job_alone 3 w outbox ctx \<lparr>oj_event = event, oj_phase = Checking\<rparr> (ow\<lparr>ow_results := []\<rparr>))"
proof -
  let ?j = "\<lparr>oj_event = event, oj_phase = Checking\<rparr>" and ?ow = "ow\<lparr>ow_results := []\<rparr>"
  let ?ow' = "job_alone 3 w outbox ctx ?j ?ow"
  let ?p = "\<lparr>wp_workers = 1, wp_queue = 1, wp_jobs = [], wp_slots = 0, wp_closed = False,
     wp_sending = None, wp_idle = 1, wp_running = [], wp_exited = 0, wp_shared = ?ow\<rparr>"
  let ?init = "\<lparr>ba_todo = [event], ba_submitted = 0, ba_pool = ?p\<rparr>"
  let ?b = "\<lambda>p. \<lparr>ba_todo = [], ba_submitted = 1, ba_pool = p\<rparr>"
  let ?p1 = "?p\<lparr>wp_slots := 1, wp_sending := Some ?j\<rparr>" and ?p2 = "?p\<lparr>wp_slots := 1, wp_jobs := [?j]\<rparr>"
  let ?p3 = "?p\<lparr>wp_slots := 1, wp_idle := 0, wp_running := [?j]\<rparr>"
  let ?p4 = "?p\<lparr>wp_shared := ?ow'\<rparr>" and ?p5 = "?p\<lparr>wp_closed := True, wp_shared := ?ow'\<rparr>"
  let ?p6 = "?p\<lparr>wp_closed := True, wp_idle := 0, wp_exited := 1, wp_shared := ?ow'\<rparr>"
  have "workerCount w 1 = 1" by (auto simp: workerCount_def)
  then have start: "batch_start w [event] ow ?init" by (simp add: batch_start_def NewWorkerPool_def)
  have 1: "batch_step w outbox ctx ?init (?b ?p1)"
    using batch_step.submit [of ?init event "[]" ctx ?p1 w outbox] assms by (simp add: Submit_def)
  have 2: "batch_step w outbox ctx (?b ?p1) (?b ?p2)"
    using batch_step.work [OF pool_work.send [of "ba_pool (?b ?p1)" ?j]] by simp
  have 3: "batch_step w outbox ctx (?b ?p2) (?b ?p3)"
    using batch_step.work [OF pool_work.take [of "ba_pool (?b ?p2)" ?j "[]" 0]] by simp
  have 4: "batch_run w outbox ctx (?b ?p3) (?b ?p4)"
    using job_runs_alone [of ?j 3 "?b ?p3" w outbox ctx] by simp
  have 5: "batch_step w outbox ctx (?b ?p4) (?b ?p5)"
    using batch_step.shutdown [of "?b ?p4" w outbox ctx] by (simp add: Shutdown_def)
  have 6: "batch_step w outbox ctx (?b ?p5) (?b ?p6)"
    using batch_step.work [OF pool_work.exit [of "ba_pool (?b ?p5)" 0]] by simp
  have "batch_run w outbox ctx ?init (?b ?p6)"
    by (rule batch_run_first [OF 1 batch_run_first [OF 2 batch_run_first [OF 3 batch_run_last [OF batch_run_last [OF 4 5] 6]]]])
  moreover have "batch_done (?b ?p6)" by (simp add: batch_done_def Waited_def)
  ultimately show ?thesis using start unfolding processEvents_def by (intro exI [of _ ?init] exI [of _ "?b ?p6"]) simp
qed

section \<open>Delivery\<close>

locale outbox_delivery = outbox_publisher pub what + outbox_store outbox published store_ok
  for pub what and outbox :: "'db OutboxRepository" and published store_ok +
  fixes w :: "'db OutboxWorker"
  assumes publisher: "w_publisher w = pub"
begin

definition delivers :: "OutboxEvent list \<Rightarrow> (delivery \<times> go_error option) list \<Rightarrow> int64 set \<Rightarrow> OutboxEvent list
    \<Rightarrow> outbox_job multiset \<Rightarrow> 'db outbox_world \<Rightarrow> bool" where
  "delivers events before marked todo held ow \<longleftrightarrow> (\<exists>sent. trace (ow_env ow) = before @ sent
     \<and> delivery_inv what events marked sent todo held (ow_results ow) (published (ow_db ow)))"

lemma job_step_delivers:
  assumes "delivers events before marked todo (add_mset j held) ow" and "job_step w outbox ctx j ow = (r, ow')"
  shows "delivers events before marked todo (case r of None \<Rightarrow> held | Some j' \<Rightarrow> add_mset j' held) ow'"
proof -
  obtain sent where S: "trace (ow_env ow) = before @ sent"
    "delivery_inv what events marked sent todo (add_mset j held) (ow_results ow) (published (ow_db ow))"
    using assms(1) by (auto simp: delivers_def)
  show ?thesis
  proof (cases "oj_phase j")
    case Checking
    show ?thesis
    proof (cases "ctx_Err ctx (now (ow_env ow))")
      case None
      then show ?thesis using assms(2) Checking S delivery_checked [OF S(2)]
        by (auto simp: job_step_def delivers_def)
    next
      case (Some err)
      then show ?thesis
        using assms(2) Checking S delivery_failed [OF S(2), of "result_of (oj_event j) ''publish'' (Some err)" "[]" "Some err"]
        by (auto simp: job_step_def delivers_def emit_result_def)
    qed
  next
    case Publishing
    obtain err e where p: "Publish pub ctx (oj_event j) (ow_env ow) = (err, e)"
      by (cases "Publish pub ctx (oj_event j) (ow_env ow)")
    show ?thesis
    proof (cases err)
      case None
      then show ?thesis using assms(2) Publishing S p publish_ok [of ctx "oj_event j" "ow_env ow" e] delivery_sent [OF S(2)]
        by (auto simp: job_step_def delivers_def publisher)
    next
      case (Some err')
      obtain tries err2 where "trace e = trace (ow_env ow) @ tries" "tries \<in> {[], [(what (oj_event j), err2)]}"
        using publish_once [OF p] by (metis append_Nil2 insertI1 insertI2)
      with delivery_failed [OF S(2) _ _ this(2), of "result_of (oj_event j) ''publish'' (Some err')"]
      show ?thesis using assms(2) Publishing S p Some
        by (auto simp: job_step_def delivers_def publisher emit_result_def)
    qed
  next
    case Marking
    obtain err d where m: "OR_MarkPublished outbox OnDB ctx (ob_ID (oj_event j)) (now (ow_env ow)) (ow_db ow) = (err, d)"
      by (cases "OR_MarkPublished outbox OnDB ctx (ob_ID (oj_event j)) (now (ow_env ow)) (ow_db ow)")
    have fin: "delivery_inv what events marked sent todo held (ow_results ow @ [result_of (oj_event j) stage x]) (published d)" for stage x
      by (rule delivery_marked [OF S(2) Marking mark_one [OF m]]) simp
    have "r = None \<and> (\<exists>stage x. ow' = emit_result (result_of (oj_event j) stage x) (ow\<lparr>ow_db := d, ow_env := tick (ow_env ow)\<rparr>))"
      using assms(2) Marking m by (cases err) (auto simp: job_step_def)
    then show ?thesis using fin S(1) by (auto simp: delivers_def emit_result_def)
  qed
qed

lemma batch_step_delivers:
  assumes "batch_step w outbox ctx b b'" and "batch_inv w ctx events b"
    and inv: "delivers events before marked (ba_todo b) (mset (pool_holds (ba_pool b))) (ba_world b)"
  shows "delivers events before marked (ba_todo b') (mset (pool_holds (ba_pool b'))) (ba_world b')"
  using assms(1)
proof cases
  case (stop event evs)
  then show ?thesis using inv delivery_stopped by (auto simp: delivers_def)
next
  case (submit event evs p)
  have "wp_shared p = ba_world b" using submit(5) by (auto simp: Submit_def split: if_splits)
  then show ?thesis using inv submit delivery_submitted Submit_holds [OF submit(5,3)] by (fastforce simp: delivers_def)
next
  case (reject event evs err p)
  with batch_never_rejects [OF assms(2)] show ?thesis by blast
next
  case shutdown
  then show ?thesis using inv by (simp add: Shutdown_def pool_holds_def)
next
  case (work l p)
  from pool_work_job [OF work(2)] show ?thesis
  proof (elim disjE exE conjE)
    fix j rest r
    assume j: "mset (pool_holds (ba_pool b)) = add_mset j rest" "outbox_exec w outbox ctx j (ba_world b) r (wp_shared p)"
      "mset (pool_holds p) = (case r of None \<Rightarrow> rest | Some j' \<Rightarrow> add_mset j' rest)"
    from job_step_delivers [OF _ j(2) [unfolded outbox_exec_def]] inv j work(1) show ?thesis by simp
  qed (use inv work(1) in simp)
qed

lemma batch_run_delivers:
  assumes "batch_run w outbox ctx b0 b" and "batch_start w events ow b0"
  shows "delivers events (trace (ow_env ow)) (published (ow_db ow)) (ba_todo b) (mset (pool_holds (ba_pool b))) (ba_world b)"
  using assms(1)
proof (induction rule: batch_run_induct)
  case start
  have "ba_todo b0 = events" using assms(2) by (auto simp: batch_start_def)
  then show ?case using batch_start_inv [OF assms(2)]
    by (auto simp: delivers_def delivery_inv_def unsent_def intro!: exI [of _ "[]"])
next
  case (step b b')
  have "batch_inv w ctx events b" by (rule batch_run_inv [OF step(1) assms(2)]) (simp add: publisher_clock_def publisher publish_clock)
  with step show ?case using batch_step_delivers by blast
next
  case (wait b b')
  then show ?case by (auto simp: batch_wait_def delivers_def)
qed

end

text \<open>The publisher that \<open>newOutboxPublisher\<close> chooses.\<close>

definition delivery_of :: "'db OutboxWorkerConfig \<Rightarrow> OutboxEvent \<Rightarrow> delivery" where
  "delivery_of cfg event =
     (if oc_Brokers cfg = [] \<or> oc_Topic cfg = [] then LogLine (ob_ID event) (ob_EventType event)
      else KafkaMessage (kafka_message_of (oc_Topic cfg) event))"

lemma NewOutboxWorker_simps [simp]:
  "w_outbox (NewOutboxWorker writer cfg) = oc_Outbox cfg"
  "w_publisher (NewOutboxWorker writer cfg) = newOutboxPublisher writer cfg"
  by (simp_all add: NewOutboxWorker_def Let_def)

interpretation new_publisher: outbox_publisher "newOutboxPublisher writer cfg" "delivery_of cfg" for writer cfg
  by unfold_locales
    (auto simp: newOutboxPublisher_def delivery_of_def log_Publish_def kafka_Publish_def Let_def split: option.split)

end
