(* ===== verification/Payflow_Server.thy ===== *)
theory Payflow_Server
  imports Payflow_Chain Payflow_Config Payflow_Database Payflow_Service Payflow_Outbox
begin

text \<open>
  The server (\<open>cmd/server/main.go\<close>): what it builds from the configuration, the routes and the chain of
  middleware in front of them, start and shutdown. The properties are those of whole requests, for
  every configuration: what a request can do to the database, who can cause it, and what the response
  looks like.
\<close>

section \<open>Tracing set-up\<close>

text \<open>
  \<open>internal/telemetry/tracing.go\<close>: the options that are handed to the OpenTelemetry library, whose
  exporter may refuse them (\<open>new_exporter\<close>).
\<close>

record TraceConfig =
  tr_Enabled :: bool
  tr_ServiceName :: string
  tr_OTLPEndpoint :: string
  tr_OTLPInsecure :: bool

datatype exporter_option = WithEndpointURL string | WithEndpoint string | WithInsecure

record tracer_provider =
  tp_service :: string
  tp_exporter :: "exporter_option list option"

fun contains :: "string \<Rightarrow> string \<Rightarrow> bool" where
  "contains [] sub \<longleftrightarrow> sub = []"
| "contains (c # cs) sub \<longleftrightarrow> take (length sub) (c # cs) = sub \<or> contains cs sub"

definition SetupTracing :: "(exporter_option list \<Rightarrow> go_error option) \<Rightarrow> TraceConfig \<Rightarrow> go_error + tracer_provider option" where
  "SetupTracing new_exporter cfg =
     (if \<not> tr_Enabled cfg then Inr None
      else (let serviceName = TrimSpace (tr_ServiceName cfg);
                serviceName = (if serviceName = [] then ''payflow'' else serviceName);
                endpoint = TrimSpace (tr_OTLPEndpoint cfg)
            in if endpoint = [] then Inr (Some \<lparr>tp_service = serviceName, tp_exporter = None\<rparr>)
               else (let options = (if contains endpoint ''://'' then [WithEndpointURL endpoint] else [WithEndpoint endpoint])
                           @ (if tr_OTLPInsecure cfg then [WithInsecure] else [])
                     in case new_exporter options of
                          Some err \<Rightarrow> Inl err
                        | None \<Rightarrow> Inr (Some \<lparr>tp_service = serviceName, tp_exporter = Some options\<rparr>))))"

definition parseLogLevel :: "string \<Rightarrow> level" where
  "parseLogLevel raw =
     (if raw = ''debug'' then LevelDebug
      else if raw = ''warn'' then LevelWarn
      else if raw = ''error'' then LevelError
      else LevelInfo)"

section \<open>What the server is built from\<close>

text \<open>
  The network in front of the HTTP bank client, and the Kafka writer, are parameters of what uses them.
\<close>

record network =
  nw_parse :: "string \<Rightarrow> go_error option"
  nw_answer :: "nat \<Rightarrow> go_error + http_response"
  nw_kafka :: kafka_writer

definition bank_of :: "network \<Rightarrow> Config \<Rightarrow> BankClient" where
  "bank_of nw cfg =
     (if BankAPIURL cfg \<noteq> [] then HTTP_Charge (NewHTTPBankClient (nw_parse nw) (nw_answer nw) (BankAPIURL cfg) (BankAPITimeout cfg))
      else Simulated_Charge \<lparr>sim_Latency = 150 * millisecond, sim_RejectAmounts = None, sim_FailAmounts = None\<rparr>)"

definition service_config :: "network \<Rightarrow> Config \<Rightarrow> pgdb PaymentServiceConfig" where
  "service_config nw cfg =
     \<lparr>c_DB = Some pg_sqlDB, c_Merchants = pg_MerchantRepo, c_Transactions = pg_TransactionRepo,
      c_Events = pg_EventRepo, c_Outbox = Some pg_OutboxRepo, c_BankClient = Some (bank_of nw cfg),
      c_CircuitBreaker = Some (NewCircuitBreaker (sint (BankCBThreshold cfg)) (BankCBReset cfg)),
      c_RetryConfig = \<lparr>MaxAttempts = sint (BankMaxRetries cfg), BaseDelay = BankRetryBase cfg, MaxDelay = BankRetryMax cfg,
                       Jitter = BankRetryJitter cfg, ShouldRetry = None, Sleep = None, Rand = None\<rparr>,
      c_BankTimeout = BankAPITimeout cfg, c_MaxTransactionCents = MaxTransactionCents cfg\<rparr>"

definition outbox_worker_of :: "network \<Rightarrow> Config \<Rightarrow> pgdb OutboxWorker" where
  "outbox_worker_of nw cfg =
     (if KafkaEnabled cfg
      then NewOutboxWorker (nw_kafka nw) \<lparr>oc_Outbox = Some pg_OutboxRepo, oc_Brokers = KafkaBrokers cfg, oc_Topic = KafkaTopic cfg,
             oc_Interval = second, oc_BatchSize = 100, oc_Concurrency = 0\<rparr>
      else NewOutboxWorker (nw_kafka nw) \<lparr>oc_Outbox = Some pg_OutboxRepo, oc_Brokers = [], oc_Topic = [],
             oc_Interval = 2 * second, oc_BatchSize = 100, oc_Concurrency = 0\<rparr>)"

text \<open>A Redis client exists exactly if an address is configured; a failing ping is only logged.\<close>

definition has_redis :: "Config \<Rightarrow> bool" where
  "has_redis cfg \<longleftrightarrow> RedisAddr cfg \<noteq> []"

definition limiter_of :: "Config \<Rightarrow> 'db RequestLimiter" where
  "limiter_of cfg =
     (if has_redis cfg
      then Redis_Allow (Some (NewRedisRateLimiter True (fl (of_int (sint (RateLimitRPS cfg)))) (fl (of_int (sint (RateLimitBurst cfg))))))
      else in_memory_limiter)"

record Server =
  sr_service :: "pgdb PaymentService"
  sr_health :: "pgdb HealthHandler"
  sr_limiter :: "pgdb RequestLimiter"
  sr_idempotency :: "IdempotencyStore option"
  sr_worker :: "pgdb OutboxWorker"
  sr_addr :: string

definition version :: string where "version = ''1.0.0''"

definition new_server :: "network \<Rightarrow> Config \<Rightarrow> int \<Rightarrow> Server" where
  "new_server nw cfg t =
     \<lparr>sr_service = fst (NewPaymentService (service_config nw cfg)),
      sr_health = NewHealthHandler (Some HealthCheck) version t,
      sr_limiter = limiter_of cfg,
      sr_idempotency = NewIdempotencyStore (has_redis cfg),
      sr_worker = outbox_worker_of nw cfg,
      sr_addr = Addr cfg\<rparr>"

definition new_app :: "network \<Rightarrow> Config \<Rightarrow> redis \<Rightarrow> pgdb world \<Rightarrow> pgdb app" where
  "new_app nw cfg rd w =
     \<lparr>ap_world = w\<lparr>wbreaker := snd (NewPaymentService (service_config nw cfg))\<rparr>, ap_redis = rd,
      ap_limiter = NewRateLimiter (sint (RateLimitRPS cfg)) (sint (RateLimitBurst cfg)),
      ap_metrics = \<lparr>activeRequests = 0, httpRequestsTotal = (\<lambda>_. 0), httpDurationSeconds = (\<lambda>_. [])\<rparr>, ap_log = []\<rparr>"

section \<open>Routes\<close>

text \<open>
  The routes and their handlers. The router (chi) finds the route for a method and a path and the value
  of \<open>{id}\<close>; what it does with a request that has no route, the pattern it reports afterwards and the Prometheus
  handler are parameters.
\<close>

datatype endpoint =
    EHealth | EReady | EMetrics | ECreate | EGetByID | ERefund | EGetEvents | EGetBalance | EListByMerchant | EUnrouted

definition routes :: "(string \<times> string \<times> endpoint) list" where
  "routes =
     [(''GET'', ''/health'', EHealth), (''GET'', ''/ready'', EReady), (''GET'', ''/metrics'', EMetrics),
      (''POST'', ''/api/v1/transactions/'', ECreate), (''GET'', ''/api/v1/transactions/{id}'', EGetByID),
      (''POST'', ''/api/v1/transactions/{id}/refund'', ERefund), (''GET'', ''/api/v1/transactions/{id}/events'', EGetEvents),
      (''GET'', ''/api/v1/merchants/{id}/balance'', EGetBalance),
      (''GET'', ''/api/v1/merchants/{id}/transactions'', EListByMerchant)]"

record foreign =
  fo_metrics :: "pgdb handler"
  fo_unrouted :: "pgdb handler"
  fo_route :: "Request \<Rightarrow> pgdb app \<Rightarrow> string"

abbreviation authenticated :: "pgdb handler \<Rightarrow> pgdb handler" where
  "authenticated \<equiv> APIKeyAuth pg_MerchantRepo"

fun dispatch :: "foreign \<Rightarrow> Server \<Rightarrow> endpoint \<Rightarrow> pgdb handler" where
  "dispatch fo sr EHealth = Health_Check (sr_health sr)"
| "dispatch fo sr EReady = Health_Ready"
| "dispatch fo sr EMetrics = fo_metrics fo"
| "dispatch fo sr ECreate = authenticated (Idempotency (sr_idempotency sr) (Create (sr_service sr)))"
| "dispatch fo sr EGetByID = authenticated (GetByID (sr_service sr))"
| "dispatch fo sr ERefund = authenticated (Refund (sr_service sr))"
| "dispatch fo sr EGetEvents = authenticated (GetEvents (sr_service sr))"
| "dispatch fo sr EGetBalance = authenticated (GetBalance (sr_service sr))"
| "dispatch fo sr EListByMerchant = authenticated (ListByMerchant (sr_service sr))"
| "dispatch fo sr EUnrouted = fo_unrouted fo"

text \<open>The middleware in the order of \<open>r.Use\<close>.\<close>

definition ServeHTTP :: "foreign \<Rightarrow> Server \<Rightarrow> endpoint \<Rightarrow> pgdb handler" where
  "ServeHTTP fo sr e =
     Recovery (RequestID (Tracing (fo_route fo) (Logging (MetricsMiddleware (CORS (RateLimit (Some (sr_limiter sr))
       (dispatch fo sr e)))))))"

section \<open>Start and shutdown\<close>

text \<open>
  \<open>main\<close> up to the point where it serves. \<open>migrate\<close> is \<open>RunMigrations\<close>; \<open>Exit n\<close> is \<open>os.Exit(n)\<close>, which
  runs no deferred function.
\<close>

datatype started = Exit int | Serving Config DB Server "pgdb app"

record host =
  ho_environ :: environment
  ho_conv :: int64
  ho_exporter :: "exporter_option list \<Rightarrow> go_error option"
  ho_sql_Open :: "string \<Rightarrow> go_error option"
  ho_migrate :: "go_context \<Rightarrow> pgdb world \<Rightarrow> go_error option \<times> pgdb world"
  ho_network :: network
  ho_redis :: redis

definition start_main :: "host \<Rightarrow> pgdb world \<Rightarrow> started" where
  "start_main ho w =
     (case Load (ho_conv ho) (ho_environ ho) of
        Inl err \<Rightarrow> Exit 1
      | Inr cfg \<Rightarrow>
          (case SetupTracing (ho_exporter ho) \<lparr>tr_Enabled = TracingEnabled cfg, tr_ServiceName = TracingServiceName cfg,
                  tr_OTLPEndpoint = TracingOTLPEndpoint cfg, tr_OTLPInsecure = TracingOTLPInsecure cfg\<rparr> of
             Inl err \<Rightarrow> Exit 1
           | Inr tracing \<Rightarrow>
               (case Connect (ho_sql_Open ho) Background (DatabaseURL cfg) (DBMaxOpenConns cfg) (DBMaxIdleConns cfg) (DBConnMaxLife cfg) w of
                  (Inl err, w1) \<Rightarrow> Exit 1
                | (Inr db, w1) \<Rightarrow>
                    (case ho_migrate ho Background w1 of
                       (Some err, w2) \<Rightarrow> Exit 1
                     | (None, w2) \<Rightarrow>
                         Serving cfg db (new_server (ho_network ho) cfg (now (wenv w2))) (new_app (ho_network ho) cfg (ho_redis ho) w2)))))"

text \<open>
  The end of \<open>main\<close>: what stops the server, what is done then and the exit code. The deferred calls run in
  reverse order, unless \<open>os.Exit\<close> ends the process first.
\<close>

datatype stop = SignalReceived | ServerFailed

datatype shutdown_action =
    CancelWorker | ShutdownServer int | CancelShutdownContext | StopSignals | CloseRedis | CloseDB | ShutdownTracing int

definition stop_main :: "Config \<Rightarrow> stop \<Rightarrow> shutdown_action list \<times> int" where
  "stop_main cfg why =
     (let exitCode = (case why of SignalReceived \<Rightarrow> 0 | ServerFailed \<Rightarrow> 1);
          actions = [CancelWorker, ShutdownServer (30 * second)];
          deferred = [CancelShutdownContext, StopSignals, CancelWorker] @ (if has_redis cfg then [CloseRedis] else [])
                       @ [CloseDB, ShutdownTracing (5 * second)]
      in if exitCode \<noteq> 0 then (actions, exitCode) else (actions @ deferred, 0))"

section \<open>The service keeps the contract\<close>

lemma bank_of_client: "bank_client (bank_of nw cfg)"
  by (simp add: bank_of_def simulated.bank_client_axioms http.bank_client_axioms)

text \<open>The service that \<open>main\<close> builds is the service on PostgreSQL, with the standard clock and random source.\<close>

lemma new_service:
  "\<exists>rc timeout maxCents. fst (NewPaymentService (service_config nw cfg)) = pg_service (bank_of nw cfg) rc timeout maxCents
     \<and> default_timing rc \<and> 0 < sint maxCents"
proof -
  let ?svc = "fst (NewPaymentService (service_config nw cfg))"
  have "?svc = pg_service (bank_of nw cfg) (s_retry ?svc) (s_bankTimeout ?svc) (s_maxTransactionCents ?svc)"
    by (simp add: NewPaymentService_def service_config_def pg_service_def Let_def)
  moreover have "default_timing (s_retry ?svc)"
    by (simp add: NewPaymentService_def service_config_def default_timing_def Let_def)
  moreover have "0 < sint (s_maxTransactionCents ?svc)"
    by (simp add: NewPaymentService_def service_config_def Let_def DefaultMaxTransactionCents_def not_le)
  ultimately show ?thesis by blast
qed

abbreviation db_ok :: "pgdb world \<Rightarrow> bool" where
  "db_ok w \<equiv> pg_ok (wdb w)"

definition books_step :: "pgdb world \<Rightarrow> pgdb world \<Rightarrow> bool" where
  "books_step w w' \<longleftrightarrow> ledger (pg_book w) (pg_book w')"

interpretation pg_requests: world_contract db_ok books_step
proof unfold_locales
  show "books_step w w" for w by (simp add: books_step_def)
  show "books_step w w1 \<Longrightarrow> books_step w1 w2 \<Longrightarrow> books_step w w2" for w w1 w2
    unfolding books_step_def by (rule rtranclp_trans)
  show "keeps db_ok books_step (\<lambda>w. ((), w\<lparr>wenv := tick (wenv w)\<rparr>))"
    by (simp add: keeps_def books_step_def pg_book_def)
qed

lemma keeps_read:
  assumes "\<And>t d r d'. pg_ok d \<Longrightarrow> op t d = (r, d') \<Longrightarrow> same_data d d'"
  shows "keeps db_ok books_step (rcall op)"
proof -
  have "db_ok w' \<and> books_step w w'" if "db_ok w" "rcall op w = (r, w')" for w r w'
    using same_dataD [OF assms [OF that(1) rcall_run [OF that(2)]]] that(1) by (simp add: books_step_def pg_book_def)
  then show ?thesis by (simp add: keeps_def)
qed

lemma live_OnDB [simp]: "pg_live OnDB d"
  by (simp add: pg_live_def tables_on_def)

lemma query_same_data:
  "run_stmt OnDB ctx stmt t d = (x, d') \<Longrightarrow> (\<And>tb r tb'. stmt tb = Inr (r, tb') \<Longrightarrow> tb' = tb) \<Longrightarrow> same_data d d'"
  using run_query by (metis live_OnDB)

lemma pg_GetByAPIKey_row:
  assumes "pg_GetByAPIKey OnDB ctx k t d = (r, d')"
  shows "same_data d d' \<and> (\<forall>m. r = Inr m \<longrightarrow> m \<in> set (t_merchants (pg_committed d)) \<and> m_APIKey m = k \<and> m_Status m = ''ACTIVE'')"
proof -
  obtain x where run: "run_stmt OnDB ctx (select_api_key k) t d = (x, d')" and x: "\<And>m. r = Inr m \<Longrightarrow> x = Inr (Some m)"
    using assms by (auto simp: pg_GetByAPIKey_def split: prod.splits sum.splits option.splits)
  from run_query [OF run live_OnDB] show ?thesis
    using x by (auto simp: select_api_key_def tables_on_def find_Some_iff)
qed

lemma pg_lists_same_data:
  "pg_ListByTransaction OnDB ctx i t d = (r, d') \<Longrightarrow> same_data d d'"
  "pg_ListByMerchant OnDB ctx m params t d = (r', d') \<Longrightarrow> same_data d d'"
proof -
  have rows: "same_data d (snd (rows_Err d))" for d
    by (auto simp: rows_Err_def next_fault_def same_data_def split: list.splits fault.splits)
  have trans: "same_data a b \<Longrightarrow> same_data b c \<Longrightarrow> same_data a c" for a b c by (simp add: same_data_def)
  show "pg_ListByTransaction OnDB ctx i t d = (r, d') \<Longrightarrow> same_data d d'"
  proof -
    assume run: "pg_ListByTransaction OnDB ctx i t d = (r, d')"
    let ?q = "\<lambda>tb. Inr (sort_key e_created_at (filter (\<lambda>r. e_transaction_id r = i) (t_events tb)), tb)"
    obtain x d1 where q: "run_stmt OnDB ctx ?q t d = (x, d1)" by fastforce
    have "same_data d d1" by (rule query_same_data [OF q]) auto
    moreover have "d' = d1 \<or> d' = snd (next_fault d1)"
      using run q by (cases "next_fault d1") (auto simp: pg_ListByTransaction_def split: sum.splits fault.splits)
    ultimately show ?thesis using same_data_next_fault [of d1] trans by auto
  qed
  show "pg_ListByMerchant OnDB ctx m params t d = (r', d') \<Longrightarrow> same_data d d'"
  proof -
    assume run: "pg_ListByMerchant OnDB ctx m params t d = (r', d')"
    let ?q = "\<lambda>tb. Inr (count_where (\<lambda>r. r_merchant_id r = m) (t_transactions tb), tb)"
    obtain x d1 where q: "run_stmt OnDB ctx ?q t d = (x, d1)" by fastforce
    obtain y d2 where p: "run_stmt OnDB ctx (select_page m params) t d1 = (y, d2)" by fastforce
    have "same_data d d1" by (rule query_same_data [OF q]) auto
    moreover have "same_data d1 d2" by (rule query_same_data [OF p]) (auto simp: select_page_def split: if_splits)
    moreover have "d' = d1 \<or> d' = d2 \<or> d' = snd (rows_Err d2)"
      using run q p by (cases "rows_Err d2") (auto simp: pg_ListByMerchant_def split: sum.splits option.splits)
    ultimately show ?thesis using rows [of d2] trans by blast
  qed
qed

lemma keeps_then:
  assumes "keeps db_ok books_step f" and "\<And>x. keeps db_ok books_step (g x)"
  shows "keeps db_ok books_step (\<lambda>w. case f w of (x, w1) \<Rightarrow> g x w1)"
proof -
  have "db_ok w2 \<and> books_step w w2" if "db_ok w" "f w = (x, w1)" "g x w1 = (y, w2)" for w x w1 y w2
    using assms that pg_requests.S_trans unfolding keeps_def by blast
  then show ?thesis by (auto simp: keeps_def split: prod.splits)
qed

lemma keeps_service:
  fixes timeout :: int and maxCents :: int64
  assumes "bank_client bank" and "default_timing rc"
  defines "s \<equiv> pg_service bank rc timeout maxCents"
  shows "keeps db_ok books_step (CreateTransaction s ctx input)" and "keeps db_ok books_step (RefundTransaction s ctx m i reason)"
    and "keeps db_ok books_step (GetTransaction s ctx m i)" and "keeps db_ok books_step (GetTransactionHistory s ctx m i)"
    and "keeps db_ok books_step (ListTransactions s ctx m params)" and "keeps db_ok books_step (GetMerchantBalance s ctx m)"
    and "keeps db_ok books_step (rcall (MR_GetByAPIKey pg_MerchantRepo OnDB ctx k))" and "keeps db_ok books_step (HealthCheck ctx)"
proof -
  show "keeps db_ok books_step (CreateTransaction s ctx input)"
    using pgs.db_store.CreateTransaction_steps [OF _ disjI1, of _ bank rc timeout maxCents ctx input] assms(1,2)
    by (auto simp: keeps_def books_step_def pg_book_def s_def pg_service_def)
  show "keeps db_ok books_step (RefundTransaction s ctx m i reason)"
    using pgs.db_store.RefundTransaction_steps [of _ bank rc timeout maxCents ctx m i reason]
    by (auto simp: keeps_def books_step_def pg_book_def s_def)
  have owned: "keeps db_ok books_step (ownedTransaction s ctx m i)"
    using pgs.db_store.ownedTransaction_steps [of _ bank rc timeout maxCents ctx m i]
    by (auto simp: keeps_def books_step_def pg_book_def s_def)
  then show "keeps db_ok books_step (GetTransaction s ctx m i)" by (simp add: keeps_def GetTransaction_def)
  have events: "keeps db_ok books_step (rcall (ER_ListByTransaction pg_EventRepo OnDB ctx i))"
    by (rule keeps_read) (use pg_lists_same_data(1) in \<open>auto simp: pg_EventRepo_def\<close>)
  have "keeps db_ok books_step (\<lambda>w. case ownedTransaction s ctx m i w of (x, w1) \<Rightarrow>
      (case x of Inl err \<Rightarrow> (\<lambda>w. (Inl err, w)) | Inr _ \<Rightarrow> rcall (ER_ListByTransaction pg_EventRepo OnDB ctx i)) w1)"
  proof (rule keeps_then [OF owned])
    show "keeps db_ok books_step (case x of Inl err \<Rightarrow> (\<lambda>w. (Inl err, w)) | Inr _ \<Rightarrow> rcall (ER_ListByTransaction pg_EventRepo OnDB ctx i))"
      for x :: "go_error + Transaction"
      using events by (cases x) (simp_all add: keeps_def books_step_def)
  qed
  moreover have "GetTransactionHistory s ctx m i = (\<lambda>w. case ownedTransaction s ctx m i w of (x, w1) \<Rightarrow>
      (case x of Inl err \<Rightarrow> (\<lambda>w. (Inl err, w)) | Inr _ \<Rightarrow> rcall (ER_ListByTransaction pg_EventRepo OnDB ctx i)) w1)"
    by (auto simp: fun_eq_iff GetTransactionHistory_def s_def pg_service_def split: prod.splits sum.splits)
  ultimately show "keeps db_ok books_step (GetTransactionHistory s ctx m i)" by simp
  have "keeps db_ok books_step (rcall (TR_ListByMerchant pg_TransactionRepo OnDB ctx m params))"
    by (rule keeps_read) (use pg_lists_same_data(2) in \<open>auto simp: pg_TransactionRepo_def\<close>)
  then show "keeps db_ok books_step (ListTransactions s ctx m params)"
    by (simp add: keeps_def ListTransactions_def s_def pg_service_def)
  show "keeps db_ok books_step (GetMerchantBalance s ctx m)"
    using pgs.db_store.merchant_lookup [of _ bank rc timeout maxCents ctx m]
    by (auto simp: keeps_def books_step_def pg_book_def s_def GetMerchantBalance_def dest!: rcall_run) 
  show "keeps db_ok books_step (rcall (MR_GetByAPIKey pg_MerchantRepo OnDB ctx k))"
    by (rule keeps_read) (use pg_GetByAPIKey_row in \<open>auto simp: pg_MerchantRepo_def\<close>)
  show "keeps db_ok books_step (HealthCheck ctx)"
  proof -
    have "keeps db_ok books_step (rcall (pg_Ping c))" for c by (rule keeps_read) (rule pg_Ping_same_data)
    then show ?thesis by (simp add: keeps_def HealthCheck_def)
  qed
qed

section \<open>Whole requests\<close>

lemma limiter_of_safe:
  "app_ok db_ok app \<Longrightarrow> limiter_of cfg ctx key app = (r, app') \<Longrightarrow> safe db_ok books_step app app'"
  using pg_requests.in_memory_limiter_safe pg_requests.Redis_Allow_safe by (auto simp: limiter_of_def split: if_splits)

text \<open>The endpoints whose handlers are the program's own.\<close>

definition own_endpoint :: "endpoint \<Rightarrow> bool" where
  "own_endpoint e \<longleftrightarrow> e \<noteq> EMetrics \<and> e \<noteq> EUnrouted"

lemma dispatch_serves:
  assumes "own_endpoint e"
  shows "serves db_ok books_step documented (dispatch fo (new_server nw cfg t) e)"
proof -
  obtain rc timeout maxCents where svc: "fst (NewPaymentService (service_config nw cfg)) = pg_service (bank_of nw cfg) rc timeout maxCents"
    and rc: "default_timing rc" using new_service by blast
  note K = keeps_service(1-6) [OF bank_of_client [of nw cfg] rc, where timeout = timeout and maxCents = maxCents, folded svc]
    keeps_service(7,8) [OF bank_of_client [of nw cfg] rc]
  have auth: "serves db_ok books_step documented (authenticated h)" if "serves db_ok books_step documented h" for h
    by (rule pg_requests.serves_APIKeyAuth [OF that K(7)])
  have H: "serves db_ok books_step documented (Health_Check (NewHealthHandler (Some HealthCheck) version t))"
    "serves db_ok books_step documented Health_Ready"
    by (rule pg_requests.serves_Health, simp add: NewHealthHandler_def K(8))
      (rule pg_requests.serves_Health(2) [where h = "NewHealthHandler (Some HealthCheck) version t"], simp add: NewHealthHandler_def K(8))
  show ?thesis using assms
    by (cases e) (simp_all add: own_endpoint_def new_server_def H auth pg_requests.serves_Idempotency
        pg_requests.serves_Create pg_requests.serves_GetByID pg_requests.serves_Refund pg_requests.serves_GetEvents
        pg_requests.serves_GetBalance pg_requests.serves_ListByMerchant K)
qed

text \<open>The response to a request of method \<open>meth\<close>: headers, then a document, or the answer to a preflight request.\<close>

definition delivered :: "string \<Rightarrow> served \<Rightarrow> bool" where
  "delivered meth sv \<longleftrightarrow> sv_panic sv = None \<and>
     (\<exists>i ops. i \<noteq> [] \<and> sv_ops sv = SetHeader ''X-Request-Id'' i # ops \<and> (if meth = ''OPTIONS'' then preflight ops else json_answer ops))"

lemma ServeHTTP_serves:
  assumes "own_endpoint e" and "app_ok db_ok app" and run: "ServeHTTP fo (new_server nw cfg t) e r app = (sv, app')"
  shows "safe db_ok books_step app app'" and "delivered (rq_Method r) sv"
proof -
  let ?sr = "new_server nw cfg t"
  let ?inner = "RateLimit (Some (sr_limiter ?sr)) (dispatch fo ?sr e)"
  note around = pg_requests.serves_Recovery [OF pg_requests.serves_RequestID [OF pg_requests.serves_Tracing [OF pg_requests.serves_Logging
        [OF pg_requests.serves_Metrics]]]]
  have "serves db_ok books_step documented ?inner"
    by (rule pg_requests.serves_RateLimit [OF dispatch_serves [OF assms(1)]]) (auto simp: new_server_def intro: limiter_of_safe)
  note inner = pg_requests.serves_cors(1) [OF this]
  have doc: "serves db_ok books_step (\<lambda>sv. sv_panic sv = None \<and> (\<exists>i ops. i \<noteq> [] \<and> sv_ops sv = SetHeader ''X-Request-Id'' i # ops \<and> json_answer ops))
    (Recovery (RequestID (Tracing (fo_route fo) (Logging (MetricsMiddleware (cors_headers ?inner))))))"
    by (rule around [OF inner]) (auto simp: documented_def split: option.splits)
  have pre: "serves db_ok books_step (\<lambda>sv. sv_panic sv = None \<and> (\<exists>i ops. i \<noteq> [] \<and> sv_ops sv = SetHeader ''X-Request-Id'' i # ops \<and> preflight ops))
    (Recovery (RequestID (Tracing (fo_route fo) (Logging (MetricsMiddleware cors_preflight)))))"
    by (rule around [OF pg_requests.serves_cors(2)]) (auto simp: preflighted_def)
  have "safe db_ok books_step app app' \<and> delivered (rq_Method r) sv"
  proof (cases "rq_Method r = ''OPTIONS''")
    case True
    from servesD [OF pre assms(2), of r sv app'] run True show ?thesis by (simp add: ServeHTTP_def chain_CORS delivered_def)
  next
    case False
    from servesD [OF doc assms(2), of r sv app'] run False show ?thesis by (simp add: ServeHTTP_def chain_CORS delivered_def)
  qed
  then show "safe db_ok books_step app app'" and "delivered (rq_Method r) sv" by simp_all
qed

text \<open>Requests one after the other.\<close>

definition serve_all :: "foreign \<Rightarrow> Server \<Rightarrow> (endpoint \<times> Request) list \<Rightarrow> pgdb app \<Rightarrow> pgdb app" where
  "serve_all fo sr reqs app = fold (\<lambda>(e, r) app. snd (ServeHTTP fo sr e r app)) reqs app"

lemma serve_all_safe:
  assumes "\<forall>(e, r) \<in> set reqs. own_endpoint e" and "app_ok db_ok app"
  shows "safe db_ok books_step app (serve_all fo (new_server nw cfg t) reqs app)"
  using assms
proof (induction reqs arbitrary: app)
  case Nil
  then show ?case by (simp add: serve_all_def pg_requests.safe_refl)
next
  case (Cons req reqs)
  obtain e r where er: "req = (e, r)" by (cases req)
  obtain sv app1 where s: "ServeHTTP fo (new_server nw cfg t) e r app = (sv, app1)" by fastforce
  have "safe db_ok books_step app app1" using ServeHTTP_serves(1) [OF _ Cons.prems(2) s] Cons.prems(1) er by simp
  moreover from this have "safe db_ok books_step app1 (serve_all fo (new_server nw cfg t) reqs app1)"
    using Cons.IH Cons.prems(1) safeD by fastforce
  ultimately have "safe db_ok books_step app (serve_all fo (new_server nw cfg t) reqs app1)" by (rule pg_requests.safe_trans)
  then show ?case by (simp add: serve_all_def er s)
qed

lemma new_app_ok [simp]: "app_ok db_ok (new_app nw cfg rd w) \<longleftrightarrow> pg_ok (wdb w) \<and> redis_ok (rd_keys rd)"
  "pg_book (ap_world (new_app nw cfg rd w)) = pg_book w"
  by (simp_all add: app_ok_def new_app_def pg_book_def)

section \<open>Responses\<close>

lemma w_step_headers:
  assumes "list_all is_header hs"
  shows "\<exists>h. fold w_step hs c = c\<lparr>cn_header := h\<rparr> \<and> h ''X-Request-Id'' = cn_header c ''X-Request-Id''"
  using assms
proof (induction hs arbitrary: c)
  case Nil
  then show ?case by (intro exI [of _ "cn_header c"]) simp
next
  case (Cons op hs)
  then obtain k v where op: "op = SetHeader k v" "k \<noteq> ''X-Request-Id''" by (cases op) auto
  from Cons.IH [of "w_step op c"] Cons.prems obtain h where
    "fold w_step hs (w_step op c) = (w_step op c)\<lparr>cn_header := h\<rparr>" "h ''X-Request-Id'' = cn_header (w_step op c) ''X-Request-Id''" by auto
  then show ?case using op by (intro exI [of _ h]) auto
qed

lemma response_of_delivered:
  assumes "delivered meth sv"
  defines "rs \<equiv> response_of (sv_ops sv)"
  shows "\<exists>i. i \<noteq> [] \<and> rs_header rs ''X-Request-Id'' = Some i
    \<and> (if meth = ''OPTIONS'' then rs_status rs = 204 \<and> rs_body rs = []
       else json_status (rs_status rs) \<and> rs_header rs ''Content-Type'' = Some ''application/json''
         \<and> (\<exists>doc. rs_body rs = [doc] \<and> good_document (rs_status rs) doc))"
proof -
  obtain i ops where i: "i \<noteq> []" "sv_ops sv = SetHeader ''X-Request-Id'' i # ops"
    and ops: "if meth = ''OPTIONS'' then preflight ops else json_answer ops"
    using assms(1) by (auto simp: delivered_def)
  let ?c = "\<lparr>cn_header = [''X-Request-Id'' \<mapsto> i], cn_sent = None\<rparr>"
  show ?thesis
  proof (cases "meth = ''OPTIONS''")
    case False
    then obtain hs code doc where ops: "ops = hs @ document code doc" "list_all is_header hs" "json_status code" "good_document code doc"
      using ops by (auto simp: json_answer_def)
    from w_step_headers [OF ops(2), of ?c] obtain h where
      h: "fold w_step hs ?c = ?c\<lparr>cn_header := h\<rparr>" "h ''X-Request-Id'' = Some i" by auto
    have "rs = \<lparr>rs_status = code, rs_header = h(''Content-Type'' \<mapsto> ''application/json''), rs_body = [doc]\<rparr>"
      using ops(3) by (simp add: rs_def response_of_def i(2) ops(1) h(1) document_def send_header_def informational_def bodyless_def json_status_def)
    then show ?thesis using i(1) h(2) ops(3,4) False by simp
  next
    case True
    then obtain hs where ops: "ops = hs @ [WriteHeader 204]" "list_all is_header hs" using ops by (auto simp: preflight_def)
    from w_step_headers [OF ops(2), of ?c] obtain h where
      h: "fold w_step hs ?c = ?c\<lparr>cn_header := h\<rparr>" "h ''X-Request-Id'' = Some i" by auto
    have "rs = \<lparr>rs_status = 204, rs_header = h, rs_body = []\<rparr>"
      by (simp add: rs_def response_of_def i(2) ops(1) h(1) send_header_def informational_def bodyless_def)
    then show ?thesis using i(1) h(2) True by simp
  qed
qed

section \<open>Who can change anything\<close>

text \<open>Neither the database nor the bank notices.\<close>

definition unnoticed :: "'db app \<Rightarrow> 'db app \<Rightarrow> bool" where
  "unnoticed app app' \<longleftrightarrow> wdb (ap_world app') = wdb (ap_world app) \<and> trace (wenv (ap_world app')) = trace (wenv (ap_world app))"

text \<open>A middleware that at most calls the next handler once, with the headers of the request.\<close>

definition transparent :: "'db handler \<Rightarrow> 'db handler \<Rightarrow> bool" where
  "transparent next h \<longleftrightarrow> (\<forall>r app sv app'. h r app = (sv, app') \<longrightarrow> unnoticed app app'
     \<or> (\<exists>r1 app1 sv1 app2. rq_Header r1 = rq_Header r \<and> unnoticed app app1 \<and> next r1 app1 = (sv1, app2) \<and> unnoticed app2 app'))"

lemma unnoticed_refl [simp]: "unnoticed app app"
  by (simp add: unnoticed_def)

lemma unnoticed_trans: "unnoticed a b \<Longrightarrow> unnoticed b c \<Longrightarrow> unnoticed a c"
  by (simp add: unnoticed_def)

lemma transparentI:
  assumes g: "transparent next g"
    and h: "\<And>r app. unnoticed app (snd (h r app))
      \<or> (\<exists>r1 app1. rq_Header r1 = rq_Header r \<and> unnoticed app app1 \<and> unnoticed (snd (g r1 app1)) (snd (h r app)))"
  shows "transparent next h"
  unfolding transparent_def
proof (intro allI impI)
  fix r app sv app'
  assume run: "h r app = (sv, app')"
  show "unnoticed app app' \<or> (\<exists>r1 app1 sv1 app2. rq_Header r1 = rq_Header r \<and> unnoticed app app1 \<and> next r1 app1 = (sv1, app2) \<and> unnoticed app2 app')"
  proof (cases "unnoticed app app'")
    case False
    with h [of app r] run obtain r1 app1 where
      1: "rq_Header r1 = rq_Header r" "unnoticed app app1" "unnoticed (snd (g r1 app1)) app'" by auto
    from g have "unnoticed app1 (snd (g r1 app1)) \<or> (\<exists>r2 app3 sv2 app4. rq_Header r2 = rq_Header r1 \<and> unnoticed app1 app3
        \<and> next r2 app3 = (sv2, app4) \<and> unnoticed app4 (snd (g r1 app1)))"
      unfolding transparent_def by (metis prod.collapse)
    then show ?thesis using 1 unnoticed_trans by metis
  qed simp
qed

lemma transparent_self: "transparent next next"
  unfolding transparent_def by (metis unnoticed_refl)

text \<open>A middleware that calls the next handler with the same headers and state, up to what nobody notices.\<close>

lemma through:
  "rq_Header r1 = rq_Header r \<Longrightarrow> unnoticed app app1 \<Longrightarrow> unnoticed (snd (g r1 app1)) app'
    \<Longrightarrow> unnoticed app app' \<or> (\<exists>r1 app1. rq_Header r1 = rq_Header r \<and> unnoticed app app1 \<and> unnoticed (snd (g r1 app1)) app')"
  by blast

lemma transparent_RequestID: "transparent next g \<Longrightarrow> transparent next (RequestID g)"
proof (rule transparentI, assumption)
  fix r :: Request and app :: "'a app"
  let ?r = "r\<lparr>rq_RequestID := Some (if Header_Get r ''X-Request-Id'' = [] then ''req_'' @ show_int (ap_now app) else Header_Get r ''X-Request-Id'')\<rparr>"
  show "unnoticed app (snd (RequestID g r app))
      \<or> (\<exists>r1 app1. rq_Header r1 = rq_Header r \<and> unnoticed app app1 \<and> unnoticed (snd (g r1 app1)) (snd (RequestID g r app)))"
    by (rule through [of ?r r app app]) (simp_all add: RequestID_def Let_def before_def)
qed

lemma transparent_Tracing: "transparent next g \<Longrightarrow> transparent next (Tracing route g)"
  by (rule transparentI, assumption, rule through [OF refl unnoticed_refl])
    (simp add: Tracing_def Let_def unnoticed_def case_prod_beta)

lemma transparent_Logging: "transparent next g \<Longrightarrow> transparent next (Logging g)"
  by (rule transparentI, assumption, rule through [OF refl unnoticed_refl])
    (simp add: Logging_def Let_def unnoticed_def case_prod_beta)

lemma transparent_Metrics: "transparent next g \<Longrightarrow> transparent next (MetricsMiddleware g)"
proof (rule transparentI, assumption)
  fix r :: Request and app :: "'a app"
  show "unnoticed app (snd (MetricsMiddleware g r app))
      \<or> (\<exists>r1 app1. rq_Header r1 = rq_Header r \<and> unnoticed app app1 \<and> unnoticed (snd (g r1 app1)) (snd (MetricsMiddleware g r app)))"
    by (rule through [of r r app "measure_app IncrementActive app"])
      (simp_all add: MetricsMiddleware_def measure_app_def unnoticed_def case_prod_beta)
qed

lemma transparent_CORS: "transparent next g \<Longrightarrow> transparent next (CORS g)"
proof (rule transparentI, assumption)
  fix r :: Request and app :: "'a app"
  show "unnoticed app (snd (CORS g r app))
      \<or> (\<exists>r1 app1. rq_Header r1 = rq_Header r \<and> unnoticed app app1 \<and> unnoticed (snd (g r1 app1)) (snd (CORS g r app)))"
  proof (cases "rq_Method r = ''OPTIONS''")
    case False
    then show ?thesis by (intro through [of r r app app]) (simp_all add: CORS_def Let_def before_def)
  qed (simp add: CORS_def Let_def)
qed

lemma transparent_Recovery: "transparent next g \<Longrightarrow> transparent next (Recovery g)"
  by (rule transparentI, assumption, rule through [OF refl unnoticed_refl])
    (simp add: Recovery_def unnoticed_def case_prod_beta split: option.split)

lemma transparent_RateLimit:
  assumes "transparent next g" and "\<And>ctx key app x app'. allow ctx key app = (x, app') \<Longrightarrow> unnoticed app app'"
  shows "transparent next (RateLimit (Some allow) g)"
proof (rule transparentI [OF assms(1)])
  fix r :: Request and app :: "'a app"
  obtain x app1 where a: "allow (rq_Context r) (clientIDFromRequest r) app = (x, app1)" by fastforce
  note u = assms(2) [OF a]
  show "unnoticed app (snd (RateLimit (Some allow) g r app))
      \<or> (\<exists>r1 app1. rq_Header r1 = rq_Header r \<and> unnoticed app app1 \<and> unnoticed (snd (g r1 app1)) (snd (RateLimit (Some allow) g r app)))"
  proof (cases "x = Inr False")
    case True
    then show ?thesis using a u by (simp add: RateLimit_def)
  next
    case False
    then have "RateLimit (Some allow) g r app = g r app1" using a by (auto simp: RateLimit_def split: sum.splits bool.splits)
    then show ?thesis by (intro through [OF refl u]) simp
  qed
qed

lemma rd_call_unnoticed: "rd_call cmd ctx app = (x, app') \<Longrightarrow> unnoticed app app'"
  by (auto simp: rd_call_def unnoticed_def split: prod.splits)

lemma limiter_of_unnoticed: "limiter_of cfg ctx key app = (x, app') \<Longrightarrow> unnoticed app app'"
proof (cases "has_redis cfg")
  case True
  let ?l = "NewRedisRateLimiter True (fl (of_int (sint (RateLimitRPS cfg)))) (fl (of_int (sint (RateLimitBurst cfg))))"
  assume run: "limiter_of cfg ctx key app = (x, app')"
  obtain y app1 where c: "rd_call (rate_limit_script (rateLimitRedisKey key) (rr_rate ?l) (rr_burst ?l)) ctx app = (y, app1)" by fastforce
  have "app' = app1" using run c True by (auto simp: limiter_of_def Redis_Allow_def NewRedisRateLimiter_def split: sum.splits)
  then show ?thesis using rd_call_unnoticed [OF c] by simp
qed (auto simp: limiter_of_def in_memory_limiter_def unnoticed_def split: prod.splits)

lemma ServeHTTP_transparent: "transparent (dispatch fo (new_server nw cfg t) e) (ServeHTTP fo (new_server nw cfg t) e)"
  unfolding ServeHTTP_def
  by (intro transparent_Recovery transparent_RequestID transparent_Tracing transparent_Logging transparent_Metrics transparent_CORS
      transparent_RateLimit transparent_self) (auto simp: new_server_def dest: limiter_of_unnoticed)

lemma SplitN2_join: "length (SplitN2 c s) = 2 \<Longrightarrow> s = SplitN2 c s ! 0 @ c # SplitN2 c s ! 1"
proof -
  assume "length (SplitN2 c s) = 2"
  then have c: "c \<in> set s" by (auto simp: SplitN2_def split: if_splits)
  then obtain x where "dropWhile (\<lambda>x. x \<noteq> c) s = c # tl (dropWhile (\<lambda>x. x \<noteq> c) s)"
    by (cases "dropWhile (\<lambda>x. x \<noteq> c) s") (auto simp: dropWhile_eq_Nil_conv dropWhile_eq_Cons_conv)
  then show ?thesis using c takeWhile_dropWhile_id [of "\<lambda>x. x \<noteq> c" s] by (simp add: SplitN2_def)
qed

lemma APIKeyAuth_row:
  assumes run: "APIKeyAuth pg_MerchantRepo h r app = (sv, app')"
    and noticed: "pg_book (ap_world app') \<noteq> pg_book (ap_world app) \<or> trace (wenv (ap_world app')) \<noteq> trace (wenv (ap_world app))"
  shows "\<exists>m \<in> set (t_merchants (pg_committed (wdb (ap_world app)))). m_Status m = ''ACTIVE''
    \<and> rq_Header r ''Authorization'' = Some (''Bearer '' @ m_APIKey m)"
proof -
  let ?parts = "SplitN2 (CHR '' '') (Header_Get r ''Authorization'')"
  let ?ask = "in_world (rcall (MR_GetByAPIKey pg_MerchantRepo OnDB (rq_Context r) (?parts ! 1))) app"
  obtain x app1 where a: "?ask = (x, app1)" by fastforce
  then obtain w1 where g: "rcall (MR_GetByAPIKey pg_MerchantRepo OnDB (rq_Context r) (?parts ! 1)) (ap_world app) = (x, w1)"
    and w1: "ap_world app1 = w1" by (auto simp: in_world_def split: prod.splits)
  note G = pg_GetByAPIKey_row [OF rcall_run [OF g, unfolded pg_MerchantRepo_def MerchantRepository.simps]]
  have same: "pg_book (ap_world app1) = pg_book (ap_world app)" "trace (wenv (ap_world app1)) = trace (wenv (ap_world app))"
  proof -
    have "trace (wenv w1) = trace (wenv (ap_world app))" using g by (auto simp: rcall_def split: prod.splits)
    then show "pg_book (ap_world app1) = pg_book (ap_world app)" "trace (wenv (ap_world app1)) = trace (wenv (ap_world app))"
      using same_dataD(2) [OF conjunct1 [OF G]] w1 by (simp_all add: pg_book_def)
  qed
  show ?thesis
  proof (cases "length ?parts = 2 \<and> ?parts ! 0 = ''Bearer'' \<and> (\<exists>m. x = Inr m)")
    case False
    then have "app' = app \<or> app' = app1"
      using run a by (auto simp: APIKeyAuth_def Let_def split: if_splits sum.splits)
    then show ?thesis using noticed same by auto
  next
    case True
    then obtain m where m: "x = Inr m" by blast
    have "Header_Get r ''Authorization'' = ''Bearer '' @ m_APIKey m"
      using SplitN2_join [of "CHR '' ''" "Header_Get r ''Authorization''"] True G m by simp
    then have "rq_Header r ''Authorization'' = Some (''Bearer '' @ m_APIKey m)"
      by (auto simp: Header_Get_def split: option.splits)
    then show ?thesis using G m by blast
  qed
qed

text \<open>The endpoints behind \<open>APIKeyAuth\<close>.\<close>

definition api_endpoint :: "endpoint \<Rightarrow> bool" where
  "api_endpoint e \<longleftrightarrow> e \<in> {ECreate, EGetByID, ERefund, EGetEvents, EGetBalance, EListByMerchant}"

lemma dispatch_api: "api_endpoint e \<Longrightarrow> \<exists>h. dispatch fo sr e = APIKeyAuth pg_MerchantRepo h"
  by (cases e) (auto simp: api_endpoint_def)

section \<open>Properties\<close>

text \<open>C29: the server refines the ledger: for every configuration, any sequence of HTTP requests to its endpoints
  takes the book in the database only through steps of the ledger specification, whatever fails in the
  database, in Redis and at the bank; so the balance of a merchant less its completed payments stays
  what it was.\<close>

theorem server_refines_ledger:
  assumes "pg_ok (wdb w)" and "redis_ok (rd_keys rd)" and "\<forall>(e, r) \<in> set reqs. own_endpoint e"
  shows "let w' = ap_world (serve_all fo (new_server nw cfg t) reqs (new_app nw cfg rd w)) in
    ledger (pg_book w) (pg_book w') \<and> bk_base i (pg_book w') = bk_base i (pg_book w)"
proof -
  let ?app = "new_app nw cfg rd w"
  have "safe db_ok books_step ?app (serve_all fo (new_server nw cfg t) reqs ?app)"
    by (rule serve_all_safe) (use assms in auto)
  then have "ledger (pg_book w) (pg_book (ap_world (serve_all fo (new_server nw cfg t) reqs ?app)))"
    by (simp add: safe_def books_step_def)
  moreover have "book_ok (pg_book w)" using pgs.db_store.store_book assms(1) by (simp add: pg_book_def)
  ultimately show ?thesis by (simp add: Let_def ledger_base)
qed

text \<open>C30: requests to the program's own endpoints (not \<open>/metrics\<close>, whose handler is Prometheus' own and answers in
  its text format, nor paths without a route, which the router answers) get a well-formed response, whatever requests
  came before, and no panic reaches the connection. There is always a request identifier. A preflight
  request (method \<open>OPTIONS\<close>) gets 204 without a body. For any other the body is exactly one JSON document of type \<open>application/json\<close>
  with a status between 200 and 599, and it fits the status: in the API's envelope \<open>success\<close> is true exactly
  below 400 and an \<open>error\<close> with code and message is there from 400 on; a health report says \<open>healthy\<close> or
  \<open>ready\<close> with 200 and \<open>degraded\<close> with 503. This includes the errors the middleware formats by hand and the
  responses replayed from Redis.\<close>

theorem server_response_type:
  assumes "pg_ok (wdb w)" and "redis_ok (rd_keys rd)" and "\<forall>(e, r) \<in> set reqs. own_endpoint e" and "own_endpoint e"
    and "ServeHTTP fo (new_server nw cfg t) e r (serve_all fo (new_server nw cfg t) reqs (new_app nw cfg rd w)) = (sv, app')"
  shows "sv_panic sv = None \<and> (let rs = response_of (sv_ops sv) in
    rs_header rs ''X-Request-Id'' \<noteq> None
    \<and> (if rq_Method r = ''OPTIONS'' then rs_status rs = 204 \<and> rs_body rs = []
       else 200 \<le> rs_status rs \<and> rs_status rs < 600 \<and> rs_header rs ''Content-Type'' = Some ''application/json''
         \<and> (\<exists>c v. rs_body rs = [c] \<and> chunk_value c = Some v \<and> (api_document (rs_status rs) v \<or> health_document (rs_status rs) v))))"
proof -
  have "app_ok db_ok (serve_all fo (new_server nw cfg t) reqs (new_app nw cfg rd w))"
    using safeD [OF serve_all_safe [OF assms(3)]] assms(1,2) by simp
  from ServeHTTP_serves(2) [OF assms(4) this assms(5)] have d: "delivered (rq_Method r) sv" .
  then show ?thesis using response_of_delivered [OF d]
    by (auto simp: delivered_def Let_def json_status_def good_document_def split: if_splits)
qed

text \<open>C31: nobody without the key of an active merchant can change anything: if a request to an endpoint of the API
  changes the book or reaches the bank, its \<open>Authorization\<close> header is \<open>Bearer\<close> and the API key of a merchant
  that is active in the database.\<close>

theorem server_needs_api_key:
  assumes "api_endpoint e" and "ServeHTTP fo (new_server nw cfg t) e r app = (sv, app')"
    and "pg_book (ap_world app') \<noteq> pg_book (ap_world app) \<or> trace (wenv (ap_world app')) \<noteq> trace (wenv (ap_world app))"
  shows "\<exists>m \<in> set (t_merchants (pg_committed (wdb (ap_world app)))). m_Status m = ''ACTIVE''
    \<and> rq_Header r ''Authorization'' = Some (''Bearer '' @ m_APIKey m)"
proof -
  have same: "unnoticed a b \<Longrightarrow> pg_book (ap_world b) = pg_book (ap_world a) \<and> trace (wenv (ap_world b)) = trace (wenv (ap_world a))" for a b
    by (simp add: unnoticed_def pg_book_def)
  obtain h where h: "dispatch fo (new_server nw cfg t) e = APIKeyAuth pg_MerchantRepo h" using dispatch_api [OF assms(1)] by blast
  from ServeHTTP_transparent [of fo nw cfg t e] assms(2,3) same obtain r1 app1 sv1 app2 where
    r1: "rq_Header r1 = rq_Header r" "unnoticed app app1" "APIKeyAuth pg_MerchantRepo h r1 app1 = (sv1, app2)" "unnoticed app2 app'"
    unfolding transparent_def h by metis
  have "pg_book (ap_world app2) \<noteq> pg_book (ap_world app1) \<or> trace (wenv (ap_world app2)) \<noteq> trace (wenv (ap_world app1))"
    using assms(3) same r1(2,4) by metis
  from APIKeyAuth_row [OF r1(3) this] show ?thesis using r1(1,2) by (simp add: unnoticed_def)
qed

section \<open>A sample server\<close>

text \<open>
  A configuration that allows no request at all, but with a Redis that does not answer at first, so that
  the limit is not enforced; the sample database; a refund by its merchant.
\<close>

definition config_sample :: Config where
  "config_sample = projr (Load 0 [''REDIS_ADDR'' \<mapsto> ''localhost:6379'', ''RATE_LIMIT_RPS'' \<mapsto> ''0'', ''RATE_LIMIT_BURST'' \<mapsto> ''0'',
     ''MAX_TRANSACTION_AMOUNT_CENTS'' \<mapsto> ''2500000''])"

definition redis_sample :: redis where
  "redis_sample = \<lparr>rd_keys = Map.empty, rd_faults = [Lost 0 ''i/o timeout'']\<rparr>"

definition network_sample :: network where
  "network_sample = \<lparr>nw_parse = (\<lambda>_. None), nw_answer = (\<lambda>_. Inl (New ''no route to host'')),
     nw_kafka = \<lparr>kw_answer = (\<lambda>_ _ _. None), kw_close = None\<rparr>\<rparr>"

definition foreign_sample :: foreign where
  "foreign_sample = \<lparr>fo_metrics = (\<lambda>r app. (respond_with [], app)), fo_unrouted = (\<lambda>r app. (respond_with [WriteHeader 404], app)), fo_route = (\<lambda>r app. ''/api/v1/transactions/{id}/refund'')\<rparr>"

definition db_world_sample :: "pgdb world" where
  "db_world_sample = \<lparr>wdb = pg_sample [completed_sample] [], wbreaker = NewCircuitBreaker 3 second,
     wenv = bank_env_sample\<lparr>lat := (\<lambda>_. 0)\<rparr>\<rparr>"

abbreviation server_sample :: Server where
  "server_sample \<equiv> new_server network_sample config_sample 0"

abbreviation app_sample :: "pgdb app" where
  "app_sample \<equiv> new_app network_sample config_sample redis_sample db_world_sample"

definition refund_request_sample :: Request where
  "refund_request_sample = \<lparr>rq_Method = ''POST'', rq_Path = ''/api/v1/transactions/tx_1/refund'',
     rq_Header = [''Authorization'' \<mapsto> ''Bearer '' @ m_APIKey merchant_sample], rq_RemoteAddr = ''10.0.0.1:5000'', rq_Query = (\<lambda>_. []),
     rq_Body = Some (VObject [(''reason'', VString ''late'')]), rq_URLParam = ''tx_1'', rq_Context = Background,
     rq_RequestID = None, rq_Merchant = None\<rparr>"

lemma sample_ok: "pg_ok (wdb db_world_sample)" "redis_ok (rd_keys redis_sample)"
  by (simp_all add: db_world_sample_def pg_sample_ok redis_sample_def redis_ok_def)

lemma server_refines_ledger_witness:
  "bk_base ''m_001'' (pg_book (ap_world (serve_all foreign_sample server_sample
     [(ERefund, refund_request_sample), (EHealth, refund_request_sample)] app_sample))) = Some 5000"
proof -
  have "bk_base ''m_001'' (pg_book db_world_sample) = Some 5000" by code_simp
  then show ?thesis
    using server_refines_ledger [OF sample_ok, of "[(ERefund, refund_request_sample), (EHealth, refund_request_sample)]"
        foreign_sample network_sample config_sample 0 "''m_001''"]
    by (simp add: Let_def own_endpoint_def)
qed

text \<open>The parts of the sample server, and the run of the refund through the whole chain.\<close>

definition retry_sample :: "BankChargeRequest RetryConfig" where
  "retry_sample = \<lparr>MaxAttempts = 3, BaseDelay = 100 * millisecond, MaxDelay = second, Jitter = 50 * millisecond,
     ShouldRetry = Some isRetryableBankError, Sleep = None, Rand = None\<rparr>"

definition service_sample :: "pgdb PaymentService" where
  "service_sample = pg_service (Simulated_Charge \<lparr>sim_Latency = 150 * millisecond, sim_RejectAmounts = None, sim_FailAmounts = None\<rparr>)
     retry_sample (5 * second) 2500000"

lemma config_sample_values:
  "BankAPIURL config_sample = []" "sint (BankMaxRetries config_sample) = 3" "BankRetryBase config_sample = 100 * millisecond"
  "BankRetryMax config_sample = second" "BankRetryJitter config_sample = 50 * millisecond" "MaxTransactionCents config_sample = 2500000"
  "BankAPITimeout config_sample = 5 * second"
  by code_simp+

lemma sample_chain:
  "ServeHTTP foreign_sample server_sample ERefund =
     Recovery (RequestID (Tracing (fo_route foreign_sample) (Logging (MetricsMiddleware (CORS (RateLimit (Some (limiter_of config_sample))
       (APIKeyAuth pg_MerchantRepo (Refund service_sample))))))))"
proof -
  have "sr_service server_sample = service_sample"
    by (simp add: new_server_def NewPaymentService_def service_config_def bank_of_def config_sample_values pg_service_def
        retry_sample_def service_sample_def Let_def)
  then show ?thesis unfolding ServeHTTP_def dispatch.simps by (simp add: new_server_def)
qed

lemma refund_run_sample:
  "case ServeHTTP foreign_sample server_sample ERefund refund_request_sample app_sample of
     (sv, app') \<Rightarrow> rs_status (response_of (sv_ops sv)) = 200 \<and> bk_bal (pg_book (ap_world app')) ''m_001'' = Some 5000"
  unfolding sample_chain by code_simp

lemma server_response_type_witness:
  "\<exists>c v. rs_body (response_of (sv_ops (fst (ServeHTTP foreign_sample server_sample ERefund refund_request_sample app_sample)))) = [c]
     \<and> chunk_value c = Some v \<and> (api_document 200 v \<or> health_document 200 v)"
proof -
  let ?run = "ServeHTTP foreign_sample server_sample ERefund refund_request_sample app_sample"
  have s: "rs_status (response_of (sv_ops (fst ?run))) = 200" using refund_run_sample by (simp add: case_prod_beta)
  have "ServeHTTP foreign_sample server_sample ERefund refund_request_sample (serve_all foreign_sample server_sample [] app_sample) = (fst ?run, snd ?run)"
    by (simp add: serve_all_def)
  from server_response_type [OF sample_ok _ _ this] s show ?thesis by (auto simp: Let_def own_endpoint_def refund_request_sample_def)
qed

lemma server_needs_api_key_witness:
  "\<exists>m \<in> set (t_merchants (pg_committed (wdb (ap_world app_sample)))). m_Status m = ''ACTIVE''
    \<and> rq_Header refund_request_sample ''Authorization'' = Some (''Bearer '' @ m_APIKey m)"
proof -
  let ?run = "ServeHTTP foreign_sample server_sample ERefund refund_request_sample app_sample"
  have "bk_bal (pg_book (ap_world (snd ?run))) ''m_001'' = Some 5000" using refund_run_sample by (simp add: case_prod_beta)
  moreover have "bk_bal (pg_book db_world_sample) ''m_001'' = Some 10000" by code_simp
  ultimately have "pg_book (ap_world (snd ?run)) \<noteq> pg_book (ap_world app_sample)" by auto
  with server_needs_api_key [of ERefund foreign_sample network_sample config_sample 0 refund_request_sample app_sample "fst ?run" "snd ?run"]
  show ?thesis by (simp add: api_endpoint_def)
qed

end
