(* ===== verification/Payflow_Delivery.thy ===== *)
theory Payflow_Delivery
  imports Payflow_Outbox Payflow_Postgres Payflow_Mock
begin

text \<open>
  The outbox worker on the repositories of the program: both interpret \<open>outbox_store\<close>, and with the
  publisher of \<open>NewOutboxWorker\<close> they give the delivery guarantees stated at the end.
\<close>

section \<open>PostgreSQL as a store\<close>

definition pg_published :: "pgdb \<Rightarrow> int64 set" where
  "pg_published d = o_id ` {r \<in> set (t_outbox (pg_committed d)). o_published r}"

definition pg_outbox_ids :: "pgdb \<Rightarrow> int64 list" where
  "pg_outbox_ids d = map o_id (t_outbox (pg_committed d))"

lemma update_where_ids [simp]: "(\<And>r. o_id (f r) = o_id r) \<Longrightarrow> map o_id (update_where P f xs) = map o_id xs"
  by (simp add: update_where_def)

lemma run_stmt_outbox:
  assumes "run_stmt OnDB ctx stmt t d = (res, d')"
  shows "pg_committed d' = pg_committed d \<or> (\<exists>r. stmt (pg_committed d) = Inr (r, pg_committed d'))"
proof -
  have "pg_live OnDB d" by (simp add: pg_live_def tables_on_def)
  from run_stmt_cases [OF assms this] show ?thesis
    by (auto simp: same_data_def put_tables_def tables_on_def)
qed

lemma pg_mark_outbox:
  assumes "pg_MarkPublished OnDB ctx i t d = (r, d')"
  shows "t_outbox (pg_committed d') = t_outbox (pg_committed d)
    \<or> t_outbox (pg_committed d') = update_where (\<lambda>r. o_id r = i) (\<lambda>r. r\<lparr>o_published := True, o_published_at := Some t\<rparr>) (t_outbox (pg_committed d))"
proof -
  obtain q where "run_stmt OnDB ctx (mark_published i t) t d = (q, d')"
    using assms by (auto simp: pg_MarkPublished_def NOW_def split: prod.splits sum.splits)
  from run_stmt_outbox [OF this] show ?thesis by (auto simp: mark_published_def dest!: sym [of _ "pg_committed d'"])
qed

lemma pg_claim_outbox:
  assumes "pg_FetchUnpublished OnDB ctx n t d = (res, d')"
  shows "pg_committed d' = pg_committed d \<or> (\<exists>rows. claim_outbox n t (pg_committed d) = Inr (rows, pg_committed d'))"
proof -
  obtain q d1 where q: "run_stmt OnDB ctx (claim_outbox n t) t d = (q, d1)"
    by (cases "run_stmt OnDB ctx (claim_outbox n t) t d")
  then have "pg_committed d' = pg_committed d1"
    using assms by (auto simp: pg_FetchUnpublished_def NOW_def rows_Err_def next_fault_def
        split: sum.splits prod.splits list.splits fault.splits)
  with run_stmt_outbox [OF q] show ?thesis by auto
qed

lemma claim_outbox_ids:
  assumes "claim_outbox n t tb = Inr (rows, tb')" and "distinct (map o_id (t_outbox tb))"
  shows "distinct (map o_id rows)"
proof -
  have "distinct (map o_id (sort_key o_created_at (filter (claimable t) (t_outbox tb))))"
    using assms(2) by (auto simp: distinct_map intro: inj_on_subset)
  then have "distinct (map o_id (take k (sort_key o_created_at (filter (claimable t) (t_outbox tb)))))" for k
    by (metis distinct_take take_map)
  then show ?thesis using assms(1) by (auto simp: claim_outbox_def Let_def comp_def split: if_splits)
qed

lemma pg_published_flags: "pg_published d = {i. (i, True) \<in> set (map (\<lambda>r. (o_id r, o_published r)) (t_outbox (pg_committed d)))}"
  by (force simp: pg_published_def)

lemma claim_outbox_flags:
  assumes "claim_outbox n t tb = Inr (rows, tb')"
  shows "map (\<lambda>r. (o_id r, o_published r)) (t_outbox tb') = map (\<lambda>r. (o_id r, o_published r)) (t_outbox tb)"
proof -
  from claim_outbox_picks [OF assms] obtain picked where
    "set picked \<subseteq> {r \<in> set (t_outbox tb). claimable t r}" "length picked \<le> nat (sint n)"
    "rows = map (\<lambda>r. r\<lparr>o_published_at := Some (t + outboxClaimLease)\<rparr>) picked"
    and tb': "t_outbox tb' = update_where (\<lambda>r. o_id r \<in> set (map o_id picked))
      (\<lambda>r. r\<lparr>o_published_at := Some (t + outboxClaimLease)\<rparr>) (t_outbox tb)" .
  show ?thesis unfolding tb' by (simp add: update_where_def)
qed

interpretation pg_store: outbox_store pg_OutboxRepo pg_published "\<lambda>d. distinct (pg_outbox_ids d)"
proof (unfold_locales, goal_cases)
  case (1 ctx i t d r d')
  then have "pg_MarkPublished OnDB ctx i t d = (r, d')" by (simp add: pg_OutboxRepo_def)
  from pg_mark_outbox [OF this] show ?case by (auto simp: pg_published_def update_where_def split: if_splits)
next
  case (2 d ctx i t r d')
  then have "pg_MarkPublished OnDB ctx i t d = (r, d')" by (simp add: pg_OutboxRepo_def)
  from pg_mark_outbox [OF this] 2(1) show ?case by (auto simp: pg_outbox_ids_def)
next
  case (3 d ctx n t res d')
  then have "pg_FetchUnpublished OnDB ctx n t d = (res, d')" by (simp add: pg_OutboxRepo_def)
  from pg_claim_outbox [OF this] 3(1) show ?case
  proof (elim disjE exE)
    fix rows assume "claim_outbox n t (pg_committed d) = Inr (rows, pg_committed d')"
    note flags = claim_outbox_flags [OF this]
    have "map o_id (t_outbox (pg_committed d')) = map o_id (t_outbox (pg_committed d))"
      using arg_cong [OF flags, of "map fst"] by (simp add: comp_def)
    then show ?thesis using 3(1) by (simp add: pg_published_flags flags pg_outbox_ids_def)
  qed (simp add: pg_published_def pg_outbox_ids_def)
next
  case (4 d ctx n t es d')
  then have "pg_FetchUnpublished OnDB ctx n t d = (Inr es, d')" by (simp add: pg_OutboxRepo_def)
  from FetchUnpublished_claims [OF this] obtain tb' rows where
    c: "claim_outbox n t (pg_committed d) = Inr (rows, tb')" and es: "es = map scan_outbox rows"
    by (auto simp: tables_on_def)
  have ids: "distinct (map o_id (t_outbox (pg_committed d)))" using 4(1) by (simp add: pg_outbox_ids_def)
  have "distinct (map ob_ID es)" using claim_outbox_ids [OF c ids] by (simp add: es comp_def scan_outbox_def)
  moreover have "ob_ID x \<notin> pg_published d" if x: "x \<in> set es" for x
  proof
    assume "ob_ID x \<in> pg_published d"
    then obtain r where r: "r \<in> set (t_outbox (pg_committed d))" "o_published r" "o_id r = ob_ID x"
      by (auto simp: pg_published_def)
    obtain picked where "set picked \<subseteq> {r \<in> set (t_outbox (pg_committed d)). claimable t r}"
      "rows = map (\<lambda>r. r\<lparr>o_published_at := Some (t + outboxClaimLease)\<rparr>) picked"
      using claim_outbox_picks [OF c] by blast
    then obtain q where "q \<in> set (t_outbox (pg_committed d))" "claimable t q" "o_id q = ob_ID x"
      using x unfolding es by (fastforce simp: scan_outbox_def)
    moreover from this r have "q = r" using ids by (metis distinct_map inj_onD)
    ultimately show False using r(2) by (simp add: claimable_def)
  qed
  ultimately show ?case by blast
qed

section \<open>The in-memory store\<close>

definition mock_published :: "mockdb \<Rightarrow> int64 set" where
  "mock_published d = ob_ID ` {x \<in> set (mk_Outbox d). ob_Published x}"

lemma mock_mark_ids: "map ob_ID (mock_mark i xs) = map ob_ID xs"
  by (induction xs) auto

lemma mock_mark_published: "x \<in> set (mock_mark i xs) \<Longrightarrow> ob_Published x \<Longrightarrow> ob_ID x = i \<or> x \<in> set xs"
  by (induction xs) (auto split: if_splits)

interpretation mock_store: outbox_store mock_OutboxRepo mock_published "\<lambda>d. distinct (map ob_ID (mk_Outbox d))"
proof (unfold_locales, goal_cases)
  case (1 ctx i t d r d')
  then show ?case using mock_mark_published
    by (fastforce simp: mock_OutboxRepo_def mock_MarkPublished_def mock_published_def)
next
  case (2 d ctx i t r d')
  then show ?case by (auto simp: mock_OutboxRepo_def mock_MarkPublished_def mock_mark_ids)
next
  case (3 d ctx n t res d')
  then show ?case by (auto simp: mock_OutboxRepo_def mock_FetchUnpublished_def)
next
  case (4 d ctx n t es d')
  then have es: "es = take (nat (sint n)) (filter (\<lambda>e. \<not> ob_Published e) (mk_Outbox d))"
    by (auto simp: mock_OutboxRepo_def mock_FetchUnpublished_def)
  have "distinct (map ob_ID es)" using 4(1) by (metis distinct_map_filter distinct_take es take_map)
  moreover have "ob_ID x \<notin> mock_published d" if "x \<in> set es" for x
  proof -
    have "x \<in> set (mk_Outbox d)" "\<not> ob_Published x" using that in_set_takeD unfolding es by fastforce+
    then show ?thesis using 4(1) by (auto simp: mock_published_def distinct_map dest: inj_onD)
  qed
  ultimately show ?case by blast
qed

section \<open>Delivery\<close>

interpretation pg_delivery: outbox_delivery "newOutboxPublisher writer cfg" "delivery_of cfg"
  pg_OutboxRepo pg_published "\<lambda>d. distinct (pg_outbox_ids d)" "NewOutboxWorker writer cfg" for writer cfg
  by unfold_locales simp

interpretation mock_delivery: outbox_delivery "newOutboxPublisher writer cfg" "delivery_of cfg"
  mock_OutboxRepo mock_published "\<lambda>d. distinct (map ob_ID (mk_Outbox d))" "NewOutboxWorker writer cfg" for writer cfg
  by unfold_locales simp

text \<open>What a claim leaves for later: the rows it returned carry its lease.\<close>

lemma claim_outbox_leased:
  assumes "claim_outbox n t tb = Inr (rows, tb')" and "x \<in> set rows"
  shows "\<exists>r \<in> set (t_outbox tb'). o_id r = o_id x \<and> o_published_at r = Some (t + outboxClaimLease)"
proof -
  let ?lease = "\<lambda>r. r\<lparr>o_published_at := Some (t + outboxClaimLease)\<rparr>"
  from claim_outbox_picks [OF assms(1)] obtain picked where
    p: "set picked \<subseteq> {r \<in> set (t_outbox tb). claimable t r}" "length picked \<le> nat (sint n)" "rows = map ?lease picked"
    "t_outbox tb' = update_where (\<lambda>r. o_id r \<in> set (map o_id picked)) ?lease (t_outbox tb)" .
  then obtain q where q: "q \<in> set picked" "x = ?lease q" "q \<in> set (t_outbox tb)" using assms(2) by auto
  then have "?lease q \<in> set (t_outbox tb')" by (force simp: p(4) update_where_def)
  then show ?thesis using q(2) by (intro bexI [of _ "?lease q"]) simp_all
qed

text \<open>A claim with room for the whole table returns every claimable row.\<close>

lemma claim_outbox_complete:
  assumes "claim_outbox n t tb = Inr (rows, tb')" and "int (length (t_outbox tb)) \<le> sint n"
    and "r \<in> set (t_outbox tb)" and "claimable t r"
  shows "o_id r \<in> o_id ` set rows"
proof -
  have "length (filter (claimable t) (t_outbox tb)) \<le> nat (sint n)"
    using length_filter_le [of "claimable t" "t_outbox tb"] assms(2) by linarith
  then have "take (nat (sint n)) (sort_key o_created_at (filter (claimable t) (t_outbox tb)))
      = sort_key o_created_at (filter (claimable t) (t_outbox tb))" by simp
  then have "set rows = (\<lambda>r. r\<lparr>o_published_at := Some (t + outboxClaimLease)\<rparr>) ` {r \<in> set (t_outbox tb). claimable t r}"
    using assms(1) by (auto simp: claim_outbox_def Let_def split: if_splits)
  then show ?thesis using assms(3,4) by (auto simp: image_image)
qed

text \<open>Marking leaves an unmarked row its lease.\<close>

definition claimed_until :: "int \<Rightarrow> int64 \<Rightarrow> pgdb \<Rightarrow> bool" where
  "claimed_until p i d \<longleftrightarrow> (\<exists>r \<in> set (t_outbox (pg_committed d)). o_id r = i \<and> (o_published r \<or> o_published_at r = Some p))"

lemma pg_mark_claimed:
  assumes "pg_MarkPublished OnDB ctx i t d = (r, d')" and "claimed_until p k d"
  shows "claimed_until p k d'"
proof -
  let ?mark = "\<lambda>r. r\<lparr>o_published := True, o_published_at := Some t\<rparr>"
  obtain q where q: "q \<in> set (t_outbox (pg_committed d))" "o_id q = k" "o_published q \<or> o_published_at q = Some p"
    using assms(2) by (auto simp: claimed_until_def)
  from pg_mark_outbox [OF assms(1)] show ?thesis
  proof
    assume "t_outbox (pg_committed d') = t_outbox (pg_committed d)"
    then show ?thesis using assms(2) by (simp add: claimed_until_def)
  next
    assume "t_outbox (pg_committed d') = update_where (\<lambda>r. o_id r = i) ?mark (t_outbox (pg_committed d))"
    then have "(if o_id q = i then ?mark q else q) \<in> set (t_outbox (pg_committed d'))"
      using q(1) by (auto simp: update_where_def)
    then show ?thesis using q(2,3) unfolding claimed_until_def by (intro bexI) (auto split: if_splits)
  qed
qed

lemma pg_mark_length:
  "pg_MarkPublished OnDB ctx i t d = (r, d') \<Longrightarrow> length (t_outbox (pg_committed d')) = length (t_outbox (pg_committed d))"
  using pg_mark_outbox by fastforce

lemma pg_batch_delivers:
  assumes "batch_start (NewOutboxWorker writer cfg) events ow b0" and "batch_run (NewOutboxWorker writer cfg) pg_OutboxRepo ctx b0 b"
  shows "\<exists>sent. trace (ow_env (ba_world b)) = trace (ow_env ow) @ sent
    \<and> delivery_inv (delivery_of cfg) events (pg_published (ow_db ow)) sent (ba_todo b) (mset (pool_holds (ba_pool b)))
      (ow_results (ba_world b)) (pg_published (ow_db (ba_world b)))"
  using pg_delivery.batch_run_delivers [OF assms(2,1)] unfolding pg_delivery.delivers_def .

section \<open>Properties\<close>

text \<open>C10: whatever the interleaving of a batch's goroutines, the clock and the faults of the database: each
  event of the batch is published at most once, to the log or to Kafka as configured; a message is
  newly marked published only if its publication has succeeded; and a result says so only then.\<close>

theorem outbox_publish_then_mark:
  assumes "w = NewOutboxWorker writer cfg" and "batch_start w events ow b0" and "batch_run w pg_OutboxRepo ctx b0 b"
  shows "\<exists>sent. trace (ow_env (ba_world b)) = trace (ow_env ow) @ sent
    \<and> mset (map fst sent) \<subseteq># mset (map (delivery_of cfg) events)
    \<and> pg_published (ow_db (ba_world b)) \<subseteq> pg_published (ow_db ow)
        \<union> {ob_ID x | x. x \<in> set events \<and> (delivery_of cfg x, None) \<in> set sent}
    \<and> (\<forall>r \<in> set (ow_results (ba_world b)). or_stage r \<in> {''mark_published'', ''completed''} \<longrightarrow>
        (\<exists>x \<in> set events. eid x = rid r \<and> (delivery_of cfg x, None) \<in> set sent))"
proof -
  from pg_batch_delivers [OF assms(2,3) [unfolded assms(1)]] obtain sent where
    t: "trace (ow_env (ba_world b)) = trace (ow_env ow) @ sent"
    and d: "delivery_inv (delivery_of cfg) events (pg_published (ow_db ow)) sent (ba_todo b) (mset (pool_holds (ba_pool b)))
      (ow_results (ba_world b)) (pg_published (ow_db (ba_world b)))"
    by blast
  have "mset (map fst sent) \<subseteq># mset (map (delivery_of cfg) events)"
    using d unfolding delivery_inv_def by (metis (no_types, lifting) add.assoc mset_map mset_subset_eq_add_left subset_mset.order_trans)
  then show ?thesis using t d unfolding delivery_inv_def by blast
qed

text \<open>C12: a batch ends: in any state it has reached it is over or a goroutine can make a step, every step
  brings the end closer, and waiting does not move it away. No submission is ever refused, the queue has room for
  every event. At the end the first \<open>ba_submitted\<close> events, those that were submitted, have exactly one result each
  and there is no other result; and these are all events, unless the context is done by then.\<close>

theorem outbox_batch_completes:
  assumes "w = NewOutboxWorker writer cfg" and "batch_start w events ow b0" and "batch_run w outbox ctx b0 b"
  shows "(batch_done b \<or> (\<exists>b'. batch_step w outbox ctx b b'))
    \<and> (\<forall>b'. batch_step w outbox ctx b b' \<longrightarrow> batch_left b' < batch_left b)
    \<and> (\<forall>b'. batch_wait b b' \<longrightarrow> batch_left b' = batch_left b)
    \<and> (\<forall>r \<in> set (ow_results (ba_world b)). or_stage r \<noteq> ''submit'')
    \<and> (batch_done b \<longrightarrow>
         image_mset rid (mset (ow_results (ba_world b))) = image_mset eid (mset (take (ba_submitted b) events))
       \<and> (ba_submitted b = length events \<or> ba_submitted b < length events \<and> ctx_Err ctx (ba_now b) \<noteq> None))"
proof -
  have inv: "batch_inv w ctx events b" using batch_run_inv [OF assms(3,2)] by (simp add: assms(1))
  have wait: "\<forall>b'. batch_wait b b' \<longrightarrow> batch_left b' = batch_left b"
    by (auto simp: batch_wait_def batch_left_def pool_rest_def)
  have "\<forall>r \<in> set (ow_results (ba_world b)). or_stage r \<noteq> ''submit''" using inv by (simp add: batch_inv_def)
  then show ?thesis
    using batch_step_enabled [OF inv] batch_step_decreases [OF _ inv] batch_done_results [OF inv] wait by blast
qed

text \<open>C11: delivery at least once: after a batch of claimed events, each event either was published
  successfully in it or is returned again by the next claim that comes after the lease and has room
  for the table, under every fault schedule and interleaving.\<close>

theorem pg_outbox_at_least_once:
  assumes "pg_FetchUnpublished OnDB ctx0 n t d = (Inr es, d1)" and "distinct (pg_outbox_ids d)"
    and "w = NewOutboxWorker writer cfg"
    and "processEvents w pg_OutboxRepo ctx es \<lparr>ow_db = d1, ow_env = e, ow_results = []\<rparr> ow"
    and "pg_FetchUnpublished OnDB ctx1 n' t' (ow_db ow) = (Inr es', d2)"
    and "t + outboxClaimLease \<le> t'" and "int (length (pg_outbox_ids d)) \<le> sint n'" and "x \<in> set es"
  shows "(delivery_of cfg x, None) \<in> set (drop (length (trace e)) (trace (ow_env ow))) \<or> ob_ID x \<in> ob_ID ` set es'"
proof -
  let ?p = "t + outboxClaimLease" and ?ow = "\<lparr>ow_db = d1, ow_env = e, ow_results = []\<rparr>"
  obtain b0 b where B: "batch_start w es ?ow b0" "batch_run w pg_OutboxRepo ctx b0 b" "ow = ba_world b"
    using assms(4) by (auto simp: processEvents_def)
  obtain rows where c: "claim_outbox n t (pg_committed d) = Inr (rows, pg_committed d1)" "es = map scan_outbox rows"
    using FetchUnpublished_claims [OF assms(1)] by (auto simp: tables_on_def)
  have ids1: "distinct (pg_outbox_ids d1)" "pg_published d1 = pg_published d" "distinct (map ob_ID es) \<and> (\<forall>x \<in> set es. ob_ID x \<notin> pg_published d)"
    using pg_store.claim_ok [of d ctx0 n t "Inr es" d1] pg_store.claim_unpublished [of d ctx0 n t es d1] assms(1,2)
    by (simp_all add: pg_OutboxRepo_def)
  have "claimed_until ?p (ob_ID x) d1"
    using claim_outbox_leased [OF c(1)] assms(8) by (fastforce simp: c(2) claimed_until_def scan_outbox_def)
  moreover have "length (t_outbox (pg_committed d1)) = length (pg_outbox_ids d)"
    using arg_cong [OF claim_outbox_flags [OF c(1)], of length] by (simp add: pg_outbox_ids_def)
  moreover have "ow_db (ba_world b0) = d1" using batch_start_inv [OF B(1)] by simp
  ultimately have late: "claimed_until ?p (ob_ID x) (ow_db ow) \<and> length (t_outbox (pg_committed (ow_db ow))) = length (pg_outbox_ids d)"
    unfolding B(3)
    by (intro batch_run_db [OF B(2), where P = "\<lambda>d'. claimed_until ?p (ob_ID x) d' \<and> length (t_outbox (pg_committed d')) = length (pg_outbox_ids d)"])
      (auto simp: pg_OutboxRepo_def pg_mark_length intro: pg_mark_claimed)
  then obtain r where r: "r \<in> set (t_outbox (pg_committed (ow_db ow)))" "o_id r = ob_ID x" "o_published r \<or> o_published_at r = Some ?p"
    by (auto simp: claimed_until_def)
  show ?thesis
  proof (cases "o_published r")
    case True
    have "trace (ow_env ?ow) = trace e" "ow_db ?ow = d1" by simp_all
    with pg_batch_delivers [OF B(1,2) [unfolded assms(3)]] obtain sent where
      S: "trace (ow_env ow) = trace e @ sent"
      "pg_published (ow_db ow) \<subseteq> pg_published d1 \<union> {ob_ID x | x. x \<in> set es \<and> (delivery_of cfg x, None) \<in> set sent}"
      unfolding B(3) delivery_inv_def by auto
    have "ob_ID x \<in> pg_published (ow_db ow)" using r True by (force simp: pg_published_def)
    then obtain y where "y \<in> set es" "ob_ID y = ob_ID x" "(delivery_of cfg y, None) \<in> set sent"
      using S(2) ids1(2,3) assms(8) by auto
    moreover from this have "y = x" using ids1(3) assms(8) by (metis distinct_map inj_onD)
    ultimately show ?thesis using S(1) by simp
  next
    case False
    then have "claimable t' r" using r(3) assms(6) by (simp add: claimable_def)
    moreover obtain rows' tb' where c': "claim_outbox n' t' (pg_committed (ow_db ow)) = Inr (rows', tb')" "es' = map scan_outbox rows'"
      using FetchUnpublished_claims [OF assms(5)] by (auto simp: tables_on_def)
    ultimately have "o_id r \<in> o_id ` set rows'"
      using claim_outbox_complete [OF c'(1) _ r(1)] late assms(7) by simp
    then show ?thesis using r(2) by (auto simp: c'(2) scan_outbox_def image_iff)
  qed
qed

text \<open>A batch of one message from the sample database, published to a broker that accepts everything.\<close>

definition outbox_cfg_sample :: "pgdb OutboxWorkerConfig" where
  "outbox_cfg_sample = \<lparr>oc_Outbox = Some pg_OutboxRepo, oc_Brokers = [''kafka:9092''], oc_Topic = ''payments'',
     oc_Interval = 0, oc_BatchSize = 0, oc_Concurrency = 0\<rparr>"

definition outbox_env_sample :: outbox_env where
  "outbox_env_sample = \<lparr>now = 1, steps = 0, lat = (\<lambda>_. 1), picks = (\<lambda>_. False), rands = (\<lambda>_. 0),
     csprng = (\<lambda>_. None), fconv = 0, trace = []\<rparr>"

abbreviation accepting_writer :: kafka_writer where
  "accepting_writer \<equiv> \<lparr>kw_answer = (\<lambda>_ _ _. None), kw_close = None\<rparr>"

abbreviation claimed_sample :: pgdb where
  "claimed_sample \<equiv> snd (pg_FetchUnpublished OnDB Background 10 0 (pg_sample [] []))"

lemma outbox_sample_batch:
  "processEvents (NewOutboxWorker accepting_writer outbox_cfg_sample) pg_OutboxRepo Background [scan_outbox outbox_sample]
     \<lparr>ow_db = claimed_sample, ow_env = outbox_env_sample, ow_results = []\<rparr>
     (job_alone 3 (NewOutboxWorker accepting_writer outbox_cfg_sample) pg_OutboxRepo Background
       \<lparr>oj_event = scan_outbox outbox_sample, oj_phase = Checking\<rparr>
       \<lparr>ow_db = claimed_sample, ow_env = outbox_env_sample, ow_results = []\<rparr>)"
  by (rule processEvents_single [of _ "\<lparr>ow_db = claimed_sample, ow_env = outbox_env_sample, ow_results = []\<rparr>", simplified]) simp

lemma outbox_publish_then_mark_witness:
  "\<exists>ow. processEvents (NewOutboxWorker accepting_writer outbox_cfg_sample) pg_OutboxRepo Background [scan_outbox outbox_sample]
       \<lparr>ow_db = claimed_sample, ow_env = outbox_env_sample, ow_results = []\<rparr> ow
     \<and> mset (map fst (trace (ow_env ow))) \<subseteq># {#delivery_of outbox_cfg_sample (scan_outbox outbox_sample)#}"
proof -
  let ?W = "NewOutboxWorker accepting_writer outbox_cfg_sample"
  from outbox_sample_batch obtain b0 b where
    b: "batch_start ?W [scan_outbox outbox_sample] \<lparr>ow_db = claimed_sample, ow_env = outbox_env_sample, ow_results = []\<rparr> b0"
       "batch_run ?W pg_OutboxRepo Background b0 b" "batch_done b"
    unfolding processEvents_def by blast
  from outbox_publish_then_mark [OF refl b(1,2)]
  have "mset (map fst (trace (ow_env (ba_world b)))) \<subseteq># {#delivery_of outbox_cfg_sample (scan_outbox outbox_sample)#}"
    by (auto simp: outbox_env_sample_def)
  then show ?thesis using b unfolding processEvents_def by blast
qed

lemma outbox_batch_completes_witness:
  "\<exists>ow. processEvents (NewOutboxWorker accepting_writer outbox_cfg_sample) pg_OutboxRepo Background [scan_outbox outbox_sample]
       \<lparr>ow_db = claimed_sample, ow_env = outbox_env_sample, ow_results = []\<rparr> ow
     \<and> image_mset rid (mset (ow_results ow)) = {#(1, ''transaction.created'')#}"
proof -
  let ?W = "NewOutboxWorker accepting_writer outbox_cfg_sample"
  from outbox_sample_batch obtain b0 b where
    b: "batch_start ?W [scan_outbox outbox_sample] \<lparr>ow_db = claimed_sample, ow_env = outbox_env_sample, ow_results = []\<rparr> b0"
       "batch_run ?W pg_OutboxRepo Background b0 b" "batch_done b"
    unfolding processEvents_def by blast
  from outbox_batch_completes [OF refl b(1,2)] b(3)
  have "image_mset rid (mset (ow_results (ba_world b))) = {#(1, ''transaction.created'')#}"
    by (auto simp: eid_def scan_outbox_def outbox_sample_def)
  then show ?thesis using b unfolding processEvents_def by blast
qed

lemma pg_outbox_at_least_once_witness:
  "\<exists>ow. processEvents (NewOutboxWorker accepting_writer outbox_cfg_sample) pg_OutboxRepo Background [scan_outbox outbox_sample]
       \<lparr>ow_db = claimed_sample, ow_env = outbox_env_sample, ow_results = []\<rparr> ow
     \<and> (delivery_of outbox_cfg_sample (scan_outbox outbox_sample), None) \<in> set (trace (ow_env ow))"
proof -
  let ?ow = "job_alone 3 (NewOutboxWorker accepting_writer outbox_cfg_sample) pg_OutboxRepo Background
       \<lparr>oj_event = scan_outbox outbox_sample, oj_phase = Checking\<rparr>
       \<lparr>ow_db = claimed_sample, ow_env = outbox_env_sample, ow_results = []\<rparr>"
  let ?f = "pg_FetchUnpublished OnDB Background 10 0 (pg_sample [] [])"
  let ?g = "pg_FetchUnpublished OnDB Background 10 outboxClaimLease (ow_db ?ow)"
  have f: "?f = (Inr [scan_outbox outbox_sample], claimed_sample)" by code_simp
  have g: "?g = (Inr [], snd ?g)" by code_simp
  have ids: "distinct (pg_outbox_ids (pg_sample [] []))" "int (length (pg_outbox_ids (pg_sample [] []))) \<le> sint (10::int64)"
    by (simp_all add: pg_outbox_ids_def pg_sample_defs)
  have "0 + outboxClaimLease \<le> outboxClaimLease" "scan_outbox outbox_sample \<in> set [scan_outbox outbox_sample]" by simp_all
  from pg_outbox_at_least_once [OF f ids(1) refl outbox_sample_batch g this(1) ids(2) this(2)]
  have "(delivery_of outbox_cfg_sample (scan_outbox outbox_sample), None) \<in> set (trace (ow_env ?ow))"
    by (simp add: outbox_env_sample_def)
  then show ?thesis using outbox_sample_batch by blast
qed

end
