(* ===== verification/Payflow_Display.thy ===== *)
theory Payflow_Display
  imports Payflow_Config
begin

text \<open>
  Amounts as text: the format \<open>%.2f\<close>, \<open>formatCents\<close> and \<open>Transaction.String\<close> of
  \<open>internal/domain/models.go\<close> and \<open>centsToDecimalString\<close> of \<open>internal/service/payment.go\<close>. The lemmas show
  that the division by 100 in \<open>float64\<close> does not change what is displayed, up to \<open>2\<^sup>5\<^sup>0\<close> cents, and that the
  text is read back as the same amount.
\<close>

section \<open>Formatting\<close>

text \<open>\<open>fmt\<close>'s \<open>%.2f\<close> rounds the exact value of the float to two decimals, ties to even.\<close>

fun two_decimals :: "go_float \<Rightarrow> string" where
  "two_decimals (Finite x) = (if x < 0 then ''-'' else []) @ amount_text (nat (round_even (\<bar>x\<bar> * 100)))"
| "two_decimals (Infinite neg) = (if neg then ''-Inf'' else ''+Inf'')"
| "two_decimals NaN = ''NaN''"

definition formatCents :: "int64 \<Rightarrow> string" where
  "formatCents cents = two_decimals (Finite (fl (fl (of_int (sint cents)) / 100)))"

definition centsToDecimalString :: "int64 \<Rightarrow> string" where
  "centsToDecimalString cents = two_decimals (Finite (fl (fl (of_int (sint cents)) / 100)))"

definition Transaction_String :: "Transaction \<Rightarrow> string" where
  "Transaction_String t =
     ''Transaction{id='' @ tx_ID t @ '', merchant='' @ tx_MerchantID t
     @ '', amount='' @ two_decimals (Finite (fl (fl (of_int (sint (tx_AmountCents t))) / 100))) @ '' '' @ tx_Currency t
     @ '', status='' @ tx_Status t @ ''}''"

section \<open>Facts\<close>

lemma round_even_near: "\<bar>x - of_int n\<bar> < 1 / 2 \<Longrightarrow> round_even x = n"
proof -
  assume near: "\<bar>x - of_int n\<bar> < 1 / 2"
  have "\<bar>of_int (round_even x) - of_int n\<bar> < (1::rat)" using near round_even_error [of x] by linarith
  then have "\<bar>of_int (round_even x - n)\<bar> < (1::rat)" by simp
  then show ?thesis by linarith
qed

text \<open>The quotient in \<open>float64\<close> is less than half a cent away.\<close>

lemma formatCents_exact:
  assumes "sint cents = int c" and "c \<le> 2 ^ 50"
  shows "formatCents cents = amount_text c"
proof -
  let ?x = "of_nat c / 100 :: rat"
  have c: "(of_nat c :: rat) \<le> 2 ^ 50" using assms(2) by (metis of_nat_le_iff of_nat_numeral of_nat_power)
  have "int c \<le> 2 ^ 50" using assms(2) by (metis of_nat_le_iff of_nat_numeral of_nat_power)
  then have "fl (of_int (int c)) = of_int (int c)" by (intro fl_exact representable_of_int) auto
  then have fl_c: "fl (of_nat c) = of_nat c" by simp
  have x: "0 \<le> ?x" by simp
  have "\<bar>fl ?x - ?x\<bar> \<le> ?x / 2 ^ 53" by (rule fl_error [OF x])
  also have "\<dots> \<le> 2 ^ 50 / 100 / 2 ^ 53" using c by (intro divide_right_mono) auto
  finally have "\<bar>fl ?x * 100 - of_int (int c)\<bar> < 1 / 2" by (simp add: abs_le_iff abs_less_iff field_simps)
  then have "round_even (fl ?x * 100) = int c" by (rule round_even_near)
  then show ?thesis using fl_nonneg [OF x] by (simp add: formatCents_def assms(1) fl_c del: of_int_sint)
qed

text \<open>The displayed amount, read as a number and converted to cents the way \<open>config.Load\<close> does, is the amount.\<close>

lemma formatCents_read_back:
  assumes "sint cents = int c" and "c \<le> 2 ^ 50"
  shows "\<exists>f. ParseFloat (formatCents cents) = Some f \<and> hundred_times_rounded conv f = cents"
proof -
  have "in_int64 (int c)" using in_int64_sint [of cents] assms(1) by simp
  moreover have "word_of_int (int c) = cents" by (simp flip: assms(1))
  ultimately show ?thesis
    using ParseFloat_amount [OF assms(2)] cents_exact [OF assms(2)]
    by (simp add: formatCents_exact [OF assms] hundred_times_rounded_def Let_def)
qed

lemma Transaction_String_exact:
  assumes "sint (tx_AmountCents t) = int c" and "c \<le> 2 ^ 50"
  shows "Transaction_String t =
     ''Transaction{id='' @ tx_ID t @ '', merchant='' @ tx_MerchantID t
     @ '', amount='' @ amount_text c @ '' '' @ tx_Currency t
     @ '', status='' @ tx_Status t @ ''}''"
  using formatCents_exact [OF assms] by (simp only: Transaction_String_def formatCents_def)

end
