(* ===== verification/Payflow_Patterns.thy ===== *)
theory Payflow_Patterns
  imports Payflow_Display "HOL-Library.Multiset"
begin

text \<open>
  The other concurrency patterns of \<open>internal/concurrency/patterns.go\<close>: \<open>ProcessConcurrently\<close> with its
  semaphore and \<open>VerifyTransaction\<close> with its result channel as step relations of the goroutines involved,
  and the counters of \<open>SafeMetrics\<close>. Every step has its moment, no earlier than the one before. The
  lemmas say what has been computed when the functions return, and that they do return; the locale
  \<open>bounded_runs\<close> is the argument for the latter.
\<close>

section \<open>Runs that come to an end\<close>

locale bounded_runs =
  fixes step :: "'a \<Rightarrow> 'a \<Rightarrow> bool" and inv :: "'a \<Rightarrow> bool" and final :: "'a \<Rightarrow> bool" and rest :: "'a \<Rightarrow> nat"
  assumes step_inv: "step p p' \<Longrightarrow> inv p \<Longrightarrow> inv p'"
    and step_rest: "step p p' \<Longrightarrow> inv p \<Longrightarrow> rest p' < rest p"
    and step_enabled: "inv p \<Longrightarrow> \<not> final p \<Longrightarrow> \<exists>p'. step p p'"
begin

lemma run_inv: "step\<^sup>*\<^sup>* p p' \<Longrightarrow> inv p \<Longrightarrow> inv p'"
  by (induction rule: rtranclp_induct) (auto intro: step_inv)

lemma no_endless_run:
  assumes "inv p"
  shows "\<nexists>f. f 0 = p \<and> (\<forall>i. step (f i) (f (Suc i)))"
proof
  assume "\<exists>f. f 0 = p \<and> (\<forall>i. step (f i) (f (Suc i)))"
  then obtain f where f: "f 0 = p" "step (f i) (f (Suc i))" for i by blast
  have "inv (f i)" for i by (induction i) (use f assms step_inv in auto)
  then have "(f (Suc i), f i) \<in> measure rest" for i using f(2) step_rest by auto
  then show False using wf_iff_no_infinite_down_chain [THEN iffD1, OF wf_measure] by blast
qed

lemma stuck_final: "inv p \<Longrightarrow> (\<And>p'. \<not> step p p') \<Longrightarrow> final p"
  using step_enabled by blast

lemma reaches_final: "inv p \<Longrightarrow> \<exists>p'. step\<^sup>*\<^sup>* p p' \<and> final p'"
proof (induction "rest p" arbitrary: p rule: less_induct)
  case less
  show ?case
  proof (cases "final p")
    case False
    then obtain q where q: "step p q" using less.prems step_enabled by blast
    then obtain p' where "step\<^sup>*\<^sup>* q p'" "final p'"
      using less.hyps [OF step_rest [OF q less.prems] step_inv [OF q less.prems]] by blast
    then show ?thesis using q by (meson converse_rtranclp_into_rtranclp)
  qed auto
qed

end

section \<open>\<open>ProcessConcurrently\<close>\<close>

record ProcessResult =
  pr_ID :: string
  pr_Output :: string
  pr_Error :: "go_error option"

definition zero_result :: ProcessResult where
  "zero_result = \<lparr>pr_ID = [], pr_Output = [], pr_Error = None\<rparr>"

text \<open>
  Where a goroutine is: before the test of the context, in \<open>time.Sleep\<close> until a moment, before the deferred
  receive from the semaphore, before \<open>wg.Done()\<close>. \<open>pc_sem\<close> is the number of tokens in the semaphore,
  \<open>pc_next\<close> the position of the loop, \<open>pc_results\<close> the slice that the goroutines write to.
\<close>

datatype process_phase = Testing | is_sleeping: Sleeping int | Releasing | Ending

record processing =
  pc_next :: nat
  pc_sem :: nat
  pc_running :: "(nat \<times> process_phase) list"
  pc_results :: "ProcessResult list"
  pc_now :: int

definition pc_start :: "string list \<Rightarrow> int \<Rightarrow> processing" where
  "pc_start ids t = \<lparr>pc_next = 0, pc_sem = 0, pc_running = [], pc_results = replicate (length ids) zero_result, pc_now = t\<rparr>"

text \<open>
  \<open>make(chan struct{}, concurrency)\<close> panics for a negative capacity. A channel of capacity 0 has no room
  without a receiver, and there is none before the first goroutine runs. \<open>Done()\<close> of a nil context
  panics: the steps are those of the others.
\<close>

definition ProcessConcurrently :: "string list \<Rightarrow> int \<Rightarrow> int \<Rightarrow> processing option" where
  "ProcessConcurrently ids concurrency t = (if concurrency < 0 then None else Some (pc_start ids t))"

inductive pc_step :: "go_context \<Rightarrow> string list \<Rightarrow> int \<Rightarrow> processing \<Rightarrow> processing \<Rightarrow> bool"
  for ctx ids concurrency where
  spawn: "pc_next p < length ids \<Longrightarrow> int (pc_sem p) < concurrency \<Longrightarrow> pc_now p \<le> t
    \<Longrightarrow> pc_step ctx ids concurrency p
          (p\<lparr>pc_next := Suc (pc_next p), pc_sem := Suc (pc_sem p), pc_running := pc_running p @ [(pc_next p, Testing)], pc_now := t\<rparr>)"
| canceled: "pc_running p = xs @ (i, Testing) # ys \<Longrightarrow> pc_now p \<le> t \<Longrightarrow> ctx_Err ctx t = Some err
    \<Longrightarrow> pc_step ctx ids concurrency p
          (p\<lparr>pc_running := xs @ (i, Releasing) # ys, pc_now := t,
             pc_results := (pc_results p)[i := \<lparr>pr_ID = ids ! i, pr_Output = [], pr_Error = Some err\<rparr>]\<rparr>)"
| proceed: "pc_running p = xs @ (i, Testing) # ys \<Longrightarrow> pc_now p \<le> t \<Longrightarrow> ctx \<noteq> NilContext \<Longrightarrow> ctx_Err ctx t = None
    \<Longrightarrow> r < 100
    \<Longrightarrow> pc_step ctx ids concurrency p
          (p\<lparr>pc_running := xs @ (i, Sleeping (t + (50 + int r) * millisecond)) # ys, pc_now := t\<rparr>)"
| processed: "pc_running p = xs @ (i, Sleeping wake) # ys \<Longrightarrow> pc_now p \<le> t \<Longrightarrow> wake \<le> t
    \<Longrightarrow> pc_step ctx ids concurrency p
          (p\<lparr>pc_running := xs @ (i, Releasing) # ys, pc_now := t,
             pc_results := (pc_results p)[i := \<lparr>pr_ID = ids ! i, pr_Output = ''processed_'' @ ids ! i, pr_Error = None\<rparr>]\<rparr>)"
| release: "pc_running p = xs @ (i, Releasing) # ys \<Longrightarrow> pc_now p \<le> t
    \<Longrightarrow> pc_step ctx ids concurrency p (p\<lparr>pc_running := xs @ (i, Ending) # ys, pc_sem := pc_sem p - 1, pc_now := t\<rparr>)"
| ended: "pc_running p = xs @ (i, Ending) # ys \<Longrightarrow> pc_now p \<le> t
    \<Longrightarrow> pc_step ctx ids concurrency p (p\<lparr>pc_running := xs @ ys, pc_now := t\<rparr>)"

inductive_cases pc_stepE: "pc_step ctx ids concurrency p p'"

text \<open>\<open>wg.Wait()\<close> is over: all goroutines were started and have ended.\<close>

definition pc_returned :: "string list \<Rightarrow> processing \<Rightarrow> bool" where
  "pc_returned ids p \<longleftrightarrow> pc_next p = length ids \<and> pc_running p = []"

text \<open>
  The right result for an item of a call made at \<open>t0\<close>, at the moment \<open>t\<close>: the item was processed and the
  context was not done yet when the call was made, or the result has the error of the context,
  which is done.
\<close>

definition pc_correct :: "go_context \<Rightarrow> int \<Rightarrow> int \<Rightarrow> string \<Rightarrow> ProcessResult \<Rightarrow> bool" where
  "pc_correct ctx t0 t i res \<longleftrightarrow> pr_ID res = i \<and>
     (pr_Output res = ''processed_'' @ i \<and> pr_Error res = None \<and> ctx_Err ctx t0 = None
      \<or> pr_Output res = [] \<and> pr_Error res \<noteq> None \<and> pr_Error res = ctx_Err ctx t)"

text \<open>The goroutines that hold a token.\<close>

definition holders :: "processing \<Rightarrow> (nat \<times> process_phase) list" where
  "holders p = filter (\<lambda>g. snd g \<noteq> Ending) (pc_running p)"

fun unwritten :: "process_phase \<Rightarrow> bool" where
  "unwritten Testing = True"
| "unwritten (Sleeping _) = True"
| "unwritten _ = False"

definition pc_inv :: "go_context \<Rightarrow> string list \<Rightarrow> int \<Rightarrow> int \<Rightarrow> processing \<Rightarrow> bool" where
  "pc_inv ctx ids concurrency t0 p \<longleftrightarrow>
     pc_sem p = length (holders p) \<and> int (pc_sem p) \<le> concurrency \<and> pc_next p \<le> length ids
   \<and> length (pc_results p) = length ids \<and> t0 \<le> pc_now p
   \<and> distinct (map fst (pc_running p))
   \<and> (\<forall>(i, ph) \<in> set (pc_running p). i < pc_next p \<and> (is_sleeping ph \<longrightarrow> ctx_Err ctx t0 = None))
   \<and> (\<forall>i < pc_next p. (\<exists>ph. unwritten ph \<and> (i, ph) \<in> set (pc_running p))
        \<or> pc_correct ctx t0 (pc_now p) (ids ! i) (pc_results p ! i))"

section \<open>The invariant of \<open>ProcessConcurrently\<close>\<close>

lemma pc_inv_start: "0 \<le> concurrency \<Longrightarrow> pc_inv ctx ids concurrency t (pc_start ids t)"
  by (simp add: pc_inv_def pc_start_def holders_def)

lemma ctx_Err_earlier: "ctx_Err ctx t' = None \<Longrightarrow> t \<le> t' \<Longrightarrow> ctx_Err ctx t = None"
  using ctx_Err_mono [of ctx t _ t'] by (cases "ctx_Err ctx t") auto

lemma pc_correct_later: "pc_correct ctx t0 t i res \<Longrightarrow> t \<le> t' \<Longrightarrow> pc_correct ctx t0 t' i res"
  using ctx_Err_mono [of ctx t _ t'] by (cases "ctx_Err ctx t") (auto simp: pc_correct_def)

text \<open>A goroutine moves on: what changes in the invariant is its own entry.\<close>

lemma pc_inv_move:
  assumes "pc_inv ctx ids concurrency t0 p" and "pc_running p = xs @ (i, ph) # ys" and "pc_now p \<le> pc_now p'"
    and "pc_running p' = xs @ (i, ph') # ys" and "pc_next p' = pc_next p"
    and "is_sleeping ph' \<Longrightarrow> ctx_Err ctx t0 = None"
    and "length (pc_results p') = length ids" and "\<And>j. j \<noteq> i \<Longrightarrow> pc_results p' ! j = pc_results p ! j"
    and "unwritten ph' \<or> pc_correct ctx t0 (pc_now p') (ids ! i) (pc_results p' ! i)"
    and "pc_sem p' = length (holders p')" and "pc_sem p' \<le> pc_sem p"
  shows "pc_inv ctx ids concurrency t0 p'"
proof -
  have "(\<exists>ph. unwritten ph \<and> (j, ph) \<in> set (pc_running p')) \<or> pc_correct ctx t0 (pc_now p') (ids ! j) (pc_results p' ! j)"
    if "j < pc_next p" for j
  proof (cases "j = i")
    case False
    then have "(\<exists>ph. unwritten ph \<and> (j, ph) \<in> set (pc_running p)) \<or> pc_correct ctx t0 (pc_now p) (ids ! j) (pc_results p' ! j)"
      using assms(1,8) that by (auto simp: pc_inv_def)
    then show ?thesis using False assms(2,3,4) pc_correct_later by auto
  qed (use assms(4,9) in auto)
  moreover have "\<forall>(j, q) \<in> set (pc_running p'). j < pc_next p \<and> (is_sleeping q \<longrightarrow> ctx_Err ctx t0 = None)"
    using assms(1,2,4,6) by (auto simp: pc_inv_def)
  moreover have "map fst (pc_running p') = map fst (pc_running p)" using assms(2,4) by simp
  ultimately show ?thesis using assms(1,3,5,7,10,11) by (simp add: pc_inv_def)
qed

lemma pc_step_inv:
  assumes "pc_step ctx ids concurrency p p'" and "pc_inv ctx ids concurrency t0 p"
  shows "pc_inv ctx ids concurrency t0 p'"
proof -
  note inv = assms(2) [unfolded pc_inv_def holders_def]
  note move = pc_inv_move [OF assms(2)]
  have sem: "pc_sem p = length (holders p)" "length (pc_results p) = length ids" using inv by (simp_all add: holders_def)
  have covered: "(\<exists>ph. unwritten ph \<and> (i, ph) \<in> set (pc_running p)) \<or> pc_correct ctx t0 (pc_now p) (ids ! i) (pc_results p ! i)"
    if "(i, ph) \<in> set (pc_running p)" for i ph
    using inv that by blast
  have in_range: "i < length ids" if "(i, ph) \<in> set (pc_running p)" for i ph using inv that by fastforce
  show ?thesis
    using assms(1)
  proof cases
    case (spawn t)
    then show ?thesis using inv pc_correct_later [of ctx t0 "pc_now p" _ _ t] unfolding pc_inv_def holders_def
      by (auto simp: less_Suc_eq intro: exI [of _ Testing])
  next
    case (canceled xs i ys t err)
    then have "i < length ids" using in_range [of i Testing] by simp
    then show ?thesis using sem canceled by (intro move [OF canceled(2), where ph' = Releasing]) (simp_all add: pc_correct_def holders_def)
  next
    case (proceed xs i ys t r)
    then have "ctx_Err ctx t0 = None" using inv ctx_Err_earlier [OF proceed(5), of t0] by simp
    then show ?thesis using sem proceed(1-3) by (intro move [OF proceed(2), where ph' = "Sleeping (t + (50 + int r) * millisecond)"]) (simp_all add: holders_def)
  next
    case (processed xs i wake ys t)
    then have "i < length ids" using in_range [of i "Sleeping wake"] by simp
    moreover have "ctx_Err ctx t0 = None" using inv processed(2) by simp
    ultimately show ?thesis using sem processed by (intro move [OF processed(2), where ph' = Releasing]) (simp_all add: pc_correct_def holders_def)
  next
    case (release xs i ys t)
    have "distinct (map fst (pc_running p))" using inv by simp
    then have "(i, ph) \<in> set (pc_running p) \<Longrightarrow> ph = Releasing" for ph
      using release(2) by (auto simp: rev_image_eqI)
    then have "pc_correct ctx t0 (pc_now p) (ids ! i) (pc_results p ! i)"
      using covered [of i Releasing] release(2) by fastforce
    from pc_correct_later [OF this release(3)] show ?thesis
      using sem release by (intro move [OF release(2), where ph' = Ending]) (simp_all add: holders_def)
  next
    case (ended xs i ys t)
    then show ?thesis using inv pc_correct_later [of ctx t0 "pc_now p" _ _ t] unfolding pc_inv_def holders_def by auto
  qed
qed

lemma pc_reachable_inv:
  assumes "(pc_step ctx ids concurrency)\<^sup>*\<^sup>* p p'" and "pc_inv ctx ids concurrency t0 p"
  shows "pc_inv ctx ids concurrency t0 p'"
  using assms by (induction rule: rtranclp_induct) (auto intro: pc_step_inv)

section \<open>\<open>ProcessConcurrently\<close> returns\<close>

fun phase_rest :: "process_phase \<Rightarrow> nat" where
  "phase_rest Testing = 4"
| "phase_rest (Sleeping _) = 3"
| "phase_rest Releasing = 2"
| "phase_rest Ending = 1"

definition pc_rest :: "string list \<Rightarrow> processing \<Rightarrow> nat" where
  "pc_rest ids p = 5 * (length ids - pc_next p) + sum_list (map (phase_rest \<circ> snd) (pc_running p))"

lemma pc_step_rest: "pc_step ctx ids concurrency p p' \<Longrightarrow> pc_rest ids p' < pc_rest ids p"
  by (induction rule: pc_step.induct) (auto simp: pc_rest_def)

lemma pc_goroutine_enabled:
  assumes "ctx \<noteq> NilContext" and "pc_running p = (i, ph) # gs"
  shows "\<exists>p'. pc_step ctx ids concurrency p p'"
proof -
  have running: "pc_running p = [] @ (i, ph) # gs" using assms(2) by simp
  show ?thesis
  proof (cases ph)
    case Testing
    show ?thesis
    proof (cases "ctx_Err ctx (pc_now p)")
      case None
      show ?thesis using pc_step.proceed [OF running [unfolded Testing] order_refl assms(1) None, of 0] by auto
    next
      case (Some err)
      show ?thesis using pc_step.canceled [OF running [unfolded Testing] order_refl Some] by blast
    qed
  next
    case (Sleeping wake)
    show ?thesis using pc_step.processed [OF running [unfolded Sleeping], of "max (pc_now p) wake"] by auto
  next
    case Releasing
    show ?thesis using pc_step.release [OF running [unfolded Releasing] order_refl] by blast
  next
    case Ending
    show ?thesis using pc_step.ended [OF running [unfolded Ending] order_refl] by blast
  qed
qed

lemma pc_enabled:
  assumes "pc_inv ctx ids concurrency t0 p" and "ctx \<noteq> NilContext" and "1 \<le> concurrency" and "\<not> pc_returned ids p"
  shows "\<exists>p'. pc_step ctx ids concurrency p p'"
proof (cases "pc_running p")
  case Nil
  then have "pc_next p < length ids" "int (pc_sem p) < concurrency"
    using assms by (auto simp: pc_inv_def pc_returned_def holders_def)
  from pc_step.spawn [OF this order_refl] show ?thesis by blast
next
  case (Cons g gs)
  then show ?thesis using pc_goroutine_enabled [OF assms(2)] by (cases g) auto
qed

interpretation pc: bounded_runs "pc_step ctx ids concurrency"
  "\<lambda>p. pc_inv ctx ids concurrency t0 p \<and> ctx \<noteq> NilContext \<and> 1 \<le> concurrency" "pc_returned ids" "pc_rest ids"
  for ctx ids concurrency t0
  by unfold_locales (auto intro: pc_step_inv pc_step_rest pc_enabled)


text \<open>Without room in the semaphore the call never gets past the first item.\<close>

lemma ProcessConcurrently_deadlock:
  "ids \<noteq> [] \<Longrightarrow> \<not> pc_step ctx ids 0 (pc_start ids t) p' \<and> \<not> pc_returned ids (pc_start ids t)"
  by (auto simp: pc_start_def pc_returned_def elim!: pc_stepE)

text \<open>A run over one item: started, not cancelled, processed 50 ms later, token given back, ended.\<close>

definition pc_sample :: processing where
  "pc_sample = \<lparr>pc_next = 1, pc_sem = 0, pc_running = [],
     pc_results = [\<lparr>pr_ID = ''a'', pr_Output = ''processed_a'', pr_Error = None\<rparr>], pc_now = 50000000\<rparr>"

lemma pc_sample_run: "(pc_step Background [''a''] 1)\<^sup>*\<^sup>* (pc_start [''a''] 0) pc_sample"
proof -
  let ?p = "pc_start [''a''] 0"
  let ?p1 = "?p\<lparr>pc_next := 1, pc_sem := 1, pc_running := [(0, Testing)]\<rparr>"
  let ?p2 = "?p1\<lparr>pc_running := [(0, Sleeping 50000000)]\<rparr>"
  let ?p3 = "pc_sample\<lparr>pc_sem := 1, pc_running := [(0, Releasing)]\<rparr>"
  let ?p4 = "pc_sample\<lparr>pc_running := [(0, Ending)]\<rparr>"
  have "pc_step Background [''a''] 1 ?p ?p1" using pc_step.spawn [of ?p "[''a'']" 1 0 Background] by (simp add: pc_start_def)
  moreover have "pc_step Background [''a''] 1 ?p1 ?p2"
    using pc_step.proceed [of ?p1 "[]" 0 "[]" 0 Background 0] by (simp add: pc_start_def Background_def millisecond_def)
  moreover have "pc_step Background [''a''] 1 ?p2 ?p3"
    using pc_step.processed [of ?p2 "[]" 0 50000000 "[]" 50000000 Background "[''a'']"] by (simp add: pc_start_def pc_sample_def)
  moreover have "pc_step Background [''a''] 1 ?p3 ?p4"
    using pc_step.release [of ?p3 "[]" 0 "[]" 50000000] by (simp add: pc_sample_def)
  moreover have "pc_step Background [''a''] 1 ?p4 pc_sample"
    using pc_step.ended [of ?p4 "[]" 0 "[]" 50000000] by (simp add: pc_sample_def)
  ultimately show ?thesis by (meson converse_rtranclp_into_rtranclp rtranclp.rtrancl_refl)
qed

text \<open>C15: \<open>ProcessConcurrently\<close> never has more than \<open>concurrency\<close> goroutines that hold a token of the
  semaphore, whatever the order in which they run. When it returns there is one result per item, in
  the order of the items, and each is right: the item's id with its output and no error, which
  excludes that the context was done before the call, or no output and the error of the context,
  which is done by then.\<close>

theorem ProcessConcurrently_results:
  assumes "ProcessConcurrently ids concurrency t0 = Some p0" and "(pc_step ctx ids concurrency)\<^sup>*\<^sup>* p0 p"
  shows "int (length (holders p)) \<le> concurrency \<and>
    (pc_returned ids p \<longrightarrow> length (pc_results p) = length ids
       \<and> (\<forall>i < length ids. pc_correct ctx t0 (pc_now p) (ids ! i) (pc_results p ! i)))"
proof -
  have "pc_inv ctx ids concurrency t0 p0" using assms(1) pc_inv_start by (auto simp: ProcessConcurrently_def split: if_splits)
  from pc_reachable_inv [OF assms(2) this] show ?thesis by (auto simp: pc_inv_def pc_returned_def)
qed

lemma ProcessConcurrently_results_witness:
  "pc_returned [''a''] pc_sample \<and> pc_correct Background 0 50000000 ''a'' \<lparr>pr_ID = ''a'', pr_Output = ''processed_a'', pr_Error = None\<rparr>"
  using ProcessConcurrently_results [OF _ pc_sample_run, of 0]
  by (simp add: ProcessConcurrently_def pc_sample_def pc_returned_def)

text \<open>C16: \<open>ProcessConcurrently\<close> with room for at least one goroutine returns: from every state of a call
  the goroutines can finish, no run of them goes on for ever, and a state in which none can go on is
  one in which the call has returned.\<close>

theorem ProcessConcurrently_returns:
  assumes "ProcessConcurrently ids concurrency t0 = Some p0" and "1 \<le> concurrency" and "ctx \<noteq> NilContext"
    and "(pc_step ctx ids concurrency)\<^sup>*\<^sup>* p0 p"
  shows "(\<exists>p'. (pc_step ctx ids concurrency)\<^sup>*\<^sup>* p p' \<and> pc_returned ids p')
    \<and> (\<nexists>f. f 0 = p \<and> (\<forall>i. pc_step ctx ids concurrency (f i) (f (Suc i))))
    \<and> ((\<forall>p'. \<not> pc_step ctx ids concurrency p p') \<longrightarrow> pc_returned ids p)"
proof -
  have "pc_inv ctx ids concurrency t0 p0" using assms(1) pc_inv_start by (auto simp: ProcessConcurrently_def split: if_splits)
  then have "pc_inv ctx ids concurrency t0 p \<and> ctx \<noteq> NilContext \<and> 1 \<le> concurrency"
    using pc_reachable_inv [OF assms(4)] assms(2,3) by blast
  then show ?thesis using pc.reaches_final pc.no_endless_run pc.stuck_final by blast
qed

lemma ProcessConcurrently_returns_witness:
  "\<exists>p'. (pc_step Background [''a'', ''b''] 1)\<^sup>*\<^sup>* (pc_start [''a'', ''b''] 0) p' \<and> pc_returned [''a'', ''b''] p'"
  using ProcessConcurrently_returns [of "[''a'', ''b'']" 1 0 "pc_start [''a'', ''b''] 0" Background "pc_start [''a'', ''b''] 0"]
  by (simp add: ProcessConcurrently_def Background_def)


section \<open>\<open>VerifyTransaction\<close>\<close>

record VerificationResult =
  vr_Check :: string
  vr_Passed :: bool
  vr_Latency :: int
  vr_Error :: "go_error option"

text \<open>The comparison of an amount with a constant.\<close>

fun exceeds :: "go_float \<Rightarrow> rat \<Rightarrow> bool" where
  "exceeds (Finite x) y \<longleftrightarrow> y < x"
| "exceeds (Infinite neg) y \<longleftrightarrow> \<not> neg"
| "exceeds NaN y \<longleftrightarrow> False"

text \<open>
  A check: its timer is the least delay and the range of the random part, in milliseconds; once the timer
  has fired it decides on the amount. The three checks wait in the same \<open>select\<close>.
\<close>

record verification_check =
  ck_name :: string
  ck_least :: int
  ck_range :: nat
  ck_verdict :: "go_float \<Rightarrow> go_error option"

definition checkFraud :: verification_check where
  "checkFraud = \<lparr>ck_name = ''fraud'', ck_least = 50, ck_range = 100,
     ck_verdict = (\<lambda>amount. if exceeds amount 10000 then Some (New (''high-risk amount: '' @ two_decimals amount)) else None)\<rparr>"

definition checkSanctions :: verification_check where
  "checkSanctions = \<lparr>ck_name = ''sanctions'', ck_least = 30, ck_range = 80, ck_verdict = (\<lambda>amount. None)\<rparr>"

definition checkBank :: verification_check where
  "checkBank = \<lparr>ck_name = ''bank'', ck_least = 100, ck_range = 200, ck_verdict = (\<lambda>amount. None)\<rparr>"

definition checks :: "verification_check list" where
  "checks = [checkFraud, checkSanctions, checkBank]"

text \<open>\<open>cancel()\<close> at a moment: it has no effect on a context that is done by then.\<close>

fun cancel_at :: "int \<Rightarrow> go_context \<Rightarrow> go_context" where
  "cancel_at t NilContext = NilContext"
| "cancel_at t (Context None) = Context (Some (t, Sentinel Canceled))"
| "cancel_at t (Context (Some (d, err))) = Context (Some (if d \<le> t then (d, err) else (t, Sentinel Canceled)))"

text \<open>
  Where the goroutine of a check is: not started, in the \<open>select\<close> with the moment its clock was read and the
  one its timer fires at, before the send with the error, before \<open>wg.Done()\<close>. \<open>vt_ch\<close> is the buffer of the
  channel, \<open>vt_closed\<close> what the closing goroutine does, \<open>vt_return\<close> the error of the call once it has
  returned.
\<close>

datatype check_phase = Spawned | Waiting int int | Checked int "go_error option" | Sent

record verification =
  vt_ctx :: go_context
  vt_running :: "(verification_check \<times> check_phase) list"
  vt_ch :: "VerificationResult list"
  vt_closed :: bool
  vt_results :: "VerificationResult list"
  vt_return :: "go_error option option"
  vt_now :: int

text \<open>\<open>context.WithTimeout\<close> panics for a nil parent.\<close>

definition VerifyTransaction :: "go_context \<Rightarrow> int \<Rightarrow> verification option" where
  "VerifyTransaction ctx t =
     (if ctx = NilContext then None
      else Some \<lparr>vt_ctx = WithTimeout ctx (2 * second) t, vt_running = map (\<lambda>c. (c, Spawned)) checks, vt_ch = [],
                 vt_closed = False, vt_results = [], vt_return = None, vt_now = t\<rparr>)"

text \<open>The last loop: the error of the first result that did not pass.\<close>

fun vt_verdict :: "VerificationResult list \<Rightarrow> go_error option" where
  "vt_verdict [] = None"
| "vt_verdict (r # rs) =
     (if vr_Passed r then vt_verdict rs
      else Some (New (''verification failed: '' @ vr_Check r @ '': '' @ (case vr_Error r of None \<Rightarrow> ''<nil>'' | Some err \<Rightarrow> Error err))))"

inductive vt_step :: "go_float \<Rightarrow> verification \<Rightarrow> verification \<Rightarrow> bool" for amount where
  started: "vt_running v = xs @ (c, Spawned) # ys \<Longrightarrow> vt_now v \<le> start \<Longrightarrow> start \<le> t \<Longrightarrow> r < ck_range c
    \<Longrightarrow> vt_step amount v (v\<lparr>vt_running := xs @ (c, Waiting start (t + (ck_least c + int r) * millisecond)) # ys, vt_now := t\<rparr>)"
| fired: "vt_running v = xs @ (c, Waiting start fire) # ys \<Longrightarrow> vt_now v \<le> t \<Longrightarrow> fire \<le> t
    \<Longrightarrow> vt_step amount v (v\<lparr>vt_running := xs @ (c, Checked start (ck_verdict c amount)) # ys, vt_now := t\<rparr>)"
| stopped: "vt_running v = xs @ (c, Waiting start fire) # ys \<Longrightarrow> vt_now v \<le> t \<Longrightarrow> ctx_Err (vt_ctx v) t = Some err
    \<Longrightarrow> vt_step amount v (v\<lparr>vt_running := xs @ (c, Checked start (Some err)) # ys, vt_now := t\<rparr>)"
| sent: "vt_running v = xs @ (c, Checked start err) # ys \<Longrightarrow> length (vt_ch v) < length checks
    \<Longrightarrow> vt_now v \<le> u \<Longrightarrow> u \<le> t
    \<Longrightarrow> vt_step amount v (v\<lparr>vt_running := xs @ (c, Sent) # ys, vt_now := t,
          vt_ch := vt_ch v @ [\<lparr>vr_Check = ck_name c, vr_Passed = (err = None), vr_Latency = u - start, vr_Error = err\<rparr>]\<rparr>)"
| finished: "vt_running v = xs @ (c, Sent) # ys \<Longrightarrow> vt_now v \<le> t
    \<Longrightarrow> vt_step amount v (v\<lparr>vt_running := xs @ ys, vt_now := t\<rparr>)"
| closed: "vt_running v = [] \<Longrightarrow> \<not> vt_closed v \<Longrightarrow> vt_now v \<le> t
    \<Longrightarrow> vt_step amount v (v\<lparr>vt_closed := True, vt_now := t\<rparr>)"
| received: "vt_ch v = r # rs \<Longrightarrow> vt_now v \<le> t
    \<Longrightarrow> vt_step amount v (v\<lparr>vt_ch := rs, vt_results := vt_results v @ [r], vt_now := t,
          vt_ctx := (if vr_Passed r then vt_ctx v else cancel_at t (vt_ctx v))\<rparr>)"
| returned: "vt_ch v = [] \<Longrightarrow> vt_closed v \<Longrightarrow> vt_return v = None \<Longrightarrow> vt_now v \<le> t
    \<Longrightarrow> vt_step amount v (v\<lparr>vt_return := Some (vt_verdict (vt_results v)), vt_now := t, vt_ctx := cancel_at t (vt_ctx v)\<rparr>)"

inductive_cases vt_stepE: "vt_step amount v v'"


section \<open>The invariant of \<open>VerifyTransaction\<close>\<close>

text \<open>
  Bookkeeping: each check is still to be sent, in the channel, or among the results; the channel is closed
  when no goroutine is left, and the call returns the verdict on the results.
\<close>

definition vt_accounts :: "verification \<Rightarrow> bool" where
  "vt_accounts v \<longleftrightarrow>
     mset (map (ck_name \<circ> fst) (filter (\<lambda>g. snd g \<noteq> Sent) (vt_running v))) + mset (map vr_Check (vt_ch v @ vt_results v))
       = mset (map ck_name checks)
   \<and> (vt_closed v \<longrightarrow> vt_running v = [])
   \<and> (case vt_return v of None \<Rightarrow> True | Some err \<Rightarrow> vt_closed v \<and> vt_ch v = [] \<and> err = vt_verdict (vt_results v))"

text \<open>
  What a failed check may have to blame at a moment: the amount, or the context of the call, cancelled by
  the caller or past its deadline.
\<close>

definition vt_blame :: "go_float \<Rightarrow> go_context \<Rightarrow> int \<Rightarrow> int \<Rightarrow> bool" where
  "vt_blame amount ctx t0 t \<longleftrightarrow> exceeds amount 10000 \<or> ctx_Err (WithTimeout ctx (2 * second) t0) t \<noteq> None"

fun phase_ok :: "go_float \<Rightarrow> bool \<Rightarrow> int \<Rightarrow> verification_check \<Rightarrow> check_phase \<Rightarrow> bool" where
  "phase_ok amount blame t c (Waiting start fire) \<longleftrightarrow> start \<le> t"
| "phase_ok amount blame t c (Checked start err) \<longleftrightarrow>
     start \<le> t \<and> (err = None \<longrightarrow> ck_verdict c amount = None) \<and> (err \<noteq> None \<longrightarrow> blame)"
| "phase_ok amount blame t c _ \<longleftrightarrow> True"

definition result_ok :: "go_float \<Rightarrow> bool \<Rightarrow> VerificationResult \<Rightarrow> bool" where
  "result_ok amount blame r \<longleftrightarrow>
     (vr_Passed r \<longleftrightarrow> vr_Error r = None) \<and> 0 \<le> vr_Latency r \<and> (\<not> vr_Passed r \<longrightarrow> blame)
   \<and> (vr_Passed r \<longrightarrow> (\<exists>c \<in> set checks. vr_Check r = ck_name c \<and> ck_verdict c amount = None))"

definition vt_sound :: "go_float \<Rightarrow> go_context \<Rightarrow> int \<Rightarrow> verification \<Rightarrow> bool" where
  "vt_sound amount ctx t0 v \<longleftrightarrow>
     (\<forall>(c, ph) \<in> set (vt_running v). c \<in> set checks \<and> phase_ok amount (vt_blame amount ctx t0 (vt_now v)) (vt_now v) c ph)
   \<and> (\<forall>r \<in> set (vt_ch v @ vt_results v). result_ok amount (vt_blame amount ctx t0 (vt_now v)) r)
   \<and> (vt_ctx v = WithTimeout ctx (2 * second) t0 \<or> (\<exists>r \<in> set (vt_results v). \<not> vr_Passed r) \<or> vt_return v \<noteq> None)"

definition vt_inv :: "go_float \<Rightarrow> go_context \<Rightarrow> int \<Rightarrow> verification \<Rightarrow> bool" where
  "vt_inv amount ctx t0 v \<longleftrightarrow> vt_accounts v \<and> vt_sound amount ctx t0 v"

lemma vt_inv_start: "VerifyTransaction ctx t = Some v \<Longrightarrow> vt_inv amount ctx t v"
  by (auto simp: VerifyTransaction_def vt_inv_def vt_accounts_def vt_sound_def checks_def split: if_splits)

lemma vt_step_accounts: "vt_step amount v v' \<Longrightarrow> vt_accounts v \<Longrightarrow> vt_accounts v'"
  by (induction rule: vt_step.induct) (auto simp: vt_accounts_def split: option.splits)

lemma vt_blame_later: "vt_blame amount ctx t0 t \<Longrightarrow> t \<le> t' \<Longrightarrow> vt_blame amount ctx t0 t'"
  using ctx_Err_mono [of "WithTimeout ctx (2 * second) t0" t _ t'] by (auto simp: vt_blame_def)

lemma phase_ok_later: "phase_ok amount b t c ph \<Longrightarrow> (b \<Longrightarrow> b') \<Longrightarrow> t \<le> t' \<Longrightarrow> phase_ok amount b' t' c ph"
  by (cases ph) auto

lemma result_ok_later: "result_ok amount b r \<Longrightarrow> (b \<Longrightarrow> b') \<Longrightarrow> result_ok amount b' r"
  by (auto simp: result_ok_def)

lemma verdict_blame: "c \<in> set checks \<Longrightarrow> ck_verdict c amount \<noteq> None \<Longrightarrow> vt_blame amount ctx t0 t"
  by (auto simp: checks_def checkFraud_def checkSanctions_def checkBank_def vt_blame_def split: if_splits)

text \<open>The facts of a sound state hold at every later moment.\<close>

lemma vt_sound_later:
  assumes "vt_sound amount ctx t0 v" and "vt_now v \<le> t"
  shows "(c, ph) \<in> set (vt_running v) \<Longrightarrow> c \<in> set checks \<and> phase_ok amount (vt_blame amount ctx t0 t) t c ph"
    and "r \<in> set (vt_ch v @ vt_results v) \<Longrightarrow> result_ok amount (vt_blame amount ctx t0 t) r"
  using assms vt_blame_later [of amount ctx t0 "vt_now v" t] unfolding vt_sound_def
  by (force elim: phase_ok_later, meson result_ok_later)

lemma stopped_blame:
  assumes "vt_sound amount ctx t0 v" and "vt_return v = None" and "vt_now v \<le> t" and "ctx_Err (vt_ctx v) t = Some err"
  shows "vt_blame amount ctx t0 t"
proof -
  have "vt_ctx v = WithTimeout ctx (2 * second) t0 \<or> (\<exists>r \<in> set (vt_results v). \<not> vr_Passed r)"
    using assms(1,2) by (simp add: vt_sound_def)
  then show ?thesis
  proof
    assume "\<exists>r \<in> set (vt_results v). \<not> vr_Passed r"
    then obtain r where r: "r \<in> set (vt_results v)" "\<not> vr_Passed r" by blast
    with vt_sound_later(2) [OF assms(1,3), of r] show ?thesis by (simp add: result_ok_def)
  qed (use assms(4) in \<open>auto simp: vt_blame_def\<close>)
qed

lemma vt_sound_move:
  assumes "vt_sound amount ctx t0 v" and "vt_now v \<le> vt_now v'"
    and "\<And>c ph. (c, ph) \<in> set (vt_running v') \<Longrightarrow> (c, ph) \<in> set (vt_running v)
           \<or> c \<in> set checks \<and> phase_ok amount (vt_blame amount ctx t0 (vt_now v')) (vt_now v') c ph"
    and "\<And>r. r \<in> set (vt_ch v' @ vt_results v') \<Longrightarrow> r \<in> set (vt_ch v @ vt_results v)
           \<or> result_ok amount (vt_blame amount ctx t0 (vt_now v')) r"
    and "vt_ctx v' = vt_ctx v \<and> set (vt_results v) \<subseteq> set (vt_results v') \<and> vt_return v' = vt_return v
      \<or> (\<exists>r \<in> set (vt_results v'). \<not> vr_Passed r) \<or> vt_return v' \<noteq> None"
  shows "vt_sound amount ctx t0 v'"
proof -
  note later = vt_sound_later [OF assms(1,2)]
  have "\<forall>(c, ph) \<in> set (vt_running v'). c \<in> set checks \<and> phase_ok amount (vt_blame amount ctx t0 (vt_now v')) (vt_now v') c ph"
    using assms(3) later(1) by blast
  moreover have "\<forall>r \<in> set (vt_ch v' @ vt_results v'). result_ok amount (vt_blame amount ctx t0 (vt_now v')) r"
    using assms(4) later(2) by blast
  moreover have "vt_ctx v' = WithTimeout ctx (2 * second) t0 \<or> (\<exists>r \<in> set (vt_results v'). \<not> vr_Passed r) \<or> vt_return v' \<noteq> None"
    using assms(1,5) unfolding vt_sound_def by (metis subsetD)
  ultimately show ?thesis by (simp only: vt_sound_def)
qed

lemma vt_step_sound:
  assumes "vt_step amount v v'" and "vt_accounts v" and sound: "vt_sound amount ctx t0 v"
  shows "vt_sound amount ctx t0 v'"
  using assms(1)
proof cases
  case (started xs c ys start t r)
  then show ?thesis using vt_sound_later(1) [OF sound order_refl, of c Spawned] by (intro vt_sound_move [OF sound]) auto
next
  case (fired xs c start fire ys t)
  then have "c \<in> set checks \<and> start \<le> t" using vt_sound_later(1) [OF sound fired(3), of c "Waiting start fire"] by simp
  then show ?thesis using fired(1-3) verdict_blame [of c amount ctx t0 t] by (intro vt_sound_move [OF sound]) auto
next
  case (stopped xs c start fire ys t err)
  then have "c \<in> set checks \<and> start \<le> t" using vt_sound_later(1) [OF sound stopped(3), of c "Waiting start fire"] by simp
  moreover have "vt_return v = None" using assms(2) stopped(2) by (auto simp: vt_accounts_def split: option.splits)
  note stopped_blame [OF sound this stopped(3,4)]
  ultimately show ?thesis using stopped(1-3) by (intro vt_sound_move [OF sound]) auto
next
  case (sent xs c start err ys u t)
  have "c \<in> set checks \<and> phase_ok amount (vt_blame amount ctx t0 u) u c (Checked start err)"
    using vt_sound_later(1) [OF sound sent(4), of c "Checked start err"] sent(2) by simp
  then have "result_ok amount (vt_blame amount ctx t0 t) \<lparr>vr_Check = ck_name c, vr_Passed = (err = None), vr_Latency = u - start, vr_Error = err\<rparr>"
    using vt_blame_later [OF _ sent(5)] by (auto simp: result_ok_def)
  then show ?thesis using sent(1,2,4,5) vt_sound_later(1) [OF sound order_refl, of c "Checked start err"]
    by (intro vt_sound_move [OF sound]) auto
next
  case (finished xs c ys t)
  then show ?thesis by (intro vt_sound_move [OF sound]) auto
next
  case (closed t)
  then show ?thesis by (intro vt_sound_move [OF sound]) auto
next
  case (received r rs t)
  then show ?thesis by (intro vt_sound_move [OF sound]) auto
next
  case (returned t)
  then show ?thesis by (intro vt_sound_move [OF sound]) auto
qed

lemma vt_step_inv: "vt_step amount v v' \<Longrightarrow> vt_inv amount ctx t0 v \<Longrightarrow> vt_inv amount ctx t0 v'"
  using vt_step_accounts vt_step_sound by (simp add: vt_inv_def)

section \<open>\<open>VerifyTransaction\<close> returns\<close>

fun check_rest :: "check_phase \<Rightarrow> nat" where
  "check_rest Spawned = 5"
| "check_rest (Waiting _ _) = 4"
| "check_rest (Checked _ _) = 3"
| "check_rest Sent = 1"

definition vt_rest :: "verification \<Rightarrow> nat" where
  "vt_rest v = sum_list (map (check_rest \<circ> snd) (vt_running v)) + length (vt_ch v)
     + (if vt_closed v then 0 else 1) + (if vt_return v = None then 1 else 0)"

lemma vt_step_rest: "vt_step amount v v' \<Longrightarrow> vt_rest v' < vt_rest v"
  by (induction rule: vt_step.induct) (auto simp: vt_rest_def)

lemma vt_enabled:
  assumes "vt_inv amount ctx t0 v" and "vt_return v = None"
  shows "\<exists>v'. vt_step amount v v'"
proof (cases "vt_running v")
  case Nil
  then show ?thesis using vt_step.closed [of v "vt_now v"] vt_step.returned [of v "vt_now v"] vt_step.received [of v _ _ "vt_now v"] assms(2)
    by (cases "vt_ch v") blast+
next
  case (Cons g gs)
  obtain c ph where g: "g = (c, ph)" by (cases g)
  have running: "vt_running v = [] @ (c, ph) # gs" using Cons g by simp
  have c: "c \<in> set checks" using assms(1) running by (auto simp: vt_inv_def vt_sound_def)
  show ?thesis
  proof (cases ph)
    case Spawned
    have "0 < ck_range c" using c by (auto simp: checks_def checkFraud_def checkSanctions_def checkBank_def)
    then show ?thesis using vt_step.started [OF running [unfolded Spawned] order_refl order_refl] by blast
  next
    case (Waiting start fire)
    show ?thesis using vt_step.fired [OF running [unfolded Waiting], of "max (vt_now v) fire"] by auto
  next
    case (Checked start err)
    have "mset (map (ck_name \<circ> fst) (filter (\<lambda>g. snd g \<noteq> Sent) (vt_running v))) + mset (map vr_Check (vt_ch v @ vt_results v))
       = mset (map ck_name checks)"
      using assms(1) by (simp add: vt_inv_def vt_accounts_def)
    from arg_cong [OF this, of size] have "length (vt_ch v) < length checks" using running Checked by simp
    from vt_step.sent [OF running [unfolded Checked] this order_refl order_refl] show ?thesis by blast
  next
    case Sent
    show ?thesis using vt_step.finished [OF running [unfolded Sent] order_refl] by blast
  qed
qed

interpretation vt: bounded_runs "vt_step amount" "vt_inv amount ctx t0" "\<lambda>v. vt_return v \<noteq> None" vt_rest
  for amount ctx t0
  by unfold_locales (auto intro: vt_step_inv vt_step_rest vt_enabled)


lemma vt_verdict_None: "vt_verdict rs = None \<longleftrightarrow> (\<forall>r \<in> set rs. vr_Passed r)"
  by (induction rs) auto

lemma fraud_only: "c \<in> set checks \<Longrightarrow> ck_name c = ''fraud'' \<Longrightarrow> ck_verdict c amount = None \<Longrightarrow> \<not> exceeds amount 10000"
  by (auto simp: checks_def checkFraud_def checkSanctions_def checkBank_def)

text \<open>C17: When \<open>VerifyTransaction\<close> returns, its results are one for each of the three checks, in the order
  they arrived, and a result has passed exactly when it has no error. The call returns an error
  exactly when a check has not passed. It always does for an amount above 10000, also when another
  check failed first and cancelled the rest, and only does for such an amount or when the context it was
  given, limited to two seconds, is done: the cancellation of the remaining checks never raises an error
  of its own.\<close>

theorem VerifyTransaction_verdict:
  assumes "VerifyTransaction ctx t0 = Some v0" and "(vt_step amount)\<^sup>*\<^sup>* v0 v" and "vt_return v = Some err"
  shows "mset (map vr_Check (vt_results v)) = {#''fraud'', ''sanctions'', ''bank''#}
    \<and> (\<forall>r \<in> set (vt_results v). vr_Passed r \<longleftrightarrow> vr_Error r = None)
    \<and> (err = None \<longleftrightarrow> (\<forall>r \<in> set (vt_results v). vr_Passed r))
    \<and> (exceeds amount 10000 \<longrightarrow> err \<noteq> None)
    \<and> (err \<noteq> None \<longrightarrow> exceeds amount 10000 \<or> ctx_Err (WithTimeout ctx (2 * second) t0) (vt_now v) \<noteq> None)"
proof -
  have inv: "vt_accounts v" "vt_sound amount ctx t0 v" using vt.run_inv [OF assms(2)] vt_inv_start [OF assms(1)] by (auto simp: vt_inv_def)
  have acc: "mset (map vr_Check (vt_results v)) = {#''fraud'', ''sanctions'', ''bank''#}" "err = vt_verdict (vt_results v)"
    using inv(1) assms(3) by (auto simp: vt_accounts_def checks_def checkFraud_def checkSanctions_def checkBank_def)
  have res: "result_ok amount (vt_blame amount ctx t0 (vt_now v)) r" if "r \<in> set (vt_results v)" for r
    using vt_sound_later(2) [OF inv(2) order_refl] that by simp
  have "''fraud'' \<in># mset (map vr_Check (vt_results v))" by (simp only: acc(1)) simp
  then obtain r where r: "r \<in> set (vt_results v)" "vr_Check r = ''fraud''" by auto
  have "err \<noteq> None" if "exceeds amount 10000"
    using that res [OF r(1)] r fraud_only unfolding acc(2) vt_verdict_None by (metis result_ok_def)
  moreover have "vt_blame amount ctx t0 (vt_now v)" if "err \<noteq> None"
    using that res unfolding acc(2) vt_verdict_None by (auto simp: result_ok_def)
  ultimately show ?thesis using acc res vt_verdict_None by (auto simp: result_ok_def vt_blame_def)
qed

lemma VerifyTransaction_verdict_witness:
  "\<exists>v err. (vt_step (Finite 15000))\<^sup>*\<^sup>* (the (VerifyTransaction Background 0)) v \<and> vt_return v = Some err \<and> err \<noteq> None
     \<and> mset (map vr_Check (vt_results v)) = {#''fraud'', ''sanctions'', ''bank''#}"
proof -
  have start: "VerifyTransaction Background 0 = Some (the (VerifyTransaction Background 0))"
    by (simp add: VerifyTransaction_def Background_def)
  obtain v err where v: "(vt_step (Finite 15000))\<^sup>*\<^sup>* (the (VerifyTransaction Background 0)) v" "vt_return v = Some err"
    using vt.reaches_final [OF vt_inv_start [OF start]] by blast
  have "exceeds (Finite 15000) 10000" by simp
  with VerifyTransaction_verdict [OF start v] v show ?thesis by blast
qed

text \<open>Every call of \<open>VerifyTransaction\<close> with a context returns, whatever the order of its goroutines.\<close>

lemma VerifyTransaction_returns:
  assumes "VerifyTransaction ctx t0 = Some v0" and "(vt_step amount)\<^sup>*\<^sup>* v0 v"
  shows "(\<nexists>f. f 0 = v \<and> (\<forall>i. vt_step amount (f i) (f (Suc i)))) \<and> ((\<forall>v'. \<not> vt_step amount v v') \<longrightarrow> vt_return v \<noteq> None)"
  using vt.run_inv [OF assms(2) vt_inv_start [OF assms(1)]] vt.no_endless_run vt.stuck_final by blast

section \<open>\<open>SafeMetrics\<close>\<close>

text \<open>Each operation holds the mutex for its whole body: the calls happen one after the other.\<close>

record SafeMetrics =
  sm_counts :: "string \<rightharpoonup> int64"

definition NewSafeMetrics :: SafeMetrics where
  "NewSafeMetrics = \<lparr>sm_counts = Map.empty\<rparr>"

definition sm_Get :: "string \<Rightarrow> SafeMetrics \<Rightarrow> int64" where
  "sm_Get key m = (case sm_counts m key of None \<Rightarrow> 0 | Some n \<Rightarrow> n)"

definition sm_Increment :: "string \<Rightarrow> SafeMetrics \<Rightarrow> SafeMetrics" where
  "sm_Increment key m = m\<lparr>sm_counts := (sm_counts m)(key \<mapsto> sm_Get key m + 1)\<rparr>"

definition sm_Snapshot :: "SafeMetrics \<Rightarrow> string \<rightharpoonup> int64" where
  "sm_Snapshot m = sm_counts m"

lemma sm_counts_fold:
  "sm_Get key (fold sm_Increment keys m) = sm_Get key m + of_nat (count (mset keys) key)"
  "dom (sm_counts (fold sm_Increment keys m)) = dom (sm_counts m) \<union> set keys"
  by (induction keys arbitrary: m) (auto simp: sm_Increment_def sm_Get_def)

text \<open>
  The counter of a key is the number of its increments as an \<open>int64\<close>, whatever the order of the calls,
  and a snapshot has exactly the keys that were incremented.
\<close>

lemma sm_Snapshot_counts:
  "sm_Snapshot (fold sm_Increment keys NewSafeMetrics)
     = (\<lambda>key. if key \<in> set keys then Some (of_nat (count (mset keys) key)) else None)"
proof
  fix key
  let ?m = "fold sm_Increment keys NewSafeMetrics"
  have "sm_Get key ?m = of_nat (count (mset keys) key)" "dom (sm_counts ?m) = set keys"
    by (simp_all add: sm_counts_fold) (simp_all add: sm_Get_def NewSafeMetrics_def)
  then show "sm_Snapshot ?m key = (if key \<in> set keys then Some (of_nat (count (mset keys) key)) else None)"
    by (auto simp: sm_Snapshot_def sm_Get_def split: option.splits)
qed

lemma sm_order_irrelevant:
  "mset keys = mset keys' \<Longrightarrow> sm_Snapshot (fold sm_Increment keys NewSafeMetrics) = sm_Snapshot (fold sm_Increment keys' NewSafeMetrics)"
  unfolding sm_Snapshot_counts by (metis set_mset_mset)

end
