(* ===== verification/Spec2Isabelle.thy ===== *)
theory Spec2Isabelle
  imports Payflow_Server Payflow_Delivery Payflow_Patterns
begin

text \<open>
  A verification library for \<open>Payflow\<close>, a payment service in Go (\<open>cmd/server\<close>, \<open>internal/...\<close>). A client
  posts a payment; the service checks it, records it as pending, charges a bank through a circuit
  breaker with retries, credits the merchant and writes an audit event and an outbox message; a
  worker publishes the outbox. Completed payments can be refunded.

  The parts and their theories, each in the order of the source:

  \<^item> \<open>Payflow_Prelude\<close>: the type of 64 bit integers, list and map lemmas, decimal numerals, the
    collections of rewrite rules.
  \<^item> \<open>Payflow_Domain\<close> (\<open>internal/domain\<close>): statuses and the transition table, transactions,
    merchants, events, pagination; errors are values of \<open>go_error\<close>, which keeps the chain that
    \<open>errors.Is\<close> inspects.
  \<^item> \<open>Payflow_Runtime\<close>: what the source uses of Go's runtime. The environment record has the clock and
    the streams of random numbers, latencies and scheduling choices; theorems quantify over it. A context
    is its deadline and the error it ends with. Conversions of \<open>float64\<close> are written out.
  \<^item> \<open>Payflow_Repository\<close> (\<open>internal/repository\<close>): the interfaces as records of operations, and their
    contract as the locales \<open>repositories\<close>, \<open>reliable_repositories\<close> and
    \<open>transactional_repositories\<close> over an abstract \<open>book\<close>: transactions, balances, audit log, outbox.
  \<^item> \<open>Payflow_Mock\<close>, \<open>Payflow_Postgres\<close>: the in-memory repositories and the SQL ones. Every SQL
    statement is a function on tables under the constraints of the migrations; a fault schedule decides
    which statements fail, and whether before or after they took effect. Both theories interpret the
    contract.
  \<^item> \<open>Payflow_Resilience\<close> (\<open>internal/service/resilience.go\<close>): breaker and retry. Interleaved requests are
    the step relation \<open>breaker_step\<close>.
  \<^item> \<open>Payflow_Bank\<close> (\<open>internal/service/bank.go\<close>): both bank clients, and the interface \<open>bank_client\<close>
    that they provide (a call sends at most its request, no error means an approval).
  \<^item> \<open>Payflow_Payment\<close> (\<open>internal/service/payment.go\<close>): every method of the service on a \<open>world\<close> of
    store, breaker and environment.
  \<^item> \<open>Payflow_Ledger\<close>: the specification. \<open>ledger_step\<close> says what a book may go through; the lemmas show
    that a balance less the completed amounts is invariant and that settled transactions stay settled.
  \<^item> \<open>Payflow_Store\<close>: the refinement. The locale \<open>payment_store\<close> says that creating, moving, completing
    and refunding are single effects on the book or nothing; \<open>wired_db\<close> and \<open>wired_mem\<close> are services
    on transactional and on reliable repositories, both are shown to provide it, and both are
    interpreted on the service as the program wires it.
  \<^item> \<open>Payflow_Service\<close>: the operations of the service against \<open>payment_store\<close>, and sequences of calls.
  \<^item> \<open>Payflow_Pool\<close> (\<open>internal/concurrency/patterns.go\<close>): the worker pool; \<open>pool_jobs\<close> is the interface
    of the jobs that run on it. Its lemmas account for every job and show that a closed pool drains.
  \<^item> \<open>Payflow_Patterns\<close> (\<open>internal/concurrency/patterns.go\<close>): \<open>ProcessConcurrently\<close> with its semaphore and
    \<open>VerifyTransaction\<close> with its result channel as the step relations \<open>pc_step\<close> and \<open>vt_step\<close>, and
    \<open>SafeMetrics\<close>. The locale \<open>bounded_runs\<close>, interpreted on both relations, shows that the calls return.
  \<^item> \<open>Payflow_Outbox\<close> (\<open>internal/service/outbox_worker.go\<close>): publishers and the worker. A batch is the step
    relation \<open>batch_step\<close> on the pool, with \<open>outbox_publisher\<close> and \<open>outbox_store\<close> as its interfaces;
    \<open>Payflow_Delivery\<close> interprets them on the publishers and repositories of the program and states
    the delivery guarantees.
  \<^item> \<open>Payflow_Strconv\<close>, \<open>Payflow_Float\<close>: what the HTTP layer and the configuration use of Go's text functions
    and of \<open>float64\<close>, with error bounds of the rounding.
  \<^item> \<open>Payflow_Limiter\<close> (\<open>internal/concurrency/patterns.go\<close>, \<open>internal/middleware/middleware.go\<close>): the token
    buckets; the locale \<open>limiter\<close> is interpreted on both and bounds the requests in a window of time.
  \<^item> \<open>Payflow_Redis\<close>, \<open>Payflow_Idempotency\<close> (\<open>internal/middleware\<close>): the Redis commands and Lua scripts under
    lost and repeated deliveries, the idempotency store and middleware; \<open>idem_step\<close> interleaves requests.
  \<^item> \<open>Payflow_Http\<close>, \<open>Payflow_Handlers\<close> (\<open>internal/middleware/middleware.go\<close>, \<open>internal/metrics\<close>,
    \<open>internal/handler/handlers.go\<close>): a handler maps a request and the state of the application to the
    operations on the response writer, perhaps a panic, and the new state.
  \<^item> \<open>Payflow_Documents\<close>: the JSON documents of the responses by the tags of the types, and a parser for the text
    that the middleware formats by hand; \<open>good_document\<close> says that a document fits its status.
  \<^item> \<open>Payflow_Chain\<close>: the locale \<open>world_contract\<close>, the interface between the HTTP layer and the payment
    service; its lemmas carry a condition on the world, and the shape of responses, through all handlers
    and middleware.
  \<^item> \<open>Payflow_Config\<close> (\<open>internal/config/config.go\<close>), \<open>Payflow_Database\<close>
    (\<open>internal/repository/postgres/db.go\<close>): the configuration read from the environment; connection,
    transaction helper and migration runner.
  \<^item> \<open>Payflow_Display\<close> (\<open>formatCents\<close> and \<open>Transaction.String\<close> of \<open>internal/domain/models.go\<close>,
    \<open>centsToDecimalString\<close>): amounts as text, read back as the same number of cents.
  \<^item> \<open>Payflow_Server\<close> (\<open>cmd/server/main.go\<close>, \<open>internal/telemetry\<close>): what \<open>main\<close> builds, the routes and the chain
    in front of them, start and shutdown; the contract is interpreted on the service that \<open>main\<close> builds,
    which gives the properties of whole requests.
  This theory states the properties that span components.

  Bounds: \<open>retry_loop\<close> terminates by the number of attempts left. The only fuel is that of the parser of texts in
  \<open>Payflow_Documents\<close>; the length of the text is enough, as each call consumes a character. Times are
  unbounded integers in nanoseconds (a column of the database rounds them to microseconds), counts of \<open>int\<close> stay as \<^typ>\<open>int\<close> where the source's bounds
  keep them small, amounts and balances are 64 bit words.

  A call of the service is one step here. Interleavings of calls matter for the circuit breaker, where
  they are modelled, and for refunds, where \<open>pg_concurrent_double_refund\<close> exhibits the race; the
  theorems on sequences of calls are about calls one after the other.

  Not modelled: the log lines of the service (no result depends on them);
  the spans of the payment service and of the repositories; the bytes that the JSON
  encoder writes (documents are values, with times and durations as numbers) and its errors; the order that the
  database gives rows of equal time; texts that PostgreSQL does not store (a NUL character, invalid UTF-8), whose
  rejection is a fault of the schedule. Parameters of the model are third-party: the router, the Prometheus handler, the
  bank's server, Kafka, Redis' and PostgreSQL's failures (as schedules), and what PostgreSQL makes of a migration.
\<close>

section \<open>Samples\<close>

text \<open>A simulated bank that answers at once, the retry configuration of the service, a quiet start.\<close>

definition sim_sample :: BankClient where
  "sim_sample = Simulated_Charge \<lparr>sim_Latency = 1, sim_RejectAmounts = Some (\<lambda>a. a = 666), sim_FailAmounts = None\<rparr>"

definition rc_sample :: "BankChargeRequest RetryConfig" where
  "rc_sample = \<lparr>MaxAttempts = 3, BaseDelay = 100, MaxDelay = 1000, Jitter = 50,
     ShouldRetry = Some isRetryableBankError, Sleep = None, Rand = None\<rparr>"

definition world_sample :: "'db \<Rightarrow> 'db world" where
  "world_sample d = \<lparr>wdb = d, wbreaker = NewCircuitBreaker 3 (5 * second), wenv = bank_env_sample\<rparr>"

definition input_sample :: CreateTransactionInput where
  "input_sample = \<lparr>in_MerchantID = ''m_001'', in_AmountCents = 5000, in_Currency = ''CAD'', in_IdempotencyKey = ''k2'',
     in_Description = ''lunch''\<rparr>"

lemma samples_ok [simp]:
  "bank_client sim_sample" "default_timing rc_sample"
  "wdb (world_sample d) = d" "pg_ok (pg_sample [completed_sample] faults)" "pg_ok (pg_sample [] faults)"
  by (simp_all add: sim_sample_def simulated.bank_client_axioms rc_sample_def default_timing_def world_sample_def
      pg_sample_ok)

lemma completed_sample_simps [simp]:
  "tx_ID completed_sample = ''tx_1''" "tx_MerchantID completed_sample = ''m_001''"
  "tx_AmountCents completed_sample = 5000" "tx_Status completed_sample = TxStatusCompleted"
  "tx_IdempotencyKey completed_sample = ''k1''"
  by (simp_all add: completed_sample_def)

lemma pg_service_simps [simp]:
  "s_bank (pg_service bank rc timeout maxCents) = bank" "s_retry (pg_service bank rc timeout maxCents) = rc"
  "s_outbox (pg_service bank rc timeout maxCents) = Some pg_OutboxRepo"
  by (simp_all add: pg_service_def)

lemma mock_service_simps [simp]:
  "s_bank (mock_service has_outbox bank rc timeout maxCents) = bank"
  "s_retry (mock_service has_outbox bank rc timeout maxCents) = rc"
  "s_outbox (mock_service has_outbox bank rc timeout maxCents) = None \<longleftrightarrow> \<not> has_outbox"
  by (simp_all add: mock_service_def)

lemma pg_run_calls:
  assumes "pg_ok (wdb w)" and "bank_client bank" and "default_timing rc"
    and "fold (run_call (pg_service bank rc timeout maxCents)) cs w = w'"
  shows "pg_ok (wdb w')" and "ledger (pg_book w) (pg_book w')" and "book_ok (pg_book w)" and "book_ok (pg_book w')"
  using pgs.db_store.run_calls_ledger [of w bank rc timeout maxCents cs] assms
    pgs.db_store.store_book [of "wdb w"] pgs.db_store.store_book [of "wdb w'"]
  by (simp_all add: pg_book_def)

section \<open>Money\<close>

text \<open>C1: Whatever calls the service serves one after the other on PostgreSQL and whatever faults the database has (a
  statement that fails before or after it took effect, a lost answer to a commit), a merchant's balance
  less the sum of its completed transactions never changes, and no balance is negative or exceeds
  the range of \<open>int64\<close>. So no payment is credited twice or without its transaction completing, and
  no refund is debited without its transaction becoming refunded.\<close>

theorem pg_money_conserved:
  assumes "pg_ok (wdb w)" and "bank_client bank" and "default_timing rc"
  shows "let w' = fold (run_call (pg_service bank rc timeout maxCents)) cs w in
    bk_base i (pg_book w') = bk_base i (pg_book w)
  \<and> (\<forall>x. bk_bal (pg_book w') i = Some x \<longrightarrow> 0 \<le> x \<and> x < 2 ^ 63)"
proof -
  note R = pg_run_calls [where cs = cs and timeout = timeout and maxCents = maxCents, OF assms refl]
  show ?thesis using ledger_base [OF R(2,3)] R(4) unfolding Let_def book_ok_def by blast
qed

lemma pg_money_conserved_witness:
  "bk_base ''m_001'' (pg_book (fold (run_call (pg_service sim_sample rc_sample 0 2500000))
       [CallRefund Background ''m_001'' ''tx_1'' ''damaged'', CallCreate Background input_sample]
       (world_sample (pg_sample [completed_sample] [NoFault, FailAfter ''timeout''])))) = Some 5000"
proof -
  have "bk_base ''m_001'' (pg_book (world_sample (pg_sample [completed_sample] [NoFault, FailAfter ''timeout'']))) = Some 5000"
    by code_simp
  then show ?thesis
    using pg_money_conserved [of "world_sample (pg_sample [completed_sample] [NoFault, FailAfter ''timeout''])"
        sim_sample rc_sample 0 2500000 "[CallRefund Background ''m_001'' ''tx_1'' ''damaged'', CallCreate Background input_sample]"
        "''m_001''"]
    by (simp add: Let_def)
qed

section \<open>Outcomes on PostgreSQL\<close>

text \<open>C2: \<open>CreateTransaction\<close> on PostgreSQL, under every fault schedule, ends in one of three ways. It is
  refused: an error and no transaction, the bank was not contacted, at most the pending transaction
  was written. It is replayed: the transaction recorded under the idempotency key, nothing written,
  bank not contacted. Or a new transaction was recorded: the bank was asked at most \<open>MaxAttempts\<close>
  times, always for this transaction; a balance changed only if the bank approved; and no error means
  that the bank approved and exactly the effect of a completed payment happened.\<close>

theorem pg_CreateTransaction_outcome:
  assumes "pg_ok (wdb w)" and "bank_client bank" and "default_timing rc"
    and "CreateTransaction (pg_service bank rc timeout maxCents) ctx input w = (res, w')"
  shows "refused True input (pg_book w) (wenv w) res (pg_book w') (wenv w')
    \<or> replayed input (pg_book w) (wenv w) res (pg_book w') (wenv w')
    \<or> recorded (pg_service bank rc timeout maxCents) input (pg_book w) (wenv w) res (pg_book w') (wenv w')"
  using pgs.db_store.CreateTransaction_steps [OF assms(1) disjI1 _ _ assms(4)] assms(2,3) by (simp add: pg_book_def)

lemma pg_CreateTransaction_outcome_witness:
  "\<exists>res w'. CreateTransaction (pg_service sim_sample rc_sample 0 2500000) Background
       (input_sample\<lparr>in_IdempotencyKey := ''k1''\<rparr>) (world_sample (pg_sample [completed_sample] [])) = (res, w')
     \<and> snd res = None
     \<and> replayed (input_sample\<lparr>in_IdempotencyKey := ''k1''\<rparr>) (pg_book (world_sample (pg_sample [completed_sample] [])))
         (wenv (world_sample (pg_sample [completed_sample] []) :: pgdb world)) res (pg_book w') (wenv w')"
proof -
  let ?w = "world_sample (pg_sample [completed_sample] [])"
  let ?i = "input_sample\<lparr>in_IdempotencyKey := ''k1''\<rparr>"
  let ?c = "CreateTransaction (pg_service sim_sample rc_sample 0 2500000) Background ?i ?w"
  have res: "fst ?c = (Some (completed_sample\<lparr>tx_Metadata := Some (JObject [])\<rparr>), None)" by code_simp
  then have "\<not> refused True ?i (pg_book ?w) (wenv ?w) (fst ?c) (pg_book (snd ?c)) (wenv (snd ?c))"
    and "\<not> recorded (pg_service sim_sample rc_sample 0 2500000) ?i (pg_book ?w) (wenv ?w) (fst ?c) (pg_book (snd ?c)) (wenv (snd ?c))"
    by (auto simp: refused_def recorded_def Let_def new_transaction_def completed_sample_def)
  then have "replayed ?i (pg_book ?w) (wenv ?w) (fst ?c) (pg_book (snd ?c)) (wenv (snd ?c))"
    using pg_CreateTransaction_outcome [of ?w sim_sample rc_sample 0 2500000 Background ?i "fst ?c" "snd ?c"] by simp
  moreover have "snd (fst ?c) = None" by (simp only: res snd_conv)
  ultimately show ?thesis by (metis prod.collapse)
qed

text \<open>C3: a refund on PostgreSQL is all or nothing under every fault schedule: with an error the book is
  untouched, or the answer to the commit was lost and the whole refund happened; without an error it
  happened, to a completed transaction of that merchant, with the debit, the audit event and the
  \<open>transaction.refunded\<close> message of this transaction and reason in one step.\<close>

theorem pg_RefundTransaction_outcome:
  assumes "pg_ok (wdb w)"
    and "RefundTransaction (pg_service bank rc timeout maxCents) ctx m i reason w = (res, w')"
  shows "pg_book w' = pg_book w \<and> (\<exists>err. res = Inl err)
    \<or> (\<exists>x. tx_ID x = i \<and> tx_MerchantID x = m \<and> tx_Status x = TxStatusCompleted
         \<and> bk_get (pg_book w) i = Some (core x) \<and> bk_can_add m (- sint (tx_AmountCents x)) (pg_book w)
         \<and> pg_book w' = refund_effect True True x reason (pg_book w)
         \<and> (\<forall>y. res = Inr y \<longrightarrow> y = x\<lparr>tx_Status := TxStatusRefunded\<rparr>))"
  using pgs.db_store.RefundTransaction_steps [OF assms] by (simp add: pg_book_def pg_service_def)

lemma pg_RefundTransaction_outcome_witness:
  "\<exists>y w'. RefundTransaction (pg_service sim_sample rc_sample 0 2500000) Background ''m_001'' ''tx_1'' ''late''
       (world_sample (pg_sample [completed_sample] [])) = (Inr y, w') \<and> tx_Status y = TxStatusRefunded
     \<and> (\<exists>x. core x = core completed_sample \<and> pg_book w' = refund_effect True True x ''late'' (pg_book (world_sample (pg_sample [completed_sample] []))))"
proof -
  let ?w = "world_sample (pg_sample [completed_sample] [])"
  let ?r = "RefundTransaction (pg_service sim_sample rc_sample 0 2500000) Background ''m_001'' ''tx_1'' ''late'' ?w"
  have res: "fst ?r = Inr (completed_sample\<lparr>tx_Metadata := Some (JObject []), tx_Status := TxStatusRefunded\<rparr>)" by code_simp
  then have r: "?r = (Inr (completed_sample\<lparr>tx_Metadata := Some (JObject []), tx_Status := TxStatusRefunded\<rparr>), snd ?r)"
    by (metis prod.collapse)
  have get: "bk_get (pg_book ?w) ''tx_1'' = Some (core completed_sample)" by code_simp
  from pg_RefundTransaction_outcome [OF _ r] get obtain x where
    "core x = core completed_sample" "pg_book (snd ?r) = refund_effect True True x ''late'' (pg_book ?w)" by auto
  then show ?thesis using r by (intro exI [of _ "snd ?r"] exI [of _ "completed_sample\<lparr>tx_Metadata := Some (JObject []), tx_Status := TxStatusRefunded\<rparr>"]) auto
qed

section \<open>Histories\<close>

text \<open>C26: the history of a transaction that the service created cannot be read on PostgreSQL: whatever calls
  and faults there have been, \<open>GetTransactionHistory\<close> of any caller fails for a transaction that was
  not there before them. The event \<open>CREATED\<close> is stored with a \<open>NULL\<close> payload, which \<open>ListByTransaction\<close>
  cannot scan: for the owner, with the database and the context in order, that is the error returned.\<close>

theorem pg_history_unreadable:
  assumes "pg_ok (wdb w)" and "bank_client bank" and "default_timing rc"
    and "bk_get (pg_book w) i = None" and "fold (run_call (pg_service bank rc timeout maxCents)) cs w = w2"
    and "bk_get (pg_book w2) i = Some x"
  shows "\<exists>err. fst (GetTransactionHistory (pg_service bank rc timeout maxCents) ctx m i w2) = Inl err
    \<and> (pg_faults (wdb w2) = [] \<and> (\<forall>t. ctx_Err ctx t = None) \<and> m = tx_MerchantID x \<longrightarrow>
         err = wrapf ''scan event: '' scan_null_payload)"
proof -
  note R = pg_run_calls [OF assms(1-3,5)]
  let ?tb = "pg_committed (wdb w2)"
  have book: "pg_book w2 = tables_book ?tb" by (simp add: pg_book_def pg_view_def tables_on_def)
  from ledger_created [OF R(2) assms(4)] assms(6) obtain e where
    "e \<in> set (bk_events (pg_book w2))" "ev_TransactionID e = i" "ev_Payload e = None" by auto
  then obtain r where r: "r \<in> set (t_events ?tb)" "e_transaction_id r = i" "e_payload r = None"
    by (auto simp: book tables_book_def core_event_def scan_event_def)
  from assms(6) obtain q where q: "find (\<lambda>r. r_id r = i) (t_transactions ?tb) = Some q" "core (scan_tx q) = x"
    by (auto simp: book tables_book_get)
  let ?s = "pg_service bank rc timeout maxCents"
  obtain o1 w1 where own: "ownedTransaction ?s ctx m i w2 = (o1, w1)" by (cases "ownedTransaction ?s ctx m i w2")
  obtain g w1' where g: "rcall (pg_Transaction_GetByID OnDB ctx i) w2 = (g, w1')"
    by (cases "rcall (pg_Transaction_GetByID OnDB ctx i) w2")
  have "w1 = w1'" using own g
    by (auto simp: ownedTransaction_def pg_service_def pg_TransactionRepo_def split: sum.splits if_splits)
  then have "same_data (wdb w2) (wdb w1)" using pg_transaction_get(1) [OF R(1) pg.live_OnDB rcallD [OF g]] by simp
  then have null: "\<exists>err. fst (pg_ListByTransaction OnDB ctx i t (wdb w1)) = Inl err" for t
    using pg_ListByTransaction_null(1) [OF _ r(2,3), of "wdb w1" ctx t] r(1) by (simp add: same_data_def)
  have lists: "ER_ListByTransaction (s_events ?s) = pg_ListByTransaction" by (simp add: pg_service_def pg_EventRepo_def)
  have hist: "fst (GetTransactionHistory ?s ctx m i w2)
      = (case o1 of Inl err \<Rightarrow> Inl err | Inr _ \<Rightarrow> fst (pg_ListByTransaction OnDB ctx i (now (wenv w1)) (wdb w1)))"
    by (simp add: GetTransactionHistory_def own lists rcall_def split: sum.split prod.split)
  have exact: "fst (GetTransactionHistory ?s ctx m i w2) = Inl (wrapf ''scan event: '' scan_null_payload)"
    if clean: "pg_faults (wdb w2) = []" "\<forall>t. ctx_Err ctx t = None" "m = tx_MerchantID x"
  proof -
    have "pg_Transaction_GetByID OnDB ctx i (now (wenv w2)) (wdb w2) = (Inr (scan_tx q), wdb w2)"
      using clean by (intro pg_GetByID_found q(1)) auto
    moreover have "tx_MerchantID (scan_tx q) = m" using q(2) clean(3) by auto
    ultimately have "o1 = Inr (scan_tx q) \<and> wdb w1 = wdb w2"
      using own by (auto simp: ownedTransaction_def pg_service_def pg_TransactionRepo_def rcall_def)
    moreover from this have "fst (pg_ListByTransaction OnDB ctx i (now (wenv w1)) (wdb w1)) = Inl (wrapf ''scan event: '' scan_null_payload)"
      using pg_ListByTransaction_null(2) [OF r] clean by simp
    ultimately show ?thesis unfolding hist by simp
  qed
  from null [of "now (wenv w1)"] obtain err where "fst (GetTransactionHistory ?s ctx m i w2) = Inl err"
    by (cases o1) (auto simp: hist)
  then show ?thesis using exact by auto
qed

text \<open>A creation whose commit succeeded but was not acknowledged: the transaction is there.\<close>

lemma pg_history_unreadable_witness:
  "\<exists>w2 x. w2 = fold (run_call (pg_service sim_sample rc_sample 0 2500000)) [CallCreate Background input_sample]
       (world_sample (pg_sample [] (replicate 6 NoFault @ [FailAfter ''connection lost''])))
     \<and> bk_get (pg_book w2) ''tx_0000000000000002'' = Some x
     \<and> fst (GetTransactionHistory (pg_service sim_sample rc_sample 0 2500000) Background ''m_001'' ''tx_0000000000000002'' w2)
         = Inl (wrapf ''scan event: '' scan_null_payload)"
proof -
  let ?s = "pg_service sim_sample rc_sample 0 2500000"
  let ?w = "world_sample (pg_sample [] (replicate 6 NoFault @ [FailAfter ''connection lost'']))"
  let ?w2 = "fold (run_call ?s) [CallCreate Background input_sample] ?w"
  let ?i = "''tx_0000000000000002''"
  have n: "bk_get (pg_book ?w) ?i = None" by code_simp
  have "map_option tx_MerchantID (bk_get (pg_book ?w2) ?i) = Some ''m_001''" by code_simp
  then obtain x where x: "bk_get (pg_book ?w2) ?i = Some x" and m: "''m_001'' = tx_MerchantID x" by auto
  have f: "pg_faults (wdb ?w2) = []" by code_simp
  have "pg_ok (wdb ?w)" by simp
  from pg_history_unreadable [OF this samples_ok(1,2) n refl x, of Background "''m_001''"] f m
  have "fst (GetTransactionHistory ?s Background ''m_001'' ?i ?w2) = Inl (wrapf ''scan event: '' scan_null_payload)"
    by auto
  then show ?thesis using x by blast
qed

section \<open>Finality\<close>

text \<open>C4: a settled transaction stays settled on PostgreSQL, whatever calls and faults follow: \<open>REFUNDED\<close>
  is final and \<open>COMPLETED\<close> can only become \<open>REFUNDED\<close>; merchant, amount, currency, key and description
  never change.\<close>

theorem pg_settled_final:
  assumes "pg_ok (wdb w)" and "bank_client bank" and "default_timing rc"
    and "bk_get (pg_book w) i = Some t" and "tx_Status t \<in> {TxStatusCompleted, TxStatusRefunded}"
  shows "let w' = fold (run_call (pg_service bank rc timeout maxCents)) cs w in
    bk_get (pg_book w') i = Some t
  \<or> tx_Status t = TxStatusCompleted \<and> bk_get (pg_book w') i = Some (t\<lparr>tx_Status := TxStatusRefunded\<rparr>)"
proof -
  note R = pg_run_calls [where cs = cs and timeout = timeout and maxCents = maxCents, OF assms(1-3) refl]
  show ?thesis using ledger_settled [OF R(2) assms(4,5)] by (simp add: Let_def)
qed

lemma pg_settled_final_witness:
  "\<exists>st \<in> {TxStatusCompleted, TxStatusRefunded}.
     bk_get (pg_book (fold (run_call (pg_service sim_sample rc_sample 0 2500000))
       [CallCreate Background input_sample, CallRefund Background ''m_002'' ''tx_1'' ''x'']
       (world_sample (pg_sample [completed_sample] [])))) ''tx_1'' = Some (core completed_sample\<lparr>tx_Status := st\<rparr>)"
proof -
  have get: "bk_get (pg_book (world_sample (pg_sample [completed_sample] []))) ''tx_1'' = Some (core completed_sample)"
    by code_simp
  have st: "tx_Status (core completed_sample) = TxStatusCompleted" by (simp add: completed_sample_def)
  then have same: "core completed_sample\<lparr>tx_Status := TxStatusCompleted\<rparr> = core completed_sample"
    by (metis Transaction.surjective Transaction.update_convs(5))
  from pg_settled_final [OF _ _ _ get, of sim_sample rc_sample 0 2500000
      "[CallCreate Background input_sample, CallRefund Background ''m_002'' ''tx_1'' ''x'']"] st same
  show ?thesis by (auto simp: Let_def)
qed

text \<open>One after the other, a transaction is refunded at most once on PostgreSQL: after a refund that
  returned, and any further calls, another refund of the same transaction by whoever fails and
  changes nothing.\<close>

theorem pg_refund_once:
  assumes "pg_ok (wdb w)" and "bank_client bank" and "default_timing rc"
    and "RefundTransaction (pg_service bank rc timeout maxCents) ctx m i reason w = (Inr y, w1)"
    and "fold (run_call (pg_service bank rc timeout maxCents)) cs w1 = w2"
    and "RefundTransaction (pg_service bank rc timeout maxCents) ctx' m' i reason' w2 = (res, w3)"
  shows "(\<exists>err. res = Inl err) \<and> pg_book w3 = pg_book w2"
proof -
  note S = pgs.db_store.RefundTransaction_steps [OF assms(1,4)]
  have on_db: "s_db (pg_service bank rc timeout maxCents) = Some pg_sqlDB" by (simp add: pg_service_def)
  obtain x where x: "tx_ID x = i" "bk_get (pg_book w) i = Some (core x)"
    "pg_book w1 = refund_effect True True x reason (pg_book w)" "pg_ok (wdb w1)"
    using S by (auto simp: pg_book_def on_db)
  then have "bk_get (pg_book w1) i = Some (core x\<lparr>tx_Status := TxStatusRefunded\<rparr>)"
    by (auto simp: refund_effect_def bk_get_set)
  note R = pg_run_calls [OF x(4) assms(2,3,5)]
  have "bk_get (pg_book w2) i = Some (core x\<lparr>tx_Status := TxStatusRefunded\<rparr>)"
    using ledger_settled [OF R(2) \<open>bk_get (pg_book w1) i = _\<close>] by simp
  then have no: "\<not> (bk_get (pg_book w2) i = Some (core z) \<and> tx_Status z = TxStatusCompleted)" for z
    by (metis Transaction.select_convs(5) Transaction.surjective Transaction.update_convs(5) core_simps option.inject status_simps)
  show ?thesis using pgs.db_store.RefundTransaction_steps [OF R(1) assms(6)] no by (auto simp: pg_book_def)
qed

lemma pg_refund_once_witness:
  "let s = pg_service sim_sample rc_sample 0 2500000; w = world_sample (pg_sample [completed_sample] []);
       w1 = snd (RefundTransaction s Background ''m_001'' ''tx_1'' ''late'' w);
       r = RefundTransaction s Background ''m_001'' ''tx_1'' ''again'' w1
   in (\<exists>err. fst r = Inl err) \<and> pg_book (snd r) = pg_book w1"
proof -
  let ?s = "pg_service sim_sample rc_sample 0 2500000"
  let ?r = "RefundTransaction ?s Background ''m_001'' ''tx_1'' ''late'' (world_sample (pg_sample [completed_sample] []))"
  have "fst ?r = Inr (completed_sample\<lparr>tx_Metadata := Some (JObject []), tx_Status := TxStatusRefunded\<rparr>)" by code_simp
  then have r: "?r = (Inr (completed_sample\<lparr>tx_Metadata := Some (JObject []), tx_Status := TxStatusRefunded\<rparr>), snd ?r)"
    by (metis prod.collapse)
  show ?thesis unfolding Let_def
    by (rule pg_refund_once [OF _ _ _ r, where cs = "[]"]) simp_all
qed

text \<open>C7: concurrent refunds of one transaction are not excluded: when two requests read the transaction
  before either writes, both refunds succeed and the merchant is debited twice for one payment. The
  status is checked on the copy read before; \<open>UpdateStatus\<close> inside the database transaction has no
  condition on the status it replaces.\<close>

theorem pg_concurrent_double_refund:
  "\<exists>s w0 x w1 w2 w3 w4. s = pg_service sim_sample rc_sample 0 2500000 \<and> pg_ok (wdb w0)
     \<and> ownedTransaction s Background ''m_001'' ''tx_1'' w0 = (Inr x, w1)
     \<and> ownedTransaction s Background ''m_001'' ''tx_1'' w1 = (Inr x, w2)
     \<and> CanTransition (tx_Status x) TxStatusRefunded
     \<and> refund s Background x ''first'' w2 = (None, w3) \<and> refund s Background x ''second'' w3 = (None, w4)
     \<and> tx_AmountCents x = 5000 \<and> bk_bal (pg_book w0) ''m_001'' = Some 10000 \<and> bk_bal (pg_book w4) ''m_001'' = Some 0"
proof -
  let ?s = "pg_service sim_sample rc_sample 0 2500000"
  let ?x = "completed_sample\<lparr>tx_Metadata := Some (JObject [])\<rparr>"
  let ?w0 = "world_sample (pg_sample [completed_sample] [])"
  let ?o1 = "ownedTransaction ?s Background ''m_001'' ''tx_1'' ?w0"
  let ?o2 = "ownedTransaction ?s Background ''m_001'' ''tx_1'' (snd ?o1)"
  let ?r1 = "refund ?s Background ?x ''first'' (snd ?o2)"
  let ?r2 = "refund ?s Background ?x ''second'' (snd ?r1)"
  have "fst ?o1 = Inr ?x" "fst ?o2 = Inr ?x" "fst ?r1 = None" "fst ?r2 = None" by code_simp+
  then have "?o1 = (Inr ?x, snd ?o1)" "?o2 = (Inr ?x, snd ?o2)" "?r1 = (None, snd ?r1)" "?r2 = (None, snd ?r2)"
    by (metis prod.collapse)+
  moreover have "bk_bal (pg_book ?w0) ''m_001'' = Some 10000" "bk_bal (pg_book (snd ?r2)) ''m_001'' = Some 0"
    by code_simp+
  moreover have "pg_ok (wdb ?w0)" "CanTransition (tx_Status ?x) TxStatusRefunded" "tx_AmountCents ?x = 5000"
    by (simp_all add: CanTransition_iff)
  ultimately show ?thesis by blast
qed

section \<open>Isolation of merchants\<close>

text \<open>C8: a merchant can neither read nor refund a transaction of another merchant, nor read its history:
  each call fails, and nothing changes.\<close>

theorem pg_merchant_isolation:
  assumes "pg_ok (wdb w)" and "bk_get (pg_book w) i = Some t" and "tx_MerchantID t \<noteq> m"
  shows "(\<exists>err w'. GetTransaction (pg_service bank rc timeout maxCents) ctx m i w = (Inl err, w') \<and> pg_book w' = pg_book w)
    \<and> (\<exists>err w'. GetTransactionHistory (pg_service bank rc timeout maxCents) ctx m i w = (Inl err, w') \<and> pg_book w' = pg_book w)
    \<and> (\<exists>err w'. RefundTransaction (pg_service bank rc timeout maxCents) ctx m i reason w = (Inl err, w') \<and> pg_book w' = pg_book w)"
proof -
  let ?s = "pg_service bank rc timeout maxCents"
  obtain r w1 where o1: "ownedTransaction ?s ctx m i w = (r, w1)" by (cases "ownedTransaction ?s ctx m i w")
  note O = pgs.db_store.ownedTransaction_steps [OF assms(1) o1]
  have foreign: "\<not> (bk_get (pg_book w) i = Some (core x) \<and> tx_MerchantID x = m)" for x
    using assms(2,3) by auto
  then obtain err where r: "r = Inl err" "pg_book w1 = pg_book w" using O by (cases r) (auto simp: pg_book_def)
  obtain r2 w2 where f: "RefundTransaction ?s ctx m i reason w = (r2, w2)" by (cases "RefundTransaction ?s ctx m i reason w")
  have "(\<exists>err. r2 = Inl err) \<and> pg_book w2 = pg_book w"
    using pgs.db_store.RefundTransaction_steps [OF assms(1) f] foreign by (auto simp: pg_book_def)
  then show ?thesis using o1 r f by (auto simp: GetTransaction_def GetTransactionHistory_def)
qed

lemma pg_merchant_isolation_witness:
  "\<exists>err w'. RefundTransaction (pg_service sim_sample rc_sample 0 2500000) Background ''m_002'' ''tx_1'' ''mine''
     (world_sample (pg_sample [completed_sample] [])) = (Inl err, w')
     \<and> pg_book w' = pg_book (world_sample (pg_sample [completed_sample] []))"
proof -
  have "bk_get (pg_book (world_sample (pg_sample [completed_sample] []))) ''tx_1'' = Some (core completed_sample)" by code_simp
  from pg_merchant_isolation [OF _ this, of "''m_002''"] show ?thesis by simp
qed

section \<open>Admission and idempotency\<close>

lemma pg_lookups:
  assumes "pg_GetByIdempotencyKey OnDB ctx k t d = (r, d1)"
  shows "pg_committed d1 = pg_committed d"
    and "r = Inr None \<Longrightarrow> \<forall>q \<in> set (t_transactions (pg_committed d)). r_idempotency_key q \<noteq> Some k"
proof -
  obtain x where run: "run_stmt OnDB ctx (select_transaction (\<lambda>r. r_idempotency_key r = Some k)) t d = (x, d1)"
    and r: "r = Inr None \<Longrightarrow> x = Inr None"
    using assms by (auto simp: pg_GetByIdempotencyKey_def split: prod.splits sum.splits option.splits)
  have "pg_live OnDB d" by (simp add: pg_live_def tables_on_def)
  from run_query [OF run this] show "pg_committed d1 = pg_committed d"
    "r = Inr None \<Longrightarrow> \<forall>q \<in> set (t_transactions (pg_committed d)). r_idempotency_key q \<noteq> Some k"
    using r by (auto simp: same_data_def select_transaction_def tables_on_def find_None_iff)
qed

lemma pg_merchant_found:
  assumes "fst (pg_Merchant_GetByID OnDB ctx i t d) = Inr m"
  shows "m \<in> set (t_merchants (pg_committed d)) \<and> m_ID m = i"
proof -
  obtain x d1 where run: "run_stmt OnDB ctx (select_merchant i) t d = (x, d1)"
    by (cases "run_stmt OnDB ctx (select_merchant i) t d")
  have "pg_live OnDB d" by (simp add: pg_live_def tables_on_def)
  from run_query [OF run this] show ?thesis
    using assms run by (auto simp: pg_Merchant_GetByID_def select_merchant_def tables_on_def find_Some_iff split: sum.splits option.splits)
qed

text \<open>C6: \<open>CreateTransaction\<close> on PostgreSQL has an effect (a write, or a request to the bank) only if the
  merchant's row is active, the amount is positive and within the limit of the service, and the
  currency is \<open>CAD\<close> or \<open>USD\<close>.\<close>

theorem pg_CreateTransaction_admission:
  assumes "pg_ok (wdb w)" and "CreateTransaction (pg_service bank rc timeout maxCents) ctx input w = (res, w')"
    and "pg_book w' \<noteq> pg_book w \<or> trace (wenv w') \<noteq> trace (wenv w)"
  shows "\<exists>m \<in> set (t_merchants (pg_committed (wdb w))). m_ID m = in_MerchantID input \<and> m_Status m = MerchantActive
    \<and> 0 < sint (in_AmountCents input) \<and> sint (in_AmountCents input) \<le> sint maxCents
    \<and> in_Currency input \<in> {''CAD'', ''USD''}"
proof -
  obtain m where m: "admitted (pg_service bank rc timeout maxCents) ctx input (wdb w) m"
    using pgs.db_store.CreateTransaction_admitted [OF assms(1,2)] assms(3) by (auto simp: pg_book_def)
  then obtain d0 t where d0: "pg_committed d0 = pg_committed (wdb w)"
    and f: "fst (pg_Merchant_GetByID OnDB ctx (in_MerchantID input) t d0) = Inr m"
    using pg_lookups(1) by (fastforce simp: admitted_def pg_service_def pg_TransactionRepo_def pg_MerchantRepo_def)
  from pg_merchant_found [OF f] m d0 show ?thesis
    by (auto simp: admitted_def IsActive_def pg_service_def intro!: bexI [of _ m])
qed

text \<open>A call without a key whose transaction could not be saved, in one equation.\<close>

lemma create_unsaved:
  assumes "contextError ctx w = None" and "in_IdempotencyKey input = []"
    and "rcall (MR_GetByID (s_merchants s) OnDB ctx (in_MerchantID input)) w = (Inr m, w1)" and "IsActive m"
    and "0 < sint (in_AmountCents input)" and "sint (in_AmountCents input) \<le> sint (s_maxTransactionCents s)"
    and "in_Currency input = ''CAD''" and "generateTransactionID (wenv w1) = (i, e1)"
    and "persist s ctx (new_transaction input i (now (wenv w1))) (w1\<lparr>wenv := e1\<rparr>) = (Some err, w2)"
  shows "CreateTransaction s ctx input w = ((None, Some err), w2)"
  using assms by (simp add: CreateTransaction_def validate_and_create_def create_and_process_def)

lemma pg_CreateTransaction_admission_witness:
  "\<exists>res w'. CreateTransaction (pg_service sim_sample rc_sample 0 2500000) Background (input_sample\<lparr>in_IdempotencyKey := []\<rparr>)
       (world_sample (pg_sample [] [NoFault, NoFault, NoFault, NoFault, NoFault, FailAfter ''lost''])) = (res, w')
     \<and> pg_book w' \<noteq> pg_book (world_sample (pg_sample [] []))
     \<and> (\<exists>m \<in> set (t_merchants (pg_committed (pg_sample [] []))). m_ID m = ''m_001'' \<and> m_Status m = MerchantActive)"
proof -
  let ?s = "pg_service sim_sample rc_sample 0 2500000"
  let ?i = "input_sample\<lparr>in_IdempotencyKey := []\<rparr>"
  let ?w = "world_sample (pg_sample [] [NoFault, NoFault, NoFault, NoFault, NoFault, FailAfter ''lost''])"
  let ?m = "rcall (MR_GetByID (s_merchants ?s) OnDB Background (in_MerchantID ?i)) ?w"
  let ?g = "generateTransactionID (wenv (snd ?m))"
  let ?x = "new_transaction ?i ''tx_0000000000000001'' 7"
  let ?p = "persist ?s Background ?x ((snd ?m)\<lparr>wenv := snd ?g\<rparr>)"
  have ev: "fst ?m = Inr merchant_sample" "fst ?g = ''tx_0000000000000001''" "now (wenv (snd ?m)) = 7"
    "fst ?p = Some (New ''lost'')" by code_simp+
  then have m: "?m = (Inr merchant_sample, snd ?m)" and g: "?g = (''tx_0000000000000001'', snd ?g)"
    and p: "persist ?s Background (new_transaction ?i ''tx_0000000000000001'' (now (wenv (snd ?m)))) ((snd ?m)\<lparr>wenv := snd ?g\<rparr>)
      = (Some (New ''lost''), snd ?p)"
    by (metis prod.collapse)+
  have "contextError Background ?w = None" "IsActive merchant_sample" "0 < sint (in_AmountCents ?i)"
    "sint (in_AmountCents ?i) \<le> sint (s_maxTransactionCents ?s)" "in_Currency ?i = ''CAD''" "in_IdempotencyKey ?i = []"
    by code_simp+
  from create_unsaved [OF this(1) this(6) m this(2-5) g p]
  have c: "CreateTransaction ?s Background ?i ?w = ((None, Some (New ''lost'')), snd ?p)" .
  have "bk_get (pg_book (snd ?p)) ''tx_0000000000000001'' = Some (core ?x)" and "bk_get (pg_book ?w) ''tx_0000000000000001'' = None"
    by code_simp+
  then have d: "pg_book (snd ?p) \<noteq> pg_book ?w" by auto
  have w: "pg_book (world_sample (pg_sample [] [])) = pg_book ?w" "pg_committed (pg_sample [] []) = pg_committed (wdb ?w)"
    by (simp_all add: pg_book_def pg_view_def tables_on_def pg_sample_def)
  from pg_CreateTransaction_admission [OF _ c disjI1 [OF d]] c d show ?thesis unfolding w
    by (fastforce simp: input_sample_def)
qed

text \<open>C5: a key is charged at most once: once a transaction with the idempotency key is in the table,
  \<open>CreateTransaction\<close> with that key writes nothing and does not contact the bank, whatever it
  answers (the recorded transaction if it matches the request, an error otherwise).\<close>

theorem pg_key_charged_once:
  assumes "pg_ok (wdb w)" and "q \<in> set (t_transactions (pg_committed (wdb w)))"
    and "r_idempotency_key q = Some (in_IdempotencyKey input)" and "in_IdempotencyKey input \<noteq> []"
    and "CreateTransaction (pg_service bank rc timeout maxCents) ctx input w = ((tx, err), w')"
  shows "pg_book w' = pg_book w \<and> trace (wenv w') = trace (wenv w)
    \<and> (case tx of None \<Rightarrow> err \<noteq> None
       | Some x \<Rightarrow> err = None \<and> tx_IdempotencyKey x = in_IdempotencyKey input \<and> matchesIdempotentRequest x input
           \<and> bk_get (pg_book w) (tx_ID x) = Some (core x))"
proof (cases "contextError ctx w")
  case (Some e)
  then show ?thesis using assms(5) by (cases err) (auto simp: CreateTransaction_def)
next
  case None
  let ?s = "pg_service bank rc timeout maxCents"
  obtain r w1 where k: "rcall (TR_GetByIdempotencyKey (s_txns ?s) OnDB ctx (in_IdempotencyKey input)) w = (r, w1)"
    by (cases "rcall (TR_GetByIdempotencyKey (s_txns ?s) OnDB ctx (in_IdempotencyKey input)) w")
  have "pg_GetByIdempotencyKey OnDB ctx (in_IdempotencyKey input) (now (wenv w)) (wdb w) = (r, wdb w1)"
    using rcallD [OF k] by (simp add: pg_service_def pg_TransactionRepo_def)
  from pg_lookups(2) [OF this] have found: "r \<noteq> Inr None" using assms(2,3) by blast
  note K = pgs.db_store.key_lookup [OF assms(1) rcallD [OF k]] and Q = wquiet_trace [OF calmD [OF calm_rcall k]]
  have "w' = w1 \<and> (case r of Inl e \<Rightarrow> tx = None \<and> err \<noteq> None | Inr None \<Rightarrow> False
      | Inr (Some x) \<Rightarrow> if matchesIdempotentRequest x input then tx = Some x \<and> err = None else tx = None \<and> err \<noteq> None)"
    using assms(4,5) None k found by (auto simp: CreateTransaction_def split: sum.splits option.splits if_splits)
  then show ?thesis using K Q
    by (cases r) (auto simp: pg_book_def split: option.splits if_splits)
qed

lemma pg_key_charged_once_witness:
  "let w = world_sample (pg_sample [completed_sample] []); i = input_sample\<lparr>in_IdempotencyKey := ''k1'', in_AmountCents := 1\<rparr>;
       c = CreateTransaction (pg_service sim_sample rc_sample 0 2500000) Background i w
   in pg_book (snd c) = pg_book w \<and> trace (wenv (snd c)) = trace (wenv w) \<and> fst (fst c) = None \<and> snd (fst c) \<noteq> None"
proof -
  let ?w = "world_sample (pg_sample [completed_sample] [])"
  let ?i = "input_sample\<lparr>in_IdempotencyKey := ''k1'', in_AmountCents := 1\<rparr>"
  let ?c = "CreateTransaction (pg_service sim_sample rc_sample 0 2500000) Background ?i ?w"
  have tx: "fst (fst ?c) = None" by code_simp
  have c: "?c = ((fst (fst ?c), snd (fst ?c)), snd ?c)" by simp
  have row: "tx_row_of completed_sample \<in> set (t_transactions (pg_committed (wdb ?w)))"
    "r_idempotency_key (tx_row_of completed_sample) = Some (in_IdempotencyKey ?i)" "in_IdempotencyKey ?i \<noteq> []"
    by (simp_all add: pg_sample_def tx_row_of_def nullif_def)
  have "pg_ok (wdb ?w)" by simp
  from pg_key_charged_once [OF this row c] tx show ?thesis unfolding Let_def tx option.case by blast
qed

section \<open>Settling payments\<close>

text \<open>While the breaker is open, no payment reaches the bank: \<open>callBank\<close> answers \<open>ErrCircuitOpen\<close> at once
  and changes nothing, whatever store and bank the service has.\<close>

theorem callBank_fails_fast:
  assumes "cb_state (wbreaker w) = CircuitOpen"
    and "now (wenv w) - cb_openedAt (wbreaker w) < cb_resetTimeout (wbreaker w)"
  shows "callBank s parentCtx bankCtx x w = (Some (Sentinel ErrCircuitOpen), w)"
  using assms by (simp add: callBank_def Execute_def beforeRequest_def normalizeBankError_def err_is_def Let_def)

lemma callBank_fails_fast_witness:
  "callBank (pg_service sim_sample rc_sample 0 2500000) Background Background completed_sample
     (world_sample (pg_sample [] [])\<lparr>wbreaker := (NewCircuitBreaker 3 10)\<lparr>cb_state := CircuitOpen, cb_openedAt := 0\<rparr>\<rparr>)
   = (Some (Sentinel ErrCircuitOpen),
      world_sample (pg_sample [] [])\<lparr>wbreaker := (NewCircuitBreaker 3 10)\<lparr>cb_state := CircuitOpen, cb_openedAt := 0\<rparr>\<rparr>)"
  by (rule callBank_fails_fast) code_simp+

text \<open>C9: with the in-memory repositories every payment that starts is settled, also when the client goes
  away during the bank call: it ends \<open>FAILED\<close> in the book with its event and message, or \<open>COMPLETED\<close>
  with the credit. The one exception is a credit that does not fit the balance: then the bank has
  been charged and the transaction stays \<open>PROCESSING\<close>.\<close>

theorem mock_payment_settles:
  assumes "mock_ok (wdb w)" and "bk_get (mem_book w) (tx_ID x) = Some (core x)" and "tx_Status x = TxStatusPending"
    and "contextError ctx w = None" and "bank_client bank" and "default_timing rc"
    and "processPayment (mock_service has_outbox bank rc timeout maxCents) ctx x w = ((res, x'), w')"
  shows "let b1 = move_effect has_outbox x TxStatusProcessing (mem_book w) in
      res \<noteq> None \<and> mem_book w' = move_effect has_outbox (x\<lparr>tx_Status := TxStatusProcessing\<rparr>) TxStatusFailed b1
        \<and> x' = x\<lparr>tx_Status := TxStatusFailed\<rparr>
    \<or> res = None \<and> mem_book w' = pay_effect has_outbox x (mem_book w) \<and> x' = x\<lparr>tx_Status := TxStatusCompleted\<rparr>
    \<or> res \<noteq> None \<and> mem_book w' = b1 \<and> x' = x\<lparr>tx_Status := TxStatusProcessing\<rparr>
        \<and> approved bank (charge_request x) \<and> \<not> bk_can_add (tx_MerchantID x) (sint (tx_AmountCents x)) (mem_book w)"
  using mocks.processPayment_mem [of w x ctx has_outbox bank rc timeout maxCents res x' w'] assms
  by (cases has_outbox) (simp_all add: mem_book_def Let_def)

lemma mock_payment_settles_witness:
  "let x = completed_sample\<lparr>tx_Status := TxStatusPending, tx_AmountCents := 666\<rparr>;
       w = world_sample (snd (mock_Transaction_Create x 0 NewMockDB));
       p = processPayment (mock_service False sim_sample rc_sample 0 2500000) Background x w
   in fst (fst p) = Some (Sentinel ErrBankRejected)
    \<and> mem_book (snd p) = move_effect False (x\<lparr>tx_Status := TxStatusProcessing\<rparr>) TxStatusFailed
        (move_effect False x TxStatusProcessing (mem_book w))"
proof -
  let ?x = "completed_sample\<lparr>tx_Status := TxStatusPending, tx_AmountCents := 666\<rparr>"
  let ?w = "world_sample (snd (mock_Transaction_Create ?x 0 NewMockDB))"
  let ?p = "processPayment (mock_service False sim_sample rc_sample 0 2500000) Background ?x ?w"
  have p: "?p = ((fst (fst ?p), snd (fst ?p)), snd ?p)" by simp
  have res: "fst (fst ?p) = Some (Sentinel ErrBankRejected)" by code_simp
  have can: "bk_can_add (tx_MerchantID ?x) (sint (tx_AmountCents ?x)) (mem_book ?w)" by code_simp
  have get: "bk_get (mem_book ?w) (tx_ID ?x) = Some (core ?x)" "contextError Background ?w = None"
    "tx_Status ?x = TxStatusPending" by code_simp+
  have ok: "mock_ok (wdb ?w)"
    by (auto simp: mock_ok_def book_ok_def mock_book_def mock_Transaction_Create_def NewMockDB_def NewMerchantRepo_def core_def
        split: if_splits)
  from mock_payment_settles [OF ok get(1,3,2) _ _ p] res can show ?thesis by (simp add: Let_def)
qed

end
